(* ===== verification/Prelude.thy ===== *)
theory Prelude
  imports "HOL-Library.Word"
begin

text \<open>
  Shared vocabulary of the development: the machine integer types of the C sources, byte strings
  and bit arrays, the fact collections every component adds to, and generic lemmas on words and
  lists.  A C \<open>uint8_t\<close>, \<open>uint16_t\<close>, \<open>uint32_t\<close> or \<open>uint64_t\<close> is a word of that width; a
  \<open>dmr_bit\<close> (a byte that holds 0 or 1, \<open>dmr/dmr.h\<close>) is a truth value, and an array of them a list.
\<close>

unbundle bit_operations_syntax

type_synonym u8 = "8 word"
type_synonym u16 = "16 word"
type_synonym u32 = "32 word"
type_synonym u64 = "64 word"
type_synonym bytes = "u8 list"
type_synonym dmr_bit = bool
type_synonym bits = "dmr_bit list"

named_theorems array_len \<open>lengths of the arrays the operations produce\<close>
named_theorems frame \<open>what an operation leaves unchanged\<close>

section \<open>Lists and arrays\<close>

lemma nth_append_left: "i < length xs \<Longrightarrow> (xs @ ys) ! i = xs ! i"
  by (simp add: nth_append)

lemma list_eq_nth_upt: "length xs = n \<Longrightarrow> map ((!) xs) [0..<n] = xs"
  by (metis map_nth)

lemma all_lt_Suc: "(\<forall>i < Suc n. P i) \<longleftrightarrow> (\<forall>i < n. P i) \<and> P n"
  by (auto simp: less_Suc_eq)

text \<open>Reading a list of known length through two index maps that undo each other.\<close>

lemma map_nth_map_nth:
  assumes "length xs = n" "length q = n" "\<And>i. i < n \<Longrightarrow> q ! i < length p \<and> p ! (q ! i) = i"
  shows "map (\<lambda>i. map ((!) xs) p ! (q ! i)) [0..<n] = xs"
  using assms by (intro nth_equalityI) auto

lemma list_all_nthI: "(\<And>i. i < length xs \<Longrightarrow> P (xs ! i)) \<Longrightarrow> list_all P xs"
  by (auto simp: list_all_length)

text \<open>Folding a write at position \<open>i\<close> for every \<open>i\<close> in turn, the shape of most loops here.\<close>

lemma foldl_writes_length:
  "(\<And>acc i. length (f acc i) = length acc) \<Longrightarrow> length (foldl f acc is) = length acc"
  by (induction "is" arbitrary: acc) auto

lemma foldl_upt_Suc: "foldl f a [0..<Suc n] = f (foldl f a [0..<n]) n"
  by simp

text \<open>Spelling out \<open>[0..<n]\<close> for a literal \<open>n\<close> (the library's rule starts at a literal only).\<close>

lemma upt_literal:
  "[0..<numeral n] = 0 # [Suc 0..<numeral n]"
  "[Suc 0..<numeral n] = (if Suc 0 < numeral n then 1 # [2..<numeral n] else [])"
  by (simp_all add: upt_rec numeral_2_eq_2)

text \<open>A search by index that can end at one place only.\<close>

lemma find_only:
  assumes "i < n" "P i" "\<And>j. j < n \<Longrightarrow> P j \<Longrightarrow> j = i"
  shows "find P [0..<n] = Some i"
proof (cases "find P [0..<n]")
  case None
  then show ?thesis using assms(1,2) by (auto simp: find_None_iff)
next
  case (Some j)
  then show ?thesis using assms(3) by (auto simp: find_Some_iff)
qed

section \<open>Words\<close>

lemma bit_u8_ge: "bit (w :: u8) n \<Longrightarrow> n < 8"
  using bit_imp_le_length by fastforce

lemma u8_eqI: "(\<And>k. k < 8 \<Longrightarrow> bit (a :: u8) k = bit b k) \<Longrightarrow> a = b"
  by (rule bit_word_eqI) simp

lemma and_1_iff_bit0: "(w :: 'a::len word) AND 1 \<noteq> 0 \<longleftrightarrow> bit w 0"
  by (simp add: and_one_eq bit_0 odd_iff_mod_2_eq_one)

lemma unat_u8_less: "unat (w :: u8) < 256"
  using unsigned_less [of w] by simp

lemma unat_u32_less: "unat (w :: u32) < 4294967296"
  using unsigned_less [of w] by simp

lemma unat_and_0x1F: "unat ((x :: u8) AND 0x1F) = unat x mod 32"
proof -
  have "x AND 0x1F = take_bit 5 x" by (simp only: take_bit_eq_mask) (simp add: mask_eq_exp_minus_1)
  then have "unat (x AND 0x1F) = take_bit 5 (unat x)" by (simp only: unsigned_take_bit_eq)
  then show ?thesis by (simp add: take_bit_eq_mod)
qed

lemma unat_ucast_u8 [simp]: "unat (ucast (w :: u8) :: u32) = unat w"
  using unat_u8_less [of w] by (simp add: unsigned_ucast_eq take_bit_nat_eq_self_iff)

lemma unat_ucast_to_u8: "unat (w :: u32) < 256 \<Longrightarrow> unat (ucast w :: u8) = unat w"
  by (simp add: unsigned_ucast_eq take_bit_nat_eq_self_iff)

end
