(* ===== verification/Linear_Code.thy ===== *)
theory Linear_Code
  imports Prelude
begin

text \<open>
  The contract a systematic parity function over GF(2) gives its users: it is additive, and the
  code it spans has a minimum weight.  The Hamming encoders of \<open>dmr/hamming.c\<close> and the Golay
  encoder of \<open>dmr/golay.c\<close> are its providers; the distance and unique-decoding facts are proved
  once, here.
\<close>

section \<open>Exclusive or, weight and distance on bit arrays\<close>

definition xor_all :: "bits \<Rightarrow> dmr_bit" where
  "xor_all bs = foldr (\<noteq>) bs False"

definition xor_bits :: "bits \<Rightarrow> bits \<Rightarrow> bits" where
  "xor_bits xs ys = map2 (\<noteq>) xs ys"

definition hweight :: "bits \<Rightarrow> nat" where
  "hweight xs = length (filter (\<lambda>b. b) xs)"

definition hdist :: "bits \<Rightarrow> bits \<Rightarrow> nat" where
  "hdist xs ys = hweight (xor_bits xs ys)"

lemma xor_all_simps [simp]: "xor_all [] = False" "xor_all (b # bs) = (b \<noteq> xor_all bs)"
  by (simp_all add: xor_all_def)

text \<open>The sum of the bits of \<open>d\<close> at the listed positions, the shape of a Hamming check.\<close>

definition xor_at :: "bits \<Rightarrow> nat list \<Rightarrow> dmr_bit" where
  "xor_at d is = xor_all (map ((!) d) is)"

lemma length_xor_bits [simp]: "length (xor_bits xs ys) = min (length xs) (length ys)"
  by (simp add: xor_bits_def)

lemma xor_bits_simps [simp]:
  "xor_bits [] ys = []" "xor_bits xs [] = []"
  "xor_bits (x # xs) (y # ys) = (x \<noteq> y) # xor_bits xs ys"
  by (auto simp: xor_bits_def)

lemma nth_xor_bits [simp]:
  "i < length xs \<Longrightarrow> i < length ys \<Longrightarrow> xor_bits xs ys ! i = (xs ! i \<noteq> ys ! i)"
  by (simp add: xor_bits_def)

lemma xor_at_add:
  "\<forall>i \<in> set is. i < length d \<and> i < length e \<Longrightarrow>
   xor_at (xor_bits d e) is = (xor_at d is \<noteq> xor_at e is)"
  by (induction "is") (auto simp: xor_at_def)

lemma xor_bits_append:
  "length xs = length ys \<Longrightarrow> xor_bits (xs @ xs') (ys @ ys') = xor_bits xs ys @ xor_bits xs' ys'"
  by (simp add: xor_bits_def)

lemma xor_bits_self: "xor_bits xs xs = replicate (length xs) False"
  by (induction xs) auto

lemma xor_bits_eq_zeros_iff:
  "length xs = length ys \<Longrightarrow> xor_bits xs ys = replicate (length xs) False \<longleftrightarrow> xs = ys"
  by (induction xs ys rule: list_induct2) auto

lemma hweight_simps [simp]:
  "hweight [] = 0" "hweight (b # bs) = (if b then Suc (hweight bs) else hweight bs)"
  "hweight (xs @ ys) = hweight xs + hweight ys"
  by (simp_all add: hweight_def)

lemma xor_bits_sym: "xor_bits xs ys = xor_bits ys xs"
  by (rule nth_equalityI) auto

lemma hdist_sym: "hdist xs ys = hdist ys xs"
  by (simp add: hdist_def xor_bits_sym)

lemma hdist_triangle:
  "length xs = length ys \<Longrightarrow> length ys = length zs \<Longrightarrow> hdist xs zs \<le> hdist xs ys + hdist ys zs"
  by (induction xs ys zs rule: list_induct3) (auto simp: hdist_def)

section \<open>Linear combinations and the weight check\<close>

text \<open>The sum of the columns that the bits of \<open>d\<close> select.\<close>

fun lin_comb :: "nat \<Rightarrow> bits list \<Rightarrow> bits \<Rightarrow> bits" where
  "lin_comb r (c # cs) (b # d) = (if b then xor_bits c (lin_comb r cs d) else lin_comb r cs d)"
| "lin_comb r _ _ = replicate r False"

text \<open>\<open>heavy n bs\<close>: at least \<open>n\<close> bits of \<open>bs\<close> are set.\<close>

fun heavy :: "nat \<Rightarrow> bits \<Rightarrow> bool" where
  "heavy 0 bs = True"
| "heavy (Suc n) [] = False"
| "heavy (Suc n) (b # bs) = (if b then heavy n bs else heavy (Suc n) bs)"

text \<open>
  Walks over the selections of columns: \<open>n\<close> is the weight still needed, \<open>z\<close> whether no data bit
  is set yet, \<open>p\<close> the parity so far.  A branch is cut off when no more weight is needed.
\<close>

fun span_ok :: "nat \<Rightarrow> bits list \<Rightarrow> bool \<Rightarrow> bits \<Rightarrow> bool" where
  "span_ok 0 cs z p = True"
| "span_ok (Suc n) [] z p = (z \<or> heavy (Suc n) p)"
| "span_ok (Suc n) (c # cs) z p =
     (span_ok (Suc n) cs z p \<and> span_ok n cs False (xor_bits p c))"

lemma heavy_iff: "heavy n bs \<longleftrightarrow> n \<le> hweight bs"
  by (induction n bs rule: heavy.induct) auto

lemmas xor_bits_code [code] = xor_bits_simps

lemma length_lin_comb:
  "\<forall>c \<in> set cs. length c = r \<Longrightarrow> length (lin_comb r cs d) = r"
  by (induction r cs d rule: lin_comb.induct) auto

lemma xor_bits_zeros_right [simp]: "length xs = n \<Longrightarrow> xor_bits xs (replicate n False) = xs"
  by (rule nth_equalityI) auto

lemma xor_bits_zeros_left [simp]: "length xs = n \<Longrightarrow> xor_bits (replicate n False) xs = xs"
  by (rule nth_equalityI) auto

lemma xor_bits_assoc: "xor_bits (xor_bits xs ys) zs = xor_bits xs (xor_bits ys zs)"
  by (rule nth_equalityI) auto

lemma span_ok_weight:
  assumes "span_ok n cs z p" "length d = length cs" "\<forall>c \<in> set cs. length c = r" "length p = r"
    "z \<Longrightarrow> d \<noteq> replicate (length d) False"
  shows "n \<le> hweight d + hweight (xor_bits p (lin_comb r cs d))"
  using assms
proof (induction n cs z p arbitrary: d rule: span_ok.induct)
  case (2 n z p)
  then show ?case by (auto simp: heavy_iff)
next
  case (3 n c cs z p)
  then obtain b d' where d: "d = b # d'" "length d' = length cs" by (cases d) auto
  show ?case
  proof (cases b)
    case True
    with 3 d have "n \<le> hweight d' + hweight (xor_bits (xor_bits p c) (lin_comb r cs d'))"
      by (intro "3.IH"(2)) auto
    with True d show ?thesis by (simp add: xor_bits_assoc)
  next
    case False
    with 3 d show ?thesis by (auto intro!: "3.IH"(1))
  qed
qed simp

text \<open>The data words with a single bit set.\<close>

definition unit_bits :: "nat \<Rightarrow> nat \<Rightarrow> bits" where
  "unit_bits k i = (replicate k False)[i := True]"

lemma unit_bits_Suc: "unit_bits (Suc k) (Suc i) = False # unit_bits k i"
  "unit_bits (Suc k) 0 = True # replicate k False"
  by (simp_all add: unit_bits_def)

lemma length_unit_bits [simp]: "length (unit_bits k i) = k"
  by (simp add: unit_bits_def)

lemma flip_bit_xor:
  assumes "z = replicate j False" "j + length (b # d) = k"
  shows "z @ True # d = xor_bits (unit_bits k j) ((z @ [False]) @ d)"
proof (rule nth_equalityI)
  fix i assume "i < length (z @ True # d)"
  then have i: "i < k" using assms by simp
  consider "i < j" | "i = j" | l where "i = Suc (j + l)"
    by (metis add_Suc_right less_imp_Suc_add linorder_less_linear)
  then show "(z @ True # d) ! i = xor_bits (unit_bits k j) ((z @ [False]) @ d) ! i"
    using i assms by cases (auto simp: nth_append unit_bits_def)
qed (use assms in simp)

section \<open>Systematic linear codes\<close>

locale linear_parity =
  fixes k r :: nat and par :: "bits \<Rightarrow> bits"
  assumes par_len: "length d = k \<Longrightarrow> length (par d) = r"
    and par_add: "length d = k \<Longrightarrow> length e = k \<Longrightarrow> par (xor_bits d e) = xor_bits (par d) (par e)"
begin

lemma codeword_dist:
  assumes "length d = k" "length e = k"
  shows "hdist (d @ par d) (e @ par e) = hweight (xor_bits d e @ par (xor_bits d e))"
  using assms by (simp add: hdist_def xor_bits_append par_add)

lemma par_zero: "par (replicate k False) = replicate r False"
  using par_add [of "replicate k False" "replicate k False"] par_len [of "replicate k False"]
  by (simp add: xor_bits_self)

text \<open>Additivity makes the parity of any word the sum of the parities of its bits.\<close>

lemma par_suffix:
  "length z = j \<Longrightarrow> j + length d = k \<Longrightarrow> set z \<subseteq> {False} \<Longrightarrow>
   par (z @ d) = lin_comb r (map (\<lambda>i. par (unit_bits k i)) [j..<k]) d"
proof (induction d arbitrary: j z)
  case Nil
  then have "z = replicate k False" by (intro replicate_eqI) auto
  with Nil show ?case using par_zero by simp
next
  case (Cons b d)
  then have j: "j < k" and z: "z = replicate j False" by (auto intro: replicate_eqI)
  have IH: "par ((z @ [False]) @ d) = lin_comb r (map (\<lambda>i. par (unit_bits k i)) [Suc j..<k]) d"
    using Cons.prems by (intro Cons.IH) auto
  have "par (z @ b # d) =
      (if b then xor_bits (par (unit_bits k j)) (par ((z @ [False]) @ d)) else par ((z @ [False]) @ d))"
  proof (cases b)
    case True
    have "z @ True # d = xor_bits (unit_bits k j) ((z @ [False]) @ d)"
      using Cons.prems(1,2) z by (intro flip_bit_xor) simp_all
    with True show ?thesis using Cons.prems(1,2) by (simp add: par_add)
  qed simp
  with IH j show ?case by (simp add: upt_conv_Cons)
qed

lemma par_lin_comb:
  "length d = k \<Longrightarrow> par d = lin_comb r (map (\<lambda>i. par (unit_bits k i)) [0..<k]) d"
  using par_suffix [of "[]" 0 d] by simp

lemma min_weight_by_columns:
  assumes "span_ok m (map (\<lambda>i. par (unit_bits k i)) [0..<k]) True (replicate r False)"
    and "length d = k" "d \<noteq> replicate k False"
  shows "m \<le> hweight (d @ par d)"
proof -
  have "m \<le> hweight d + hweight (xor_bits (replicate r False)
      (lin_comb r (map (\<lambda>i. par (unit_bits k i)) [0..<k]) d))"
    using assms by (intro span_ok_weight) (auto simp: par_len)
  then show ?thesis using assms(2) by (simp add: par_lin_comb [symmetric] par_len)
qed

end

locale linear_code = linear_parity +
  fixes m :: nat
  assumes min_weight: "length d = k \<Longrightarrow> d \<noteq> replicate k False \<Longrightarrow> m \<le> hweight (d @ par d)"
begin

lemma min_distance:
  assumes "length d = k" "length e = k" "d \<noteq> e"
  shows "m \<le> hdist (d @ par d) (e @ par e)"
proof -
  from assms have "xor_bits d e \<noteq> replicate k False"
    using xor_bits_eq_zeros_iff [of d e] by simp
  with assms show ?thesis
    using min_weight [of "xor_bits d e"] by (simp add: codeword_dist)
qed

text \<open>Two codewords cannot both lie within \<open>t\<close> bit errors of one received word.\<close>

text \<open>A word within \<open>t\<close> errors of a code word is more than \<open>u\<close> errors away from every other.\<close>

lemma correct_and_detect:
  assumes "length d = k" "length e = k" "d \<noteq> e" "length w = k + r" "t + u < m" "hdist w (d @ par d) \<le> t"
  shows "u < hdist w (e @ par e)"
proof -
  have "m \<le> hdist (d @ par d) (e @ par e)" using assms(1-3) by (rule min_distance)
  also have "\<dots> \<le> hdist (d @ par d) w + hdist w (e @ par e)"
    using assms(1,2,4) by (intro hdist_triangle) (simp_all add: par_len)
  finally show ?thesis using assms(5,6) by (simp add: hdist_sym [of _ w])
qed

lemma unique_decoding:
  assumes "length d = k" "length e = k" "length w = k + r" "2 * t < m"
    and "hdist w (d @ par d) \<le> t" "hdist w (e @ par e) \<le> t"
  shows "d = e"
  using correct_and_detect [of d e w t t] assms by fastforce

end

end
