(* ===== verification/Dmr_Bits.thy ===== *)
theory Dmr_Bits
  imports Prelude
begin

text \<open>
  \<open>dmr/dmr_bits.c\<close> and \<open>dmr/dmr_const.c\<close>: the conversion between packed bytes and bit arrays
  (most significant bit first), with both round trips, and the constant bit tables of the DMR
  burst layout.
\<close>

section \<open>Bit and byte conversion\<close>

text \<open>The inner loop: the eight bits of one byte, from bit 7 down to bit 0.\<close>

definition byte_bits :: "u8 \<Rightarrow> bits" where
  "byte_bits w = map (\<lambda>b. bit w (7 - b)) [0..<8]"

definition dmr_bytes_to_bits :: "bytes \<Rightarrow> bits" where
  "dmr_bytes_to_bits bs = concat (map byte_bits bs)"

text \<open>\<open>bytes_out[i / 8] |= (bits[i] & 1) << (7 - i % 8)\<close>.\<close>

definition or_bit :: "bits \<Rightarrow> bytes \<Rightarrow> nat \<Rightarrow> bytes" where
  "or_bit bits out i =
     out[i div 8 := (out ! (i div 8)) OR (push_bit (7 - i mod 8) (if bits ! i then 1 else 0))]"

definition dmr_bits_to_bytes :: "bits \<Rightarrow> bytes" where
  "dmr_bits_to_bytes bits =
     foldl (or_bit bits) (replicate ((length bits + 7) div 8) 0) [0..<length bits]"

subsection \<open>Lengths\<close>

lemma length_byte_bits [simp]: "length (byte_bits w) = 8"
  by (simp add: byte_bits_def)

lemma length_dmr_bytes_to_bits [simp, array_len]: "length (dmr_bytes_to_bits bs) = 8 * length bs"
  by (induction bs) (auto simp: dmr_bytes_to_bits_def)

lemma length_or_bit [simp]: "length (or_bit bits out i) = length out"
  by (simp add: or_bit_def)

lemma length_dmr_bits_to_bytes [simp, array_len]:
  "length (dmr_bits_to_bytes bits) = (length bits + 7) div 8"
  by (simp add: dmr_bits_to_bytes_def foldl_writes_length)

subsection \<open>Reading single bits\<close>

lemma nth_byte_bits: "k < 8 \<Longrightarrow> byte_bits w ! k = bit w (7 - k)"
  by (simp add: byte_bits_def)

lemma nth_dmr_bytes_to_bits:
  "i < 8 * length bs \<Longrightarrow> dmr_bytes_to_bits bs ! i = bit (bs ! (i div 8)) (7 - i mod 8)"
proof (induction bs arbitrary: i)
  case (Cons b bs)
  show ?case
  proof (cases "i < 8")
    case True
    then show ?thesis by (simp add: dmr_bytes_to_bits_def nth_append nth_byte_bits)
  next
    case False
    with Cons.prems have "dmr_bytes_to_bits bs ! (i - 8) = bit (bs ! ((i - 8) div 8)) (7 - (i - 8) mod 8)"
      by (intro Cons.IH) simp
    moreover have "i div 8 = Suc ((i - 8) div 8)" and "i mod 8 = (i - 8) mod 8"
      using False by (auto simp: div_if mod_if)
    ultimately show ?thesis
      using False by (simp add: dmr_bytes_to_bits_def nth_append)
  qed
qed simp

text \<open>After the first \<open>m\<close> rounds exactly the bits below \<open>m\<close> have been written.\<close>

lemma bit_or_bit:
  assumes "i div 8 < length out" "j < length out" "k < 8"
  shows "bit (or_bit bits out i ! j) (7 - k) \<longleftrightarrow>
    bit (out ! j) (7 - k) \<or> (i = 8 * j + k \<and> bits ! i)"
proof -
  have *: "7 - k - (7 - i mod 8) = 0 \<and> \<not> 7 - k < 7 - i mod 8 \<longleftrightarrow> i mod 8 = k"
    using assms(3) by auto
  have "i div 8 = j \<and> i mod 8 = k \<longleftrightarrow> i = 8 * j + k"
    using assms(3) by auto
  then show ?thesis
    using assms * by (auto simp: or_bit_def bit_simps nth_list_update)
qed

lemma bit_write_rounds:
  assumes "m \<le> length bits" "j < (length bits + 7) div 8" "k < 8"
  shows "bit (foldl (or_bit bits) (replicate ((length bits + 7) div 8) 0) [0..<m] ! j) (7 - k) \<longleftrightarrow>
    8 * j + k < m \<and> bits ! (8 * j + k)"
  using assms(1)
proof (induction m)
  case 0
  then show ?case using assms(2) by simp
next
  case (Suc m)
  have "m div 8 < (length bits + 7) div 8" using Suc.prems by simp
  then show ?case
    using Suc assms(2,3)
    by (auto simp: bit_or_bit foldl_writes_length less_Suc_eq)
qed

lemma bit_dmr_bits_to_bytes:
  assumes "j < (length bits + 7) div 8" "k < 8"
  shows "bit (dmr_bits_to_bytes bits ! j) (7 - k) \<longleftrightarrow> 8 * j + k < length bits \<and> bits ! (8 * j + k)"
  unfolding dmr_bits_to_bytes_def by (rule bit_write_rounds) (use assms in auto)

subsection \<open>Round trips\<close>

lemma bytes_of_bits_of_bytes [simp]: "dmr_bits_to_bytes (dmr_bytes_to_bits bs) = bs"
proof (rule nth_equalityI)
  fix j assume "j < length (dmr_bits_to_bytes (dmr_bytes_to_bits bs))"
  then have j: "j < length bs" by simp
  show "dmr_bits_to_bytes (dmr_bytes_to_bits bs) ! j = bs ! j"
  proof (rule u8_eqI)
    fix k :: nat assume k: "k < 8"
    then have k': "7 - (7 - k) = k" and kl: "7 - k < 8" by auto
    have "bit (dmr_bits_to_bytes (dmr_bytes_to_bits bs) ! j) (7 - (7 - k)) \<longleftrightarrow>
        dmr_bytes_to_bits bs ! (8 * j + (7 - k))"
      using j k by (subst bit_dmr_bits_to_bytes) auto
    moreover have "(8 * j + (7 - k)) div 8 = j" and "(8 * j + (7 - k)) mod 8 = 7 - k"
      using kl by auto
    then have "dmr_bytes_to_bits bs ! (8 * j + (7 - k)) \<longleftrightarrow> bit (bs ! j) k"
      using j k' kl by (subst nth_dmr_bytes_to_bits) (auto simp del: diff_diff_left)
    ultimately show "bit (dmr_bits_to_bytes (dmr_bytes_to_bits bs) ! j) k = bit (bs ! j) k"
      by (simp only: k')
  qed
qed simp

lemma bits_of_bytes_of_bits:
  "dmr_bytes_to_bits (dmr_bits_to_bytes bits) =
     bits @ replicate (8 * ((length bits + 7) div 8) - length bits) False"
proof (rule nth_equalityI)
  fix i assume "i < length (dmr_bytes_to_bits (dmr_bits_to_bytes bits))"
  then have i: "i < 8 * ((length bits + 7) div 8)" by simp
  then have j: "i div 8 < (length bits + 7) div 8" by (simp add: less_mult_imp_div_less mult.commute)
  have "8 * (i div 8) + i mod 8 = i" by simp
  then show "dmr_bytes_to_bits (dmr_bits_to_bytes bits) ! i =
      (bits @ replicate (8 * ((length bits + 7) div 8) - length bits) False) ! i"
    using i j bit_dmr_bits_to_bytes [OF j, of "i mod 8"]
    by (simp add: nth_dmr_bytes_to_bits nth_append)
qed simp

lemma bits_of_bytes_of_bits_exact [simp]:
  assumes "8 dvd length bits"
  shows "dmr_bytes_to_bits (dmr_bits_to_bytes bits) = bits"
proof -
  from assms obtain n where "length bits = 8 * n" by (elim dvdE)
  then show ?thesis by (simp add: bits_of_bytes_of_bits)
qed

section \<open>Constant bit tables\<close>

text \<open>The tables are written with the 0 and 1 of \<open>dmr_const.c\<close>.\<close>

definition bits01 :: "nat list \<Rightarrow> bits" where
  "bits01 ns = map (\<lambda>n. n \<noteq> 0) ns"

lemma length_bits01 [simp]: "length (bits01 ns) = length ns"
  by (simp add: bits01_def)

definition DMR_BS_VOICE_SYNC :: bits where
  "DMR_BS_VOICE_SYNC = bits01
    [0,1,1,1,0,1,0,1, 0,1,0,1,1,1,1,1, 1,1,0,1,0,1,1,1,
     1,1,0,1,1,1,1,1, 0,1,1,1,0,1,0,1, 1,1,1,1,0,1,1,1]"

definition DMR_BS_DATA_SYNC :: bits where
  "DMR_BS_DATA_SYNC = bits01
    [1,1,0,1,1,1,1,1, 1,1,1,1,0,1,0,1, 0,1,1,1,1,1,0,1,
     0,1,1,1,0,1,0,1, 1,1,0,1,1,1,1,1, 0,1,0,1,1,1,0,1]"

definition DMR_EMB :: "bits list" where
  "DMR_EMB = map bits01
    [[0,0,0,1,0,0,1,1,1,0,0,1,0,0,0,1],
     [0,0,0,1,0,1,1,1,0,1,1,1,0,1,0,0],
     [0,0,0,1,0,1,1,1,0,1,1,1,0,1,0,0],
     [0,0,0,1,0,1,0,1,0,0,0,0,0,1,1,1],
     [0,0,0,1,0,0,0,1,1,1,1,0,0,0,1,0]]"

definition DMR_SLOT_TYPE_VHEAD :: bits where
  "DMR_SLOT_TYPE_VHEAD = bits01 [0,0,0,1,0,0,0,1,1,0,1,1,1,0,0,0,1,1,0,0]"

definition DMR_SLOT_TYPE_VTERM :: bits where
  "DMR_SLOT_TYPE_VTERM = bits01 [0,0,0,1,0,0,1,0,1,0,1,0,0,1,0,1,1,0,0,1]"

definition DMR_LC_OPT :: bytes where
  "DMR_LC_OPT = [0x00, 0x00, 0x00]"

lemma length_const_tables [simp, array_len]:
  "length DMR_BS_VOICE_SYNC = 48" "length DMR_BS_DATA_SYNC = 48" "length DMR_EMB = 5"
  "length DMR_SLOT_TYPE_VHEAD = 20" "length DMR_SLOT_TYPE_VTERM = 20" "length DMR_LC_OPT = 3"
  by (simp_all add: DMR_BS_VOICE_SYNC_def DMR_BS_DATA_SYNC_def DMR_EMB_def
      DMR_SLOT_TYPE_VHEAD_def DMR_SLOT_TYPE_VTERM_def DMR_LC_OPT_def)

lemma length_DMR_EMB_nth [simp, array_len]: "i < 5 \<Longrightarrow> length (DMR_EMB ! i) = 16"
  by (simp add: DMR_EMB_def less_Suc_eq numeral_eq_Suc) auto

text \<open>
  The comments of \<open>dmr_const.c\<close> and \<open>dmr.h\<close> give the two sync words in hexadecimal; the tables
  are those bytes, most significant bit first.
\<close>

lemma sync_words_hex:
  "dmr_bits_to_bytes DMR_BS_VOICE_SYNC = [0x75, 0x5F, 0xD7, 0xDF, 0x75, 0xF7]"
  "dmr_bits_to_bytes DMR_BS_DATA_SYNC = [0xDF, 0xF5, 0x7D, 0x75, 0xDF, 0x5D]"
  by code_simp+

section \<open>Property\<close>

text \<open>
  Packing undoes unpacking, and unpacking a packed bit array of any length returns it
  followed by the zero bits that fill its last byte.
\<close>

theorem bits_bytes_roundtrip:
  "dmr_bits_to_bytes (dmr_bytes_to_bits bs) = bs \<and>
   dmr_bytes_to_bits (dmr_bits_to_bytes bits) =
     bits @ replicate (8 * ((length bits + 7) div 8) - length bits) False"
  by (simp add: bits_of_bytes_of_bits)

end
