(* ===== verification/Dmr_Hamming.thy ===== *)
theory Dmr_Hamming
  imports Linear_Code
begin

text \<open>
  \<open>dmr/hamming.c\<close>: the three Hamming encoders of the DMR product codes.  Each is the parity
  function of a systematic linear code; the minimum weights are checked over every data word.
\<close>

definition dmr_ham_15113 :: "bits \<Rightarrow> bits" where
  "dmr_ham_15113 d =
    [xor_at d [0,1,2,3,5,7,8],
     xor_at d [1,2,3,4,6,8,9],
     xor_at d [2,3,4,5,7,9,10],
     xor_at d [0,1,2,4,6,7,10]]"

definition dmr_ham_1393 :: "bits \<Rightarrow> bits" where
  "dmr_ham_1393 d =
    [xor_at d [0,1,3,5,6],
     xor_at d [0,1,2,4,6,7],
     xor_at d [0,1,2,3,5,7,8],
     xor_at d [0,2,4,5,8]]"

definition dmr_ham_16114 :: "bits \<Rightarrow> bits" where
  "dmr_ham_16114 d =
    [xor_at d [0,1,2,3,5,7,8],
     xor_at d [1,2,3,4,6,8,9],
     xor_at d [2,3,4,5,7,9,10],
     xor_at d [0,1,2,4,6,7,10],
     xor_at d [0,2,5,6,8,9,10]]"

lemma length_ham [simp, array_len]:
  "length (dmr_ham_15113 d) = 4" "length (dmr_ham_1393 d) = 4" "length (dmr_ham_16114 d) = 5"
  by (simp_all add: dmr_ham_15113_def dmr_ham_1393_def dmr_ham_16114_def)

interpretation ham15_lin: linear_parity 11 4 dmr_ham_15113
proof unfold_locales
  show "length (dmr_ham_15113 d) = 4" for d by simp
  show "dmr_ham_15113 (xor_bits d e) = xor_bits (dmr_ham_15113 d) (dmr_ham_15113 e)"
    if "length d = 11" "length e = 11" for d e
    using that by (simp add: dmr_ham_15113_def xor_at_add)
qed

lemma ham_15113_columns:
  "span_ok 3 (map (\<lambda>i. dmr_ham_15113 (unit_bits 11 i)) [0..<11]) True (replicate 4 False)"
  by code_simp

interpretation ham15: linear_code 11 4 dmr_ham_15113 3
  by unfold_locales (rule ham15_lin.min_weight_by_columns [OF ham_15113_columns])

interpretation ham13_lin: linear_parity 9 4 dmr_ham_1393
proof unfold_locales
  show "length (dmr_ham_1393 d) = 4" for d by simp
  show "dmr_ham_1393 (xor_bits d e) = xor_bits (dmr_ham_1393 d) (dmr_ham_1393 e)"
    if "length d = 9" "length e = 9" for d e
    using that by (simp add: dmr_ham_1393_def xor_at_add)
qed

lemma ham_1393_columns:
  "span_ok 3 (map (\<lambda>i. dmr_ham_1393 (unit_bits 9 i)) [0..<9]) True (replicate 4 False)"
  by code_simp

interpretation ham13: linear_code 9 4 dmr_ham_1393 3
  by unfold_locales (rule ham13_lin.min_weight_by_columns [OF ham_1393_columns])

interpretation ham16_lin: linear_parity 11 5 dmr_ham_16114
proof unfold_locales
  show "length (dmr_ham_16114 d) = 5" for d by simp
  show "dmr_ham_16114 (xor_bits d e) = xor_bits (dmr_ham_16114 d) (dmr_ham_16114 e)"
    if "length d = 11" "length e = 11" for d e
    using that by (simp add: dmr_ham_16114_def xor_at_add)
qed

lemma ham_16114_columns:
  "span_ok 4 (map (\<lambda>i. dmr_ham_16114 (unit_bits 11 i)) [0..<11]) True (replicate 5 False)"
  by code_simp

interpretation ham16: linear_code 11 5 dmr_ham_16114 4
  by unfold_locales (rule ham16_lin.min_weight_by_columns [OF ham_16114_columns])

section \<open>Property\<close>

text \<open>
  The row codes of the full and the embedded link control and the column code of the full
  one have distances 3, 4 and 3: words that encode different data differ in that many bits.
\<close>

theorem hamming_distances:
  assumes "length d = 11" "length e = 11" "d \<noteq> e" "length f = 9" "length g = 9" "f \<noteq> g"
  shows "3 \<le> hdist (d @ dmr_ham_15113 d) (e @ dmr_ham_15113 e) \<and>
    4 \<le> hdist (d @ dmr_ham_16114 d) (e @ dmr_ham_16114 e) \<and>
    3 \<le> hdist (f @ dmr_ham_1393 f) (g @ dmr_ham_1393 g)"
  using assms by (simp_all add: ham15.min_distance ham16.min_distance ham13.min_distance)

lemma hamming_distances_witness:
  "3 \<le> hdist (replicate 11 True @ dmr_ham_15113 (replicate 11 True))
     (replicate 11 False @ dmr_ham_15113 (replicate 11 False))"
  using hamming_distances [of "replicate 11 True" "replicate 11 False" "replicate 9 True" "replicate 9 False"]
  by (simp add: list_eq_iff_nth_eq exI [of _ 0])

end
