(* ===== verification/Dmr_Golay.thy ===== *)
theory Dmr_Golay
  imports Linear_Code
begin

text \<open>
  \<open>dmr/golay.c\<close>: the Golay(23,12) code word and the overall parity bit that the AMBE conversion
  uses.  The word computation is kept at 32 bits; the code it computes is then identified as a
  systematic linear code of minimum distance 7.
\<close>

unbundle bit_operations_syntax

definition GOLAY_POLY :: u32 where
  "GOLAY_POLY = 0xAE3"

text \<open>One round of the loop: \<open>if (cw & 1) cw ^= POLY; cw >>= 1\<close>.\<close>

definition golay_round :: "u32 \<Rightarrow> u32" where
  "golay_round cw = drop_bit 1 (if cw AND 1 \<noteq> 0 then cw XOR GOLAY_POLY else cw)"

definition dmr_golay2312 :: "u32 \<Rightarrow> u32" where
  "dmr_golay2312 cw0 =
     (let c = cw0 AND 0xFFF;
          cw = (golay_round ^^ 12) c
      in push_bit 12 cw OR c)"

definition dmr_parity :: "u32 \<Rightarrow> bool" where
  "dmr_parity cw =
     (let p0 = cw AND 0xFF;
          p1 = p0 XOR (drop_bit 8 cw AND 0xFF);
          p2 = p1 XOR (drop_bit 16 cw AND 0xFF);
          p3 = p2 XOR drop_bit 4 p2;
          p4 = p3 XOR drop_bit 2 p3;
          p5 = p4 XOR drop_bit 1 p4
      in p5 AND 1 \<noteq> 0)"

text \<open>A round is additive, so the remainder it computes is.\<close>

lemma golay_round_add: "golay_round (a XOR b) = golay_round a XOR golay_round b"
  by (rule bit_word_eqI) (auto simp: golay_round_def and_1_iff_bit0 bit_simps)

lemma golay_rounds_add: "(golay_round ^^ n) (a XOR b) = (golay_round ^^ n) a XOR (golay_round ^^ n) b"
  by (induction n) (simp_all add: golay_round_add)

lemma and_mask_xor: "(a XOR b) AND (m :: 'a::len word) = (a AND m) XOR (b AND m)"
  by (rule bit_word_eqI) (auto simp: bit_simps)

lemma mask12: "(0xFFF :: u32) = mask 12"
  by (simp add: mask_eq_exp_minus_1)

lemma golay_join_add:
  "push_bit 12 (x XOR y) OR ((a XOR b) AND mask 12) =
   (push_bit 12 x OR (a AND mask 12)) XOR (push_bit 12 y OR (b AND (mask 12 :: u32)))"
  by (rule bit_word_eqI) (auto simp: bit_simps)

lemma golay_add: "dmr_golay2312 (a XOR b) = dmr_golay2312 a XOR dmr_golay2312 b"
proof -
  have "(golay_round ^^ 12) ((a XOR b) AND mask 12) =
      (golay_round ^^ 12) (a AND mask 12) XOR (golay_round ^^ 12) (b AND mask 12)"
    by (simp only: and_mask_xor golay_rounds_add)
  then show ?thesis
    by (simp only: dmr_golay2312_def Let_def mask12 golay_join_add)
qed

text \<open>The data bits pass through unchanged.\<close>

lemma bit_golay_data: "n < 12 \<Longrightarrow> bit (dmr_golay2312 w) n = bit w n"
  by (simp add: dmr_golay2312_def Let_def mask12 bit_simps)

lemma dmr_parity_add: "dmr_parity (a XOR b) = (dmr_parity a \<noteq> dmr_parity b)"
  by (simp only: dmr_parity_def Let_def and_1_iff_bit0 and_mask_xor drop_bit_xor
      bit_xor_iff [symmetric] xor.assoc xor.commute xor.left_commute)

section \<open>The code\<close>

text \<open>Bit \<open>i\<close> of the word is entry \<open>i\<close> of the array.\<close>

definition bits_word :: "bits \<Rightarrow> u32" where
  "bits_word d = horner_sum of_bool 2 d"

definition golay_parity :: "bits \<Rightarrow> bits" where
  "golay_parity d =
     (let cw = dmr_golay2312 (bits_word d)
      in map (bit cw) [12..<23] @ [dmr_parity cw])"

lemma bit_bits_word: "bit (bits_word d) n \<longleftrightarrow> n < 32 \<and> n < length d \<and> d ! n"
  by (auto simp: bits_word_def bit_horner_sum_bit_iff bit_simps)

lemma bits_word_xor: "length d = length e \<Longrightarrow> bits_word (xor_bits d e) = bits_word d XOR bits_word e"
  by (rule bit_word_eqI) (auto simp: bit_bits_word bit_xor_iff)

interpretation golay_lin: linear_parity 12 12 golay_parity
proof unfold_locales
  show "length (golay_parity d) = 12" for d by (simp add: golay_parity_def Let_def)
  show "golay_parity (xor_bits d e) = xor_bits (golay_parity d) (golay_parity e)"
    if "length d = 12" "length e = 12" for d e
    using that
    by (simp add: golay_parity_def Let_def bits_word_xor golay_add dmr_parity_add xor_bits_append
        bit_xor_iff upt_conv_Cons)
qed

lemma funpow_12: "(f ^^ 12) x = f (f (f (f (f (f (f (f (f (f (f (f x)))))))))))"
  by (simp add: numeral_eq_Suc)

text \<open>A round on a literal: evaluated from the inside out, without duplicating the argument.\<close>

lemmas golay_round_numeral =
  golay_round_def [of "numeral n" for n, unfolded GOLAY_POLY_def]
  golay_round_def [of 1, unfolded GOLAY_POLY_def] golay_round_def [of 0, unfolded GOLAY_POLY_def]

lemma bits_word_units: "map (\<lambda>i. bits_word (unit_bits 12 i)) [0..<12] = map (\<lambda>i. 2 ^ i) [0..<12]"
  by (simp add: upt_literal bits_word_def unit_bits_def numeral_eq_Suc)

lemma golay_units:
  "map (\<lambda>i. dmr_golay2312 (2 ^ i)) [0..<12] =
    [0x2e3001, 0x5c6002, 0x16f004, 0x2de008, 0x5bc010, 0x19b020, 0x336040, 0x66c080, 0x63b100, 0x695200, 0x7c9400, 0x571800]"
  by (simp add: upt_literal dmr_golay2312_def funpow_12 golay_round_numeral)

lemma golay_columns:
  "map (\<lambda>i. golay_parity (unit_bits 12 i)) [0..<12] = map (map (\<lambda>n. n = 1))
    [[1,1,0,0,0,1,1,1,0,1,0,1],
     [0,1,1,0,0,0,1,1,1,0,1,1],
     [1,1,1,1,0,1,1,0,1,0,0,0],
     [0,1,1,1,1,0,1,1,0,1,0,0],
     [0,0,1,1,1,1,0,1,1,0,1,0],
     [1,1,0,1,1,0,0,1,1,0,0,1],
     [0,1,1,0,1,1,0,0,1,1,0,1],
     [0,0,1,1,0,1,1,0,0,1,1,1],
     [1,1,0,1,1,1,0,0,0,1,1,0],
     [1,0,1,0,1,0,0,1,0,1,1,1],
     [1,0,0,1,0,0,1,1,1,1,1,0],
     [1,0,0,0,1,1,1,0,1,0,1,1]::nat list]"
proof -
  have "map (\<lambda>i. golay_parity (unit_bits 12 i)) [0..<12] =
      map (\<lambda>cw. map (bit cw) [12..<23] @ [dmr_parity cw])
        (map dmr_golay2312 (map (\<lambda>i. bits_word (unit_bits 12 i)) [0..<12]))"
    by (simp add: golay_parity_def Let_def comp_def)
  also have "\<dots> = map (\<lambda>cw. map (bit cw) [12..<23] @ [dmr_parity cw])
      (map (\<lambda>i. dmr_golay2312 (2 ^ i)) [0..<12])"
    by (simp only: bits_word_units map_map comp_def)
  finally show ?thesis
    unfolding golay_units by (simp add: dmr_parity_def)
qed

lemma golay_weights:
  "span_ok 8 (map (\<lambda>i. golay_parity (unit_bits 12 i)) [0..<12]) True (replicate 12 False)"
  unfolding golay_columns by code_simp

interpretation golay: linear_code 12 12 golay_parity 8
  by unfold_locales (rule golay_lin.min_weight_by_columns [OF golay_weights])

section \<open>Property\<close>

text \<open>
  C37: the 24-bit words that \<open>dmr_golay2312\<close> and \<open>dmr_parity\<close> build, twelve data bits followed
  by eleven check bits and the overall parity, have distance 8: the words of two different data
  differ in eight places at least.  So a received word with up to three bit errors is still more
  than four errors away from every other word: three errors are corrected and four are detected.
\<close>

theorem golay_distance_eight:
  assumes "length d = 12" "length e = 12" "d \<noteq> e"
  shows "8 \<le> hdist (d @ golay_parity d) (e @ golay_parity e) \<and>
    (\<forall>w. length w = 24 \<and> hdist w (d @ golay_parity d) \<le> 3 \<longrightarrow> 4 < hdist w (e @ golay_parity e))"
  using golay.min_distance [OF assms] golay.correct_and_detect [OF assms, where t = 3 and u = 4] by simp

lemma golay_distance_eight_witness:
  "8 \<le> hdist (replicate 12 False @ golay_parity (replicate 12 False)) (unit_bits 12 0 @ golay_parity (unit_bits 12 0)) \<and>
   4 < hdist (replicate 22 False @ [True, True]) (unit_bits 12 0 @ golay_parity (unit_bits 12 0))"
proof -
  let ?z = "replicate 12 False"
  have "golay_parity ?z = ?z" by code_simp
  then have w: "hdist (replicate 22 False @ [True, True]) (?z @ golay_parity ?z) \<le> 3" by (simp only:) code_simp
  have u: "length (unit_bits 12 0) = 12" "?z \<noteq> unit_bits 12 0" by code_simp+
  have "length (replicate 22 False @ [True, True]) = 24" by simp
  then show ?thesis using golay_distance_eight [OF _ u] w by simp
qed

end
