(* ===== verification/Dmr_Rs129.thy ===== *)
theory Dmr_Rs129
  imports Prelude
begin

text \<open>
  \<open>dmr/rs129.c\<close>: the Reed-Solomon (12,9) encoder over GF(256), by logarithm and antilogarithm
  tables.  The tables are shown to compute multiplication in GF(2)[x] modulo
  x^8 + x^4 + x^3 + x^2 + 1, and the encoder to produce words that vanish at the three roots
  2, 4 and 8 of its generator polynomial.
\<close>

unbundle bit_operations_syntax

section \<open>The program\<close>

definition POLY :: bytes where
  "POLY = [64, 56, 14]"

definition START_MASK :: bytes where
  "START_MASK = [0x96, 0x96, 0x96]"

definition END_MASK :: bytes where
  "END_MASK = [0x99, 0x99, 0x99]"

definition EXP_TABLE :: bytes where
  "EXP_TABLE =
    [0x01,0x02,0x04,0x08,0x10,0x20,0x40,0x80,0x1D,0x3A,0x74,0xE8,0xCD,0x87,0x13,0x26,
     0x4C,0x98,0x2D,0x5A,0xB4,0x75,0xEA,0xC9,0x8F,0x03,0x06,0x0C,0x18,0x30,0x60,0xC0,
     0x9D,0x27,0x4E,0x9C,0x25,0x4A,0x94,0x35,0x6A,0xD4,0xB5,0x77,0xEE,0xC1,0x9F,0x23,
     0x46,0x8C,0x05,0x0A,0x14,0x28,0x50,0xA0,0x5D,0xBA,0x69,0xD2,0xB9,0x6F,0xDE,0xA1,
     0x5F,0xBE,0x61,0xC2,0x99,0x2F,0x5E,0xBC,0x65,0xCA,0x89,0x0F,0x1E,0x3C,0x78,0xF0,
     0xFD,0xE7,0xD3,0xBB,0x6B,0xD6,0xB1,0x7F,0xFE,0xE1,0xDF,0xA3,0x5B,0xB6,0x71,0xE2,
     0xD9,0xAF,0x43,0x86,0x11,0x22,0x44,0x88,0x0D,0x1A,0x34,0x68,0xD0,0xBD,0x67,0xCE,
     0x81,0x1F,0x3E,0x7C,0xF8,0xED,0xC7,0x93,0x3B,0x76,0xEC,0xC5,0x97,0x33,0x66,0xCC,
     0x85,0x17,0x2E,0x5C,0xB8,0x6D,0xDA,0xA9,0x4F,0x9E,0x21,0x42,0x84,0x15,0x2A,0x54,
     0xA8,0x4D,0x9A,0x29,0x52,0xA4,0x55,0xAA,0x49,0x92,0x39,0x72,0xE4,0xD5,0xB7,0x73,
     0xE6,0xD1,0xBF,0x63,0xC6,0x91,0x3F,0x7E,0xFC,0xE5,0xD7,0xB3,0x7B,0xF6,0xF1,0xFF,
     0xE3,0xDB,0xAB,0x4B,0x96,0x31,0x62,0xC4,0x95,0x37,0x6E,0xDC,0xA5,0x57,0xAE,0x41,
     0x82,0x19,0x32,0x64,0xC8,0x8D,0x07,0x0E,0x1C,0x38,0x70,0xE0,0xDD,0xA7,0x53,0xA6,
     0x51,0xA2,0x59,0xB2,0x79,0xF2,0xF9,0xEF,0xC3,0x9B,0x2B,0x56,0xAC,0x45,0x8A,0x09,
     0x12,0x24,0x48,0x90,0x3D,0x7A,0xF4,0xF5,0xF7,0xF3,0xFB,0xEB,0xCB,0x8B,0x0B,0x16,
     0x2C,0x58,0xB0,0x7D,0xFA,0xE9,0xCF,0x83,0x1B,0x36,0x6C,0xD8,0xAD,0x47,0x8E,0x01,
     0x02,0x04,0x08,0x10,0x20,0x40,0x80,0x1D,0x3A,0x74,0xE8,0xCD,0x87,0x13,0x26,0x4C,
     0x98,0x2D,0x5A,0xB4,0x75,0xEA,0xC9,0x8F,0x03,0x06,0x0C,0x18,0x30,0x60,0xC0,0x9D,
     0x27,0x4E,0x9C,0x25,0x4A,0x94,0x35,0x6A,0xD4,0xB5,0x77,0xEE,0xC1,0x9F,0x23,0x46,
     0x8C,0x05,0x0A,0x14,0x28,0x50,0xA0,0x5D,0xBA,0x69,0xD2,0xB9,0x6F,0xDE,0xA1,0x5F,
     0xBE,0x61,0xC2,0x99,0x2F,0x5E,0xBC,0x65,0xCA,0x89,0x0F,0x1E,0x3C,0x78,0xF0,0xFD,
     0xE7,0xD3,0xBB,0x6B,0xD6,0xB1,0x7F,0xFE,0xE1,0xDF,0xA3,0x5B,0xB6,0x71,0xE2,0xD9,
     0xAF,0x43,0x86,0x11,0x22,0x44,0x88,0x0D,0x1A,0x34,0x68,0xD0,0xBD,0x67,0xCE,0x81,
     0x1F,0x3E,0x7C,0xF8,0xED,0xC7,0x93,0x3B,0x76,0xEC,0xC5,0x97,0x33,0x66,0xCC,0x85,
     0x17,0x2E,0x5C,0xB8,0x6D,0xDA,0xA9,0x4F,0x9E,0x21,0x42,0x84,0x15,0x2A,0x54,0xA8,
     0x4D,0x9A,0x29,0x52,0xA4,0x55,0xAA,0x49,0x92,0x39,0x72,0xE4,0xD5,0xB7,0x73,0xE6,
     0xD1,0xBF,0x63,0xC6,0x91,0x3F,0x7E,0xFC,0xE5,0xD7,0xB3,0x7B,0xF6,0xF1,0xFF,0xE3,
     0xDB,0xAB,0x4B,0x96,0x31,0x62,0xC4,0x95,0x37,0x6E,0xDC,0xA5,0x57,0xAE,0x41,0x82,
     0x19,0x32,0x64,0xC8,0x8D,0x07,0x0E,0x1C,0x38,0x70,0xE0,0xDD,0xA7,0x53,0xA6,0x51,
     0xA2,0x59,0xB2,0x79,0xF2,0xF9,0xEF,0xC3,0x9B,0x2B,0x56,0xAC,0x45,0x8A,0x09,0x12,
     0x24,0x48,0x90,0x3D,0x7A,0xF4,0xF5,0xF7,0xF3,0xFB,0xEB,0xCB,0x8B,0x0B,0x16,0x2C,
     0x58,0xB0,0x7D,0xFA,0xE9,0xCF,0x83,0x1B,0x36,0x6C,0xD8,0xAD,0x47,0x8E,0x01,0x00]"

definition LOG_TABLE :: bytes where
  "LOG_TABLE =
    [0x00,0x00,0x01,0x19,0x02,0x32,0x1A,0xC6,0x03,0xDF,0x33,0xEE,0x1B,0x68,0xC7,0x4B,
     0x04,0x64,0xE0,0x0E,0x34,0x8D,0xEF,0x81,0x1C,0xC1,0x69,0xF8,0xC8,0x08,0x4C,0x71,
     0x05,0x8A,0x65,0x2F,0xE1,0x24,0x0F,0x21,0x35,0x93,0x8E,0xDA,0xF0,0x12,0x82,0x45,
     0x1D,0xB5,0xC2,0x7D,0x6A,0x27,0xF9,0xB9,0xC9,0x9A,0x09,0x78,0x4D,0xE4,0x72,0xA6,
     0x06,0xBF,0x8B,0x62,0x66,0xDD,0x30,0xFD,0xE2,0x98,0x25,0xB3,0x10,0x91,0x22,0x88,
     0x36,0xD0,0x94,0xCE,0x8F,0x96,0xDB,0xBD,0xF1,0xD2,0x13,0x5C,0x83,0x38,0x46,0x40,
     0x1E,0x42,0xB6,0xA3,0xC3,0x48,0x7E,0x6E,0x6B,0x3A,0x28,0x54,0xFA,0x85,0xBA,0x3D,
     0xCA,0x5E,0x9B,0x9F,0x0A,0x15,0x79,0x2B,0x4E,0xD4,0xE5,0xAC,0x73,0xF3,0xA7,0x57,
     0x07,0x70,0xC0,0xF7,0x8C,0x80,0x63,0x0D,0x67,0x4A,0xDE,0xED,0x31,0xC5,0xFE,0x18,
     0xE3,0xA5,0x99,0x77,0x26,0xB8,0xB4,0x7C,0x11,0x44,0x92,0xD9,0x23,0x20,0x89,0x2E,
     0x37,0x3F,0xD1,0x5B,0x95,0xBC,0xCF,0xCD,0x90,0x87,0x97,0xB2,0xDC,0xFC,0xBE,0x61,
     0xF2,0x56,0xD3,0xAB,0x14,0x2A,0x5D,0x9E,0x84,0x3C,0x39,0x53,0x47,0x6D,0x41,0xA2,
     0x1F,0x2D,0x43,0xD8,0xB7,0x7B,0xA4,0x76,0xC4,0x17,0x49,0xEC,0x7F,0x0C,0x6F,0xF6,
     0x6C,0xA1,0x3B,0x52,0x29,0x9D,0x55,0xAA,0xFB,0x60,0x86,0xB1,0xBB,0xCC,0x3E,0x5A,
     0xCB,0x59,0x5F,0xB0,0x9C,0xA9,0xA0,0x51,0x0B,0xF5,0x16,0xEB,0x7A,0x75,0x2C,0xD7,
     0x4F,0xAE,0xD5,0xE9,0xE6,0xE7,0xAD,0xE8,0x74,0xD6,0xF4,0xEA,0xA8,0x50,0x58,0xAF]"

definition log_mult :: "u8 \<Rightarrow> u8 \<Rightarrow> u8" where
  "log_mult a b =
     (if a = 0 \<or> b = 0 then 0
      else EXP_TABLE ! (unat (LOG_TABLE ! unat a) + unat (LOG_TABLE ! unat b)))"

text \<open>
  The body of the outer loop.  The inner loop runs \<open>j\<close> from 2 down to 1, so each \<open>parity[j]\<close> takes
  the old \<open>parity[j - 1]\<close>.
\<close>

definition rs_round :: "bytes \<Rightarrow> u8 \<Rightarrow> bytes" where
  "rs_round parity m =
     (let dbyte = m XOR parity ! 2
      in [log_mult (POLY ! 0) dbyte,
          parity ! 0 XOR log_mult (POLY ! 1) dbyte,
          parity ! 1 XOR log_mult (POLY ! 2) dbyte])"

definition dmr_rs129_encode :: "bytes \<Rightarrow> bytes" where
  "dmr_rs129_encode msg =
     (let parity = foldl rs_round [0, 0, 0] msg
      in [parity ! 2, parity ! 1, parity ! 0])"

definition dmr_rs129_lc_encode :: "bytes \<Rightarrow> bool \<Rightarrow> bytes" where
  "dmr_rs129_lc_encode lc is_term =
     map2 (XOR) (dmr_rs129_encode lc) (if is_term then END_MASK else START_MASK)"

lemma length_rs_round [simp]: "length (rs_round p m) = 3"
  by (simp add: rs_round_def Let_def)

lemma length_dmr_rs129_encode [simp, array_len]: "length (dmr_rs129_encode msg) = 3"
  by (simp add: dmr_rs129_encode_def Let_def)

lemma length_dmr_rs129_lc_encode [simp, array_len]: "length (dmr_rs129_lc_encode lc t) = 3"
  by (simp add: dmr_rs129_lc_encode_def START_MASK_def END_MASK_def)

section \<open>Multiplication in GF(256)\<close>

text \<open>Multiplication by x, and the product as the sum of the shifts that \<open>b\<close> selects.\<close>

definition xtime :: "u8 \<Rightarrow> u8" where
  "xtime b = (if bit b 7 then push_bit 1 b XOR 0x1D else push_bit 1 b)"

definition gf_mul :: "u8 \<Rightarrow> u8 \<Rightarrow> u8" where
  "gf_mul a b = foldr (\<lambda>i acc. (if bit b i then (xtime ^^ i) a else 0) XOR acc) [0..<8] 0"

lemma xtime_add: "xtime (a XOR b) = xtime a XOR xtime b"
  by (rule bit_word_eqI) (auto simp: xtime_def bit_simps)

lemma xtime_0 [simp]: "xtime 0 = 0"
  by (simp add: xtime_def)

lemma xtime_pow_add: "(xtime ^^ n) (a XOR b) = (xtime ^^ n) a XOR (xtime ^^ n) b"
  by (induction n) (simp_all add: xtime_add)

lemma xtime_pow_0 [simp]: "(xtime ^^ n) 0 = 0"
  by (induction n) simp_all

lemma xtime_pow_commute: "(xtime ^^ m) ((xtime ^^ n) a) = (xtime ^^ n) ((xtime ^^ m) a)"
  by (metis add.commute comp_apply funpow_add)

lemmas xtime_numeral =
  xtime_def [of "numeral n" for n] xtime_def [of 1] xtime_def [of 0]

text \<open>The antilogarithm table lists the powers of x.\<close>

lemma EXP_chain: "map xtime (take 510 EXP_TABLE) = take 510 (tl EXP_TABLE)"
  unfolding EXP_TABLE_def by (simp add: xtime_numeral)

lemma EXP_Suc: "n < 510 \<Longrightarrow> EXP_TABLE ! Suc n = xtime (EXP_TABLE ! n)"
proof -
  have len: "length EXP_TABLE = 512" by (simp add: EXP_TABLE_def)
  assume n: "n < 510"
  then have "map xtime (take 510 EXP_TABLE) ! n = xtime (EXP_TABLE ! n)"
    using len by simp
  moreover have "take 510 (tl EXP_TABLE) ! n = EXP_TABLE ! Suc n"
    using n len by (simp add: nth_tl)
  ultimately show ?thesis by (simp add: EXP_chain)
qed

lemma EXP_power: "n \<le> 510 \<Longrightarrow> EXP_TABLE ! n = (xtime ^^ n) 1"
proof (induction n)
  case 0
  show ?case by (simp add: EXP_TABLE_def)
next
  case (Suc n)
  then show ?case by (simp add: EXP_Suc)
qed

text \<open>The logarithm table inverts it on the nonzero elements.\<close>

lemma LOG_inverse:
  "map (\<lambda>l. EXP_TABLE ! unat l) (tl LOG_TABLE) = map word_of_nat [1..<256]"
  unfolding LOG_TABLE_def list.sel
  by (simp add: EXP_TABLE_def upt_literal)

lemma LOG_range: "list_all (\<lambda>l. l < 255) LOG_TABLE"
  unfolding LOG_TABLE_def by simp

lemma LOG_below: "unat (LOG_TABLE ! unat (b :: u8)) < 255"
proof -
  have "LOG_TABLE ! unat b < 255"
    using LOG_range unat_u8_less [of b] by (auto simp: list_all_length LOG_TABLE_def)
  then show ?thesis by (simp add: word_less_nat_alt)
qed

lemma EXP_LOG:
  assumes "(b :: u8) \<noteq> 0"
  shows "EXP_TABLE ! unat (LOG_TABLE ! unat b) = b"
proof -
  have len: "length LOG_TABLE = 256" by (simp add: LOG_TABLE_def)
  have n: "unat b - 1 < 255" and b: "Suc (unat b - 1) = unat b"
    using unat_u8_less [of b] assms by (auto simp: unat_gt_0)
  from n have "map (\<lambda>l. EXP_TABLE ! unat l) (tl LOG_TABLE) ! (unat b - 1) =
      map word_of_nat [1..<256] ! (unat b - 1)"
    by (simp only: LOG_inverse)
  then show ?thesis using n b len by (simp add: nth_tl)
qed

lemma xtime_small_powers: "map (\<lambda>i. (xtime ^^ i) 1) [0..<8] = map (\<lambda>i. 2 ^ i) [0..<8]"
  by (simp add: upt_literal numeral_eq_Suc funpow_simps_right) (simp add: xtime_numeral)

lemma gf_mul_unfold:
  "gf_mul a b =
    (if bit b 0 then a else 0) XOR (if bit b 1 then (xtime ^^ 1) a else 0) XOR
    (if bit b 2 then (xtime ^^ 2) a else 0) XOR (if bit b 3 then (xtime ^^ 3) a else 0) XOR
    (if bit b 4 then (xtime ^^ 4) a else 0) XOR (if bit b 5 then (xtime ^^ 5) a else 0) XOR
    (if bit b 6 then (xtime ^^ 6) a else 0) XOR (if bit b 7 then (xtime ^^ 7) a else 0)"
  by (simp add: gf_mul_def upt_literal)

lemma gf_mul_0 [simp]: "gf_mul 0 b = 0" "gf_mul a 0 = 0"
  by (simp_all add: gf_mul_unfold)

lemma gf_mul_1: "gf_mul 1 b = b"
proof (rule u8_eqI)
  fix k :: nat assume "k < 8"
  have p: "(xtime ^^ 1) 1 = 2" "(xtime ^^ 2) 1 = 4" "(xtime ^^ 3) 1 = 8" "(xtime ^^ 4) 1 = 16"
    "(xtime ^^ 5) 1 = 32" "(xtime ^^ 6) 1 = 64" "(xtime ^^ 7) 1 = 128"
    using xtime_small_powers by (simp_all add: upt_literal)
  from \<open>k < 8\<close> consider "k = 0" | "k = 1" | "k = 2" | "k = 3" | "k = 4" | "k = 5" | "k = 6" | "k = 7"
    by linarith
  then show "bit (gf_mul 1 b) k = bit b k"
    unfolding gf_mul_unfold p by cases (simp_all add: bit_xor_iff)
qed

lemma xtime_if: "xtime (if c then a else 0) = (if c then xtime a else 0)"
  by simp

lemma gf_mul_xtime: "gf_mul (xtime a) b = xtime (gf_mul a b)"
  unfolding gf_mul_unfold by (simp only: xtime_add xtime_if funpow_swap1)

lemma gf_mul_xtime_pow: "gf_mul ((xtime ^^ n) a) b = (xtime ^^ n) (gf_mul a b)"
  by (induction n) (simp_all add: gf_mul_xtime)

text \<open>The table-driven product is the product of the field.\<close>

lemma log_mult_eq: "log_mult a b = gf_mul a b"
proof (cases "a = 0 \<or> b = 0")
  case False
  let ?i = "unat (LOG_TABLE ! unat a)" and ?j = "unat (LOG_TABLE ! unat b)"
  have i: "?i < 255" and j: "?j < 255" by (rule LOG_below)+
  have a: "a = (xtime ^^ ?i) 1" and b: "b = (xtime ^^ ?j) 1"
    using False i j by (simp_all add: EXP_LOG flip: EXP_power)
  have "gf_mul a b = (xtime ^^ ?i) b"
    by (subst a) (simp add: gf_mul_xtime_pow gf_mul_1)
  also have "\<dots> = (xtime ^^ (?i + ?j)) 1"
    by (subst b) (simp add: funpow_add)
  finally show ?thesis
    using False i j by (simp add: log_mult_def EXP_power)
qed (auto simp: log_mult_def)

lemma log_mult_sym: "log_mult a b = log_mult b a"
  by (simp add: log_mult_def add.commute)

section \<open>The encoder\<close>

text \<open>
  A received or computed word as a polynomial, highest coefficient first, evaluated at \<open>x ^ k\<close> by
  Horner's rule.
\<close>

definition poly_at :: "nat \<Rightarrow> bytes \<Rightarrow> u8" where
  "poly_at k cs = foldl (\<lambda>acc c. (xtime ^^ k) acc XOR c) 0 cs"

lemma poly_at_snoc: "poly_at k (cs @ [c]) = (xtime ^^ k) (poly_at k cs) XOR c"
  by (simp add: poly_at_def)

text \<open>The three generator coefficients, as sums of powers of x.\<close>

lemma log_mult_POLY:
  "log_mult (POLY ! 0) d = (xtime ^^ 6) d"
  "log_mult (POLY ! 1) d = (xtime ^^ 3) d XOR (xtime ^^ 4) d XOR (xtime ^^ 5) d"
  "log_mult (POLY ! 2) d = (xtime ^^ 1) d XOR (xtime ^^ 2) d XOR (xtime ^^ 3) d"
  by (subst log_mult_sym, simp add: POLY_def log_mult_eq gf_mul_unfold)+

lemma xor_cancel: "a XOR (a XOR b) = (b :: u8)"
  by (simp flip: xor.assoc)

text \<open>
  One round multiplies the running remainder by the unknown and adds the new coefficient times the
  cube of the unknown, at each of the three roots.
\<close>

lemma rs_round_powers:
  "rs_round [p0, p1, p2] m =
    [(xtime ^^ 6) (m XOR p2),
     p0 XOR ((xtime ^^ 3) (m XOR p2) XOR (xtime ^^ 4) (m XOR p2) XOR (xtime ^^ 5) (m XOR p2)),
     p1 XOR ((xtime ^^ 1) (m XOR p2) XOR (xtime ^^ 2) (m XOR p2) XOR (xtime ^^ 3) (m XOR p2))]"
  by (simp only: rs_round_def Let_def log_mult_POLY) simp

lemma rs_round_at_root:
  assumes "length p = 3" "k \<in> {1, 2, 3}"
  shows "poly_at k (rev (rs_round p m)) = (xtime ^^ k) (poly_at k (rev p)) XOR (xtime ^^ (3 * k)) m"
proof -
  obtain p0 p1 p2 where p: "p = [p0, p1, p2]"
    using assms(1) by (auto simp: numeral_eq_Suc length_Suc_conv)
  from assms(2) consider "k = 1" | "k = 2" | "k = 3" by blast
  then show ?thesis
    unfolding p rs_round_powers poly_at_def
    by cases (simp_all add: numeral_eq_Suc xtime_add xor.assoc xor.left_commute xor.commute xor_cancel)
qed

lemma rs_rounds_at_root:
  assumes "k \<in> {1, 2, 3}"
  shows "poly_at k (rev (foldl rs_round [0, 0, 0] msg)) = (xtime ^^ (3 * k)) (poly_at k msg)"
proof (induction msg rule: rev_induct)
  case Nil
  show ?case by (simp add: poly_at_def)
next
  case (snoc m msg)
  have "length (foldl rs_round [0, 0, 0] msg) = 3"
    by (cases msg rule: rev_cases) simp_all
  then have "poly_at k (rev (rs_round (foldl rs_round [0, 0, 0] msg) m)) =
      (xtime ^^ k) ((xtime ^^ (3 * k)) (poly_at k msg)) XOR (xtime ^^ (3 * k)) m"
    using assms by (simp only: rs_round_at_root snoc.IH)
  then show ?case
    by (simp only: foldl_append foldl.simps poly_at_snoc xtime_pow_add xtime_pow_commute)
qed

text \<open>Every encoded word vanishes at the three roots of the generator polynomial.\<close>

lemma rs129_codeword_roots:
  assumes "k \<in> {1, 2, 3}"
  shows "poly_at k (msg @ dmr_rs129_encode msg) = 0"
proof -
  let ?p = "foldl rs_round [0, 0, 0] msg"
  have "length ?p = 3" by (cases msg rule: rev_cases) simp_all
  then obtain p0 p1 p2 where p: "?p = [p0, p1, p2]"
    by (auto simp: numeral_eq_Suc length_Suc_conv)
  have "poly_at k (msg @ [p2, p1, p0]) = (xtime ^^ (3 * k)) (poly_at k msg) XOR poly_at k [p2, p1, p0]"
    by (simp add: poly_at_def xtime_pow_add xor.assoc numeral_eq_Suc funpow_add)
  also have "\<dots> = 0"
    using rs_rounds_at_root [OF assms, of msg] by (simp add: p)
  finally show ?thesis by (simp add: dmr_rs129_encode_def Let_def p)
qed

section \<open>Property\<close>

text \<open>
  C36: the table product is multiplication in GF(256) modulo x^8 + x^4 + x^3 + x^2 + 1, and the
  nine bytes of a link control followed by the unmasked output of \<open>dmr_rs129_lc_encode\<close> are a
  Reed-Solomon code word: the polynomial vanishes at the three roots x, x^2 and x^3.
\<close>

theorem rs129_lc_codeword:
  "log_mult a b = gf_mul a b \<and>
   (let cw = lc @ map2 (XOR) (dmr_rs129_lc_encode lc t) (if t then END_MASK else START_MASK)
    in poly_at 1 cw = 0 \<and> poly_at 2 cw = 0 \<and> poly_at 3 cw = 0)"
proof -
  obtain p q r where e: "dmr_rs129_encode lc = [p, q, r]"
    by (auto simp: dmr_rs129_encode_def Let_def)
  have "map2 (XOR) (dmr_rs129_lc_encode lc t) (if t then END_MASK else START_MASK) = dmr_rs129_encode lc"
    by (simp add: dmr_rs129_lc_encode_def e START_MASK_def END_MASK_def xor.assoc)
  then show ?thesis by (simp add: log_mult_eq rs129_codeword_roots)
qed

end
