(* ===== verification/Dmr_Bptc.thy ===== *)
theory Dmr_Bptc
  imports Dmr_Bits Dmr_Hamming Dmr_Rs129
begin

text \<open>
  \<open>dmr/bptc.c\<close> and \<open>dmr/crc.c\<close>: the BPTC(196,96) product code of the full link control, its
  interleaver and decoder, and the embedded link control.  The growable bit buffer of the C code
  (\<open>buf\<close> with \<open>len\<close> valid entries) is the list of its valid entries.
\<close>

unbundle bit_operations_syntax

section \<open>The program\<close>

definition INDEX_181 :: "nat list" where
  "INDEX_181 =
    [0,181,166,151,136,121,106,91,76,61,46,31,16,1,182,167,
     152,137,122,107,92,77,62,47,32,17,2,183,168,153,138,123,
     108,93,78,63,48,33,18,3,184,169,154,139,124,109,94,79,
     64,49,34,19,4,185,170,155,140,125,110,95,80,65,50,35,
     20,5,186,171,156,141,126,111,96,81,66,51,36,21,6,187,
     172,157,142,127,112,97,82,67,52,37,22,7,188,173,158,143,
     128,113,98,83,68,53,38,23,8,189,174,159,144,129,114,99,
     84,69,54,39,24,9,190,175,160,145,130,115,100,85,70,55,
     40,25,10,191,176,161,146,131,116,101,86,71,56,41,26,11,
     192,177,162,147,132,117,102,87,72,57,42,27,12,193,178,163,
     148,133,118,103,88,73,58,43,28,13,194,179,164,149,134,119,
     104,89,74,59,44,29,14,195,180,165,150,135,120,105,90,75,
     60,45,30,15]"

definition DECODE_LC_IDX :: "nat list" where
  "DECODE_LC_IDX =
    [136,121,106,91,76,61,46,31,152,137,122,107,92,77,62,47,
     32,17,2,123,108,93,78,63,48,33,18,3,184,169,94,79,
     64,49,34,19,4,185,170,155,140,65,50,35,20,5,186,171,
     156,141,126,111,36,21,6,187,172,157,142,127,112,97,82,7,
     188,173,158,143,128,113,98,83]"

definition bit_insert :: "bits \<Rightarrow> nat \<Rightarrow> dmr_bit \<Rightarrow> bits" where
  "bit_insert buf pos v = take pos buf @ v # drop pos buf"

text \<open>Inserting the entries of \<open>cs\<close> one after the other from \<open>pos\<close> on.\<close>

definition insert_from :: "nat \<Rightarrow> bits \<Rightarrow> bits \<Rightarrow> bits" where
  "insert_from pos cs buf = foldl (\<lambda>b p. bit_insert b (pos + p) (cs ! p)) buf [0..<length cs]"

definition ham15_row :: "bits \<Rightarrow> nat \<Rightarrow> bits" where
  "ham15_row buf index =
     (let spos = index * 15 + 1;
          epos = spos + 11;
          row = map (\<lambda>k. buf ! (spos + k)) [0..<11];
          csum = dmr_ham_15113 row
      in insert_from epos csum buf)"

definition ham13_col :: "bits \<Rightarrow> nat \<Rightarrow> bits" where
  "ham13_col buf col =
     (let column = map (\<lambda>index. buf ! (col + 1 + 15 * index)) [0..<9];
          csum = dmr_ham_1393 column
      in foldl (\<lambda>b p. b[136 + col + 15 * p := csum ! p]) buf [0..<4])"

definition dmr_bptc_encode_19696 :: "bytes \<Rightarrow> bits" where
  "dmr_bptc_encode_19696 data12 =
     (let buf = dmr_bytes_to_bits data12;
          buf = foldl (\<lambda>b i. bit_insert b 0 False) buf [0..<4];
          buf = foldl ham15_row buf [0..<9];
          buf = buf @ replicate (196 - length buf) False
      in foldl ham13_col buf [0..<15])"

definition interleave_19696 :: "bits \<Rightarrow> bits" where
  "interleave_19696 in196 =
     foldl (\<lambda>out index. out[INDEX_181 ! index := in196 ! index]) (replicate 196 False) [0..<196]"

definition dmr_bptc_encode_lc :: "bytes \<Rightarrow> bool \<Rightarrow> bits" where
  "dmr_bptc_encode_lc lc is_term =
     (let data12 = lc @ dmr_rs129_lc_encode lc is_term
      in interleave_19696 (dmr_bptc_encode_19696 data12))"

definition dmr_bptc_decode_full_lc :: "bits \<Rightarrow> bytes" where
  "dmr_bptc_decode_full_lc in196 =
     dmr_bits_to_bytes (map (\<lambda>i. in196 ! (DECODE_LC_IDX ! i)) [0..<72])"

definition EMBLC_IDX :: "nat list list" where
  "EMBLC_IDX =
    [[0,16,32,48,64,80,96,112,1,17,33,49,65,81,97,113,
      2,18,34,50,66,82,98,114,3,19,35,51,67,83,99,115],
     [4,20,36,52,68,84,100,116,5,21,37,53,69,85,101,117,
      6,22,38,54,70,86,102,118,7,23,39,55,71,87,103,119],
     [8,24,40,56,72,88,104,120,9,24,41,57,73,89,105,121,
      10,26,42,58,74,90,106,122,11,27,43,59,75,91,107,123],
     [12,28,44,60,76,92,108,124,13,29,45,61,77,93,109,125,
      14,30,46,62,78,94,110,126,15,31,47,63,79,95,111,127]]"

text \<open>\<open>dmr/crc.c\<close>: the sum of the nine bytes, in an \<open>unsigned\<close> accumulator, modulo 31.\<close>

definition dmr_csum5 :: "bytes \<Rightarrow> u8" where
  "dmr_csum5 lc =
     (let accum = foldl (\<lambda>a b. a + ucast b) (0 :: u32) lc
      in ucast (accum mod 31) AND 0x1F)"

definition ham16_row :: "bits \<Rightarrow> nat \<Rightarrow> bits" where
  "ham16_row buf index =
     (let d = map (\<lambda>k. buf ! (index + k)) [0..<11];
          h = dmr_ham_16114 d
      in insert_from (index + 11) h buf)"

definition emblc_parity :: "bits \<Rightarrow> nat \<Rightarrow> bits" where
  "emblc_parity buf index =
     bit_insert buf (index + 112)
       (xor_at buf [index, index + 16, index + 32, index + 48, index + 64, index + 80, index + 96])"

text \<open>The 8 by 16 matrix that \<open>dmr_encode_emblc\<close> builds in \<open>buf\<close>.\<close>

definition emblc_matrix :: "bytes \<Rightarrow> bits" where
  "emblc_matrix lc =
     (let buf = dmr_bytes_to_bits lc;
          cs = dmr_csum5 lc;
          csum = map (\<lambda>k. bit cs (4 - k)) [0..<5];
          buf = bit_insert buf 32 (csum ! 0);
          buf = bit_insert buf 43 (csum ! 1);
          buf = bit_insert buf 54 (csum ! 2);
          buf = bit_insert buf 65 (csum ! 3);
          buf = bit_insert buf 76 (csum ! 4);
          buf = foldl ham16_row buf (map (\<lambda>r. 16 * r) [0..<7])
      in foldl emblc_parity buf [0..<16])"

definition dmr_encode_emblc :: "bytes \<Rightarrow> bytes list" where
  "dmr_encode_emblc lc =
     (let buf = emblc_matrix lc
      in map (\<lambda>seg. dmr_bits_to_bytes (map (\<lambda>i. buf ! (EMBLC_IDX ! seg ! i)) [0..<32])) [0..<4])"

section \<open>Insertion\<close>

lemma length_bit_insert [simp]: "length (bit_insert buf pos v) = Suc (length buf)"
  by (simp add: bit_insert_def)

lemma insert_from_eq:
  assumes "pos \<le> length buf"
  shows "insert_from pos cs buf = take pos buf @ cs @ drop pos buf"
proof -
  have "foldl (\<lambda>b p. bit_insert b (pos + p) (cs ! p)) buf [0..<n] =
      take pos buf @ take n cs @ drop pos buf" if "n \<le> length cs" for n
    using that
  proof (induction n)
    case (Suc n)
    then show ?case
      using assms by (simp add: bit_insert_def take_Suc_conv_app_nth)
  qed simp
  from this [of "length cs"] show ?thesis by (simp add: insert_from_def)
qed

text \<open>
  Coding the rows of a buffer one after the other: \<open>pre\<close> comes before the first row, each row
  has \<open>k\<close> data bits and gains the parity bits \<open>par row\<close>.
\<close>

definition coded_rows :: "nat \<Rightarrow> (bits \<Rightarrow> bits) \<Rightarrow> bits \<Rightarrow> nat \<Rightarrow> bits" where
  "coded_rows k par D n =
     concat (map (\<lambda>i. let r = take k (drop (k * i) D) in r @ par r) [0..<n])"

lemma length_coded_rows:
  assumes "\<And>r. length r = k \<Longrightarrow> length (par r) = m" "k * n \<le> length D"
  shows "length (coded_rows k par D n) = (k + m) * n"
  using assms(2)
proof (induction n)
  case (Suc n)
  then show ?case using assms(1) by (simp add: coded_rows_def Let_def algebra_simps)
qed (simp add: coded_rows_def)

lemma code_row_step:
  assumes "\<And>r. length r = k \<Longrightarrow> length (par r) = m" "k * Suc n \<le> length D"
    and "buf = pre @ coded_rows k par D n @ drop (k * n) D" "s = length pre + (k + m) * n"
  shows "insert_from (s + k) (par (map (\<lambda>j. buf ! (s + j)) [0..<k])) buf =
    pre @ coded_rows k par D (Suc n) @ drop (k * Suc n) D"
proof -
  have len: "length (pre @ coded_rows k par D n) = s"
    using assms by (simp add: length_coded_rows)
  have row: "map (\<lambda>j. buf ! (s + j)) [0..<k] = take k (drop (k * n) D)"
    using assms len by (intro nth_equalityI) (simp_all add: nth_append)
  have "take (s + k) buf = pre @ coded_rows k par D n @ take k (drop (k * n) D)"
    and "drop (s + k) buf = drop (k * Suc n) D"
    using assms len by (simp_all add: add.commute)
  then show ?thesis
    unfolding row using assms len
    by (subst insert_from_eq) (simp_all add: coded_rows_def Let_def)
qed

section \<open>The matrix of the full link control\<close>

text \<open>The 99 data bits of the matrix: the three reserved bits in front of the twelve bytes.\<close>

definition bptc_data :: "bytes \<Rightarrow> bits" where
  "bptc_data data12 = replicate 3 False @ dmr_bytes_to_bits data12"

lemma length_bptc_data: "length data12 = 12 \<Longrightarrow> length (bptc_data data12) = 99"
  by (simp add: bptc_data_def)

lemma reserved_bits:
  "foldl (\<lambda>b i. bit_insert b 0 False) (dmr_bytes_to_bits data12) [0..<4] = False # bptc_data data12"
proof -
  have "replicate 3 False = [False, False, False]" by (simp add: numeral_3_eq_3)
  then show ?thesis by (simp add: upt_literal bit_insert_def bptc_data_def)
qed

lemma ham15_rows:
  assumes "length data12 = 12" "n \<le> 9"
  shows "foldl ham15_row (False # bptc_data data12) [0..<n] =
    [False] @ coded_rows 11 dmr_ham_15113 (bptc_data data12) n @ drop (11 * n) (bptc_data data12)"
  using assms(2)
proof (induction n)
  case 0
  show ?case by (simp add: coded_rows_def)
next
  case (Suc n)
  let ?D = "bptc_data data12"
  let ?b = "foldl ham15_row (False # ?D) [0..<n]"
  have b: "?b = [False] @ coded_rows 11 dmr_ham_15113 ?D n @ drop (11 * n) ?D"
    using Suc by simp
  have "insert_from (n * 15 + 1 + 11) (dmr_ham_15113 (map (\<lambda>j. ?b ! (n * 15 + 1 + j)) [0..<11])) ?b =
      [False] @ coded_rows 11 dmr_ham_15113 ?D (Suc n) @ drop (11 * Suc n) ?D"
    using Suc.prems assms(1) length_bptc_data [OF assms(1)]
    by (intro code_row_step [OF _ _ b, where m = 4]) simp_all
  then show ?case by (simp add: ham15_row_def [of ?b] Let_def)
qed

text \<open>The buffer after the rows are coded and before the column parities are written.\<close>

definition bptc_rows :: "bytes \<Rightarrow> bits" where
  "bptc_rows data12 = False # coded_rows 11 dmr_ham_15113 (bptc_data data12) 9"

lemma length_bptc_rows: "length data12 = 12 \<Longrightarrow> length (bptc_rows data12) = 136"
  by (simp add: bptc_rows_def length_coded_rows [where m = 4] length_bptc_data)

lemma encode_19696_rows:
  assumes "length data12 = 12"
  shows "dmr_bptc_encode_19696 data12 =
    foldl ham13_col (bptc_rows data12 @ replicate 60 False) [0..<15]"
proof -
  have "foldl ham15_row (False # bptc_data data12) [0..<9] = bptc_rows data12"
    using ham15_rows [OF assms, of 9] by (simp add: bptc_rows_def length_bptc_data assms)
  then show ?thesis
    using assms by (simp add: dmr_bptc_encode_19696_def Let_def reserved_bits length_bptc_rows)
qed

subsection \<open>The column parities\<close>

text \<open>The parity of column \<open>col\<close> of a buffer.\<close>

definition col_parity :: "bits \<Rightarrow> nat \<Rightarrow> bits" where
  "col_parity buf col = dmr_ham_1393 (map (\<lambda>index. buf ! (col + 1 + 15 * index)) [0..<9])"

lemma length_col_parity [simp]: "length (col_parity buf col) = 4"
  by (simp add: col_parity_def)

lemma ham13_col_eq:
  "ham13_col buf col =
     buf[136 + col := col_parity buf col ! 0, 136 + col + 15 := col_parity buf col ! 1,
         136 + col + 30 := col_parity buf col ! 2, 136 + col + 45 := col_parity buf col ! 3]"
  by (simp add: ham13_col_def col_parity_def Let_def upt_literal)

lemma length_ham13_cols: "length (foldl ham13_col buf cs) = length buf"
  by (induction cs arbitrary: buf) (simp_all add: ham13_col_eq)

lemma nth_ham13_col_below: "i < 136 \<Longrightarrow> ham13_col buf col ! i = buf ! i"
  by (simp add: ham13_col_eq)

lemma nth_ham13_cols_below: "i < 136 \<Longrightarrow> foldl ham13_col buf cs ! i = buf ! i"
  by (induction cs arbitrary: buf) (simp_all add: nth_ham13_col_below)

lemma col_parity_cong:
  "(\<And>i. i < 136 \<Longrightarrow> b ! i = b' ! i) \<Longrightarrow> col < 15 \<Longrightarrow> col_parity b col = col_parity b' col"
  unfolding col_parity_def by (intro arg_cong [where f = dmr_ham_1393] map_cong) auto

lemma nth_ham13_col_parity:
  assumes "length buf = 196" "c < 15" "p < 4" "col < 15"
  shows "ham13_col buf col ! (136 + 15 * p + c) =
    (if c = col then col_parity buf col ! p else buf ! (136 + 15 * p + c))"
proof -
  from assms(3) consider "p = 0" | "p = 1" | "p = 2" | "p = 3" by linarith
  then show ?thesis using assms by cases (auto simp: ham13_col_eq nth_list_update)
qed

lemma ham13_cols:
  assumes "length buf = 196" "n \<le> 15" "c < n" "p < 4"
  shows "foldl ham13_col buf [0..<n] ! (136 + 15 * p + c) = col_parity buf c ! p"
  using assms(2,3)
proof (induction n)
  case (Suc n)
  let ?b = "foldl ham13_col buf [0..<n]"
  have "col_parity ?b n = col_parity buf n"
    using Suc.prems by (intro col_parity_cong) (simp_all add: nth_ham13_cols_below)
  then show ?case
    using Suc assms(1,4) nth_ham13_col_parity [of ?b c p n]
    by (auto simp: length_ham13_cols less_Suc_eq)
qed simp

subsection \<open>The product code\<close>

lemma length_dmr_bptc_encode_19696 [array_len]:
  "length data12 = 12 \<Longrightarrow> length (dmr_bptc_encode_19696 data12) = 196"
  by (simp add: encode_19696_rows length_ham13_cols length_bptc_rows)

lemma encode_19696_below:
  "length data12 = 12 \<Longrightarrow> i < 136 \<Longrightarrow> dmr_bptc_encode_19696 data12 ! i = bptc_rows data12 ! i"
  by (simp add: encode_19696_rows nth_ham13_cols_below nth_append length_bptc_rows)

text \<open>Block \<open>i\<close> of equally long blocks.\<close>

lemma take_drop_concat_blocks:
  assumes "\<And>i. i < n \<Longrightarrow> length (f i) = w" "i < n"
  shows "take w (drop (w * i) (concat (map f [0..<n]))) = f i"
proof -
  have split: "[0..<n] = [0..<i] @ i # [Suc i..<n]"
    using assms(2) by (metis less_imp_le_nat upt_add_eq_append upt_conv_Cons zero_le le_add_diff_inverse)
  have "length (concat (map f [0..<i])) = w * i"
    using assms by (induction i) (auto simp: less_Suc_eq)
  then show ?thesis
    unfolding split using assms by simp
qed

text \<open>Row \<open>r\<close> of the matrix.\<close>

definition matrix_row :: "bits \<Rightarrow> nat \<Rightarrow> bits" where
  "matrix_row m r = take 15 (drop (1 + 15 * r) m)"

lemma encode_19696_row:
  assumes "length data12 = 12" "r < 9"
  shows "matrix_row (dmr_bptc_encode_19696 data12) r =
    (let d = take 11 (drop (11 * r) (bptc_data data12)) in d @ dmr_ham_15113 d)"
proof -
  let ?f = "\<lambda>i. let d = take 11 (drop (11 * i) (bptc_data data12)) in d @ dmr_ham_15113 d"
  have "matrix_row (dmr_bptc_encode_19696 data12) r = matrix_row (bptc_rows data12) r"
    using assms by (intro nth_equalityI)
      (auto simp: matrix_row_def encode_19696_below length_dmr_bptc_encode_19696 length_bptc_rows)
  also have "\<dots> = take 15 (drop (15 * r) (concat (map ?f [0..<9])))"
    by (simp add: matrix_row_def bptc_rows_def coded_rows_def)
  also have "\<dots> = ?f r"
    using assms by (intro take_drop_concat_blocks) (auto simp: Let_def length_bptc_data)
  finally show ?thesis .
qed

lemma encode_19696_col:
  assumes "length data12 = 12" "c < 15" "p < 4"
  shows "dmr_bptc_encode_19696 data12 ! (136 + 15 * p + c) =
    col_parity (dmr_bptc_encode_19696 data12) c ! p"
proof -
  have "col_parity (bptc_rows data12 @ replicate 60 False) c = col_parity (dmr_bptc_encode_19696 data12) c"
    using assms
    by (intro col_parity_cong) (simp_all add: encode_19696_below nth_append length_bptc_rows)
  then show ?thesis
    using assms ham13_cols [of "bptc_rows data12 @ replicate 60 False" 15 c p]
    by (simp add: encode_19696_rows length_bptc_rows)
qed

subsection \<open>Interleaving and decoding\<close>

text \<open>Writing through a table without repetitions: every written cell keeps its value.\<close>

lemma length_table_writes:
  "length (foldl (\<lambda>out i. out[t ! i := x i]) out is) = length out"
  by (induction "is" arbitrary: out) simp_all

lemma nth_table_writes:
  assumes "distinct t" "set t \<subseteq> {0..<length out}" "n \<le> length t" "k < n"
  shows "foldl (\<lambda>out i. out[t ! i := x i]) out [0..<n] ! (t ! k) = x k"
  using assms(3,4)
proof (induction n)
  case (Suc n)
  have "t ! k \<in> set t" using Suc.prems by (intro nth_mem) simp
  then have "t ! k < length out" using assms(2) by auto
  with Suc assms(1) show ?case
    by (auto simp: length_table_writes nth_list_update nth_eq_iff_index_eq less_Suc_eq)
qed simp

lemma INDEX_181_table: "INDEX_181 = map (\<lambda>i. i * 181 mod 196) [0..<196]"
  by (simp add: INDEX_181_def upt_literal)

lemma INDEX_181_invert:
  assumes "i < 196"
  shows "(i * 181 mod 196) * 13 mod 196 = (i :: nat)"
proof -
  have "(i * 181 mod 196) * 13 mod 196 = i * 181 * 13 mod 196"
    by (simp only: mod_mult_left_eq)
  also have "i * 181 * 13 = i + 196 * (12 * i)" by simp
  also have "(i + 196 * (12 * i)) mod 196 = i"
    using assms by (simp only: mod_mult_self2 mod_less)
  finally show ?thesis .
qed

lemma INDEX_181_perm: "distinct INDEX_181" "set INDEX_181 \<subseteq> {0..<196}" "length INDEX_181 = 196"
proof -
  show "distinct INDEX_181"
    unfolding INDEX_181_table distinct_map
    by (auto intro!: inj_on_inverseI [where g = "\<lambda>k. k * 13 mod 196"] simp: INDEX_181_invert)
qed (auto simp: INDEX_181_table)

lemma length_interleave_19696 [simp, array_len]: "length (interleave_19696 b) = 196"
  by (simp add: interleave_19696_def length_table_writes)

lemma nth_interleave_19696: "i < 196 \<Longrightarrow> interleave_19696 b ! (INDEX_181 ! i) = b ! i"
  unfolding interleave_19696_def using INDEX_181_perm by (intro nth_table_writes) simp_all

lemma length_dmr_bptc_encode_lc [simp, array_len]: "length (dmr_bptc_encode_lc lc t) = 196"
  by (simp add: dmr_bptc_encode_lc_def Let_def)

text \<open>Where data bit \<open>j\<close> sits in the matrix, and the decoder's table in terms of it.\<close>

definition lc_cell :: "nat \<Rightarrow> nat" where
  "lc_cell j = 1 + 15 * ((j + 3) div 11) + (j + 3) mod 11"

lemma DECODE_LC_IDX_table: "DECODE_LC_IDX = map (\<lambda>j. lc_cell j * 181 mod 196) [0..<72]"
  by (simp add: DECODE_LC_IDX_def lc_cell_def upt_literal)

lemma nth_bptc_data_cell:
  assumes "length data12 = 12" "j < 96"
  shows "dmr_bptc_encode_19696 data12 ! lc_cell j = dmr_bytes_to_bits data12 ! j"
proof -
  let ?r = "(j + 3) div 11" and ?o = "(j + 3) mod 11"
  have r: "?r < 9" and o: "?o < 11" using assms(2) by auto
  have len: "length (dmr_bptc_encode_19696 data12) = 196"
    using assms(1) by (rule length_dmr_bptc_encode_19696)
  have "dmr_bptc_encode_19696 data12 ! lc_cell j = matrix_row (dmr_bptc_encode_19696 data12) ?r ! ?o"
    using r o len by (simp add: matrix_row_def lc_cell_def)
  also have "\<dots> = bptc_data data12 ! (11 * ?r + ?o)"
    using r o assms(1) by (simp add: encode_19696_row Let_def nth_append length_bptc_data)
  also have "11 * ?r + ?o = j + 3" by simp
  finally show ?thesis by (simp add: bptc_data_def nth_append)
qed

lemma decode_full_lc_encode_lc:
  assumes "length lc = 9"
  shows "dmr_bptc_decode_full_lc (dmr_bptc_encode_lc lc is_term) = lc"
proof -
  let ?d = "lc @ dmr_rs129_lc_encode lc is_term"
  have len: "length ?d = 12" using assms by simp
  have "map (\<lambda>i. dmr_bptc_encode_lc lc is_term ! (DECODE_LC_IDX ! i)) [0..<72] = dmr_bytes_to_bits lc"
  proof (rule nth_equalityI)
    fix j assume "j < length (map (\<lambda>i. dmr_bptc_encode_lc lc is_term ! (DECODE_LC_IDX ! i)) [0..<72])"
    then have j: "j < 72" by simp
    have "lc_cell j < 196" using j by (simp add: lc_cell_def)
    then have idx: "DECODE_LC_IDX ! j = INDEX_181 ! lc_cell j" and cell: "lc_cell j < 196"
      using j by (simp_all add: DECODE_LC_IDX_table INDEX_181_table)
    have "dmr_bptc_encode_lc lc is_term ! (INDEX_181 ! lc_cell j) = dmr_bytes_to_bits ?d ! j"
      using j len cell by (simp add: dmr_bptc_encode_lc_def Let_def nth_interleave_19696 nth_bptc_data_cell)
    also have "\<dots> = dmr_bytes_to_bits lc ! j"
      using j assms by (simp add: nth_dmr_bytes_to_bits nth_append div_less_iff_less_mult)
    finally show "map (\<lambda>i. dmr_bptc_encode_lc lc is_term ! (DECODE_LC_IDX ! i)) [0..<72] ! j =
        dmr_bytes_to_bits lc ! j"
      using j idx by simp
  qed (use assms in simp)
  then show ?thesis by (simp add: dmr_bptc_decode_full_lc_def)
qed

section \<open>The embedded link control\<close>

lemma csum5_sum:
  "unat (foldl (\<lambda>a b. a + ucast b) acc lc :: u32) = (unat acc + sum_list (map unat (lc :: bytes))) mod 2 ^ 32"
proof (induction lc arbitrary: acc)
  case (Cons b lc)
  show ?case
    by (simp add: Cons.IH unat_word_ariths mod_add_left_eq add.assoc)
next
  case Nil
  show ?case using unat_u32_less [of acc] by simp
qed

text \<open>The accumulator cannot wrap on nine bytes.\<close>

lemma sum_bytes_bound: "sum_list (map unat (lc :: bytes)) \<le> 255 * length lc"
proof (induction lc)
  case (Cons b lc)
  then show ?case using unat_u8_less [of b] by simp
qed simp

lemma csum5_value:
  assumes "length lc = 9"
  shows "unat (dmr_csum5 lc) = sum_list (map unat lc) mod 31"
proof -
  let ?a = "foldl (\<lambda>a b. a + ucast b) (0 :: u32) lc"
  have a: "unat ?a = sum_list (map unat lc)"
    using csum5_sum [of 0 lc] sum_bytes_bound [of lc] assms by simp
  have m: "unat (?a mod 31) = sum_list (map unat lc) mod 31"
    by (simp add: unat_mod_distrib a)
  then have u: "unat (ucast (?a mod 31) :: u8) = sum_list (map unat lc) mod 31"
    by (subst unat_ucast_to_u8) (simp_all add: less_trans [OF mod_less_divisor])
  have "sum_list (map unat lc) mod 31 < 32"
    by (rule less_trans [OF mod_less_divisor]) simp_all
  then show ?thesis
    by (simp add: dmr_csum5_def Let_def unat_and_0x1F u)
qed

text \<open>The 77 bits of the first seven rows before their parities: the link control with the five
  checksum bits at the ends of rows 2 to 6.\<close>

definition emblc_csum :: "bytes \<Rightarrow> bits" where
  "emblc_csum lc = map (\<lambda>k. bit (dmr_csum5 lc) (4 - k)) [0..<5]"

definition emblc_data :: "bytes \<Rightarrow> bits" where
  "emblc_data lc =
     (let b = dmr_bytes_to_bits lc; c = emblc_csum lc
      in take 32 b @ c ! 0 # take 10 (drop 32 b) @ c ! 1 # take 10 (drop 42 b) @
         c ! 2 # take 10 (drop 52 b) @ c ! 3 # drop 62 b @ [c ! 4])"

lemma length_emblc_data: "length lc = 9 \<Longrightarrow> length (emblc_data lc) = 77"
  by (simp add: emblc_data_def Let_def)

lemma bit_insert_append: "length xs = n \<Longrightarrow> bit_insert (xs @ ys) n v = xs @ v # ys"
  by (simp add: bit_insert_def)

lemma emblc_inserts:
  assumes "length b = 72"
  shows "bit_insert (bit_insert (bit_insert (bit_insert (bit_insert b 32 c0) 43 c1) 54 c2) 65 c3) 76 c4 =
    take 32 b @ c0 # take 10 (drop 32 b) @ c1 # take 10 (drop 42 b) @ c2 # take 10 (drop 52 b) @
    c3 # drop 62 b @ [c4]"
proof -
  have "take 10 (drop 32 b) @ drop 42 b = drop 32 b" "take 10 (drop 42 b) @ drop 52 b = drop 42 b"
    "take 10 (drop 52 b) @ drop 62 b = drop 52 b"
    using append_take_drop_id [of 10 "drop 32 b"] append_take_drop_id [of 10 "drop 42 b"]
      append_take_drop_id [of 10 "drop 52 b"] by simp_all
  then have b: "b = take 32 b @ take 10 (drop 32 b) @ take 10 (drop 42 b) @ take 10 (drop 52 b) @ drop 62 b"
    by (simp only: append_take_drop_id)
  define A B C D E where pieces: "A = take 32 b" "B = take 10 (drop 32 b)" "C = take 10 (drop 42 b)"
    "D = take 10 (drop 52 b)" "E = drop 62 b"
  have len: "length A = 32" "length B = 10" "length C = 10" "length D = 10" "length E = 10"
    using assms by (simp_all add: pieces)
  have b': "b = A @ B @ C @ D @ E" unfolding pieces by (rule b)
  have "bit_insert b 32 c0 = A @ c0 # B @ C @ D @ E"
    using bit_insert_append [of A 32 "B @ C @ D @ E"] len by (simp add: b')
  moreover have "bit_insert (A @ c0 # B @ C @ D @ E) 43 c1 = A @ c0 # B @ c1 # C @ D @ E"
    using bit_insert_append [of "A @ c0 # B" 43 "C @ D @ E"] len by simp
  moreover have "bit_insert (A @ c0 # B @ c1 # C @ D @ E) 54 c2 = A @ c0 # B @ c1 # C @ c2 # D @ E"
    using bit_insert_append [of "A @ c0 # B @ c1 # C" 54 "D @ E"] len by simp
  moreover have "bit_insert (A @ c0 # B @ c1 # C @ c2 # D @ E) 65 c3 =
      A @ c0 # B @ c1 # C @ c2 # D @ c3 # E"
    using bit_insert_append [of "A @ c0 # B @ c1 # C @ c2 # D" 65 E] len by simp
  moreover have "bit_insert (A @ c0 # B @ c1 # C @ c2 # D @ c3 # E) 76 c4 =
      A @ c0 # B @ c1 # C @ c2 # D @ c3 # E @ [c4]"
    using bit_insert_append [of "A @ c0 # B @ c1 # C @ c2 # D @ c3 # E" 76 "[]"] len by simp
  ultimately show ?thesis by (simp only: pieces)
qed

lemma ham16_rows:
  assumes "length D = 77" "n \<le> 7"
  shows "foldl ham16_row D (map (\<lambda>r. 16 * r) [0..<n]) =
    coded_rows 11 dmr_ham_16114 D n @ drop (11 * n) D"
  using assms(2)
proof (induction n)
  case 0
  show ?case by (simp add: coded_rows_def)
next
  case (Suc n)
  let ?b = "foldl ham16_row D (map (\<lambda>r. 16 * r) [0..<n])"
  have b: "?b = [] @ coded_rows 11 dmr_ham_16114 D n @ drop (11 * n) D"
    using Suc by simp
  have "insert_from (16 * n + 11) (dmr_ham_16114 (map (\<lambda>j. ?b ! (16 * n + j)) [0..<11])) ?b =
      [] @ coded_rows 11 dmr_ham_16114 D (Suc n) @ drop (11 * Suc n) D"
    using Suc.prems assms(1) by (intro code_row_step [OF _ _ b, where m = 5]) simp_all
  then show ?case by (simp add: ham16_row_def [of ?b] Let_def)
qed

definition emblc_rows :: "bytes \<Rightarrow> bits" where
  "emblc_rows lc = coded_rows 11 dmr_ham_16114 (emblc_data lc) 7"

lemma length_emblc_rows: "length lc = 9 \<Longrightarrow> length (emblc_rows lc) = 112"
  by (simp add: emblc_rows_def length_coded_rows [where m = 5] length_emblc_data)

text \<open>The parity of column \<open>c\<close> over the first seven rows.\<close>

definition emblc_col :: "bits \<Rightarrow> nat \<Rightarrow> dmr_bit" where
  "emblc_col buf c = xor_at buf (map (\<lambda>r. c + 16 * r) [0..<7])"

lemma emblc_parity_append:
  assumes "length R = 112" "c < 16" "length P = c"
  shows "emblc_parity (R @ P) c = R @ P @ [emblc_col R c]"
proof -
  have "xor_at (R @ P) [c, c + 16, c + 32, c + 48, c + 64, c + 80, c + 96] = emblc_col R c"
    using assms by (simp add: emblc_col_def xor_at_def upt_literal nth_append)
  then show ?thesis
    using assms by (simp add: emblc_parity_def bit_insert_def)
qed

lemma emblc_parities:
  assumes "length R = 112" "n \<le> 16"
  shows "foldl emblc_parity R [0..<n] = R @ map (emblc_col R) [0..<n]"
  using assms(2)
proof (induction n)
  case (Suc n)
  then show ?case using assms(1) by (simp add: emblc_parity_append)
qed simp

lemma emblc_matrix_eq:
  assumes "length lc = 9"
  shows "emblc_matrix lc = emblc_rows lc @ map (emblc_col (emblc_rows lc)) [0..<16]"
proof -
  have "length (dmr_bytes_to_bits lc) = 72" using assms by simp
  then have "emblc_matrix lc =
      foldl emblc_parity (foldl ham16_row (emblc_data lc) (map (\<lambda>r. 16 * r) [0..<7])) [0..<16]"
    by (simp only: emblc_matrix_def Let_def emblc_csum_def [symmetric] emblc_inserts emblc_data_def)
  also have "foldl ham16_row (emblc_data lc) (map (\<lambda>r. 16 * r) [0..<7]) = emblc_rows lc"
    using ham16_rows [of "emblc_data lc" 7] assms by (simp add: emblc_rows_def length_emblc_data)
  finally show ?thesis
    using emblc_parities [of "emblc_rows lc" 16] assms by (simp add: length_emblc_rows)
qed

lemma length_emblc_matrix: "length lc = 9 \<Longrightarrow> length (emblc_matrix lc) = 128"
  by (simp add: emblc_matrix_eq length_emblc_rows)

text \<open>Row \<open>r\<close> of the embedded matrix.\<close>

definition emblc_row :: "bits \<Rightarrow> nat \<Rightarrow> bits" where
  "emblc_row m r = take 16 (drop (16 * r) m)"

lemma emblc_matrix_row:
  assumes "length lc = 9" "r < 7"
  shows "emblc_row (emblc_matrix lc) r =
    (let d = take 11 (drop (11 * r) (emblc_data lc)) in d @ dmr_ham_16114 d)"
proof -
  let ?f = "\<lambda>i. let d = take 11 (drop (11 * i) (emblc_data lc)) in d @ dmr_ham_16114 d"
  have "emblc_row (emblc_matrix lc) r = take 16 (drop (16 * r) (emblc_rows lc))"
    using assms by (simp add: emblc_row_def emblc_matrix_eq length_emblc_rows)
  also have "\<dots> = take 16 (drop (16 * r) (concat (map ?f [0..<7])))"
    by (simp add: emblc_rows_def coded_rows_def)
  also have "\<dots> = ?f r"
    using assms by (intro take_drop_concat_blocks) (auto simp: Let_def length_emblc_data)
  finally show ?thesis .
qed

lemma emblc_matrix_column:
  assumes "length lc = 9" "c < 16"
  shows "\<not> xor_at (emblc_matrix lc) (map (\<lambda>r. c + 16 * r) [0..<8])"
proof -
  have e: "xor_at m (is @ [i]) = (xor_at m is \<noteq> m ! i)" for m i and "is" :: "nat list"
    by (induction "is") (auto simp: xor_at_def)
  have "xor_at (emblc_matrix lc) (map (\<lambda>r. c + 16 * r) [0..<7]) = emblc_col (emblc_rows lc) c"
    unfolding emblc_col_def xor_at_def using assms
    by (intro arg_cong [where f = xor_all]) (simp add: emblc_matrix_eq nth_append length_emblc_rows)
  moreover have "emblc_matrix lc ! (c + 112) = emblc_col (emblc_rows lc) c"
    using assms by (simp add: emblc_matrix_eq nth_append length_emblc_rows)
  moreover have "map (\<lambda>r. c + 16 * r) [0..<8] = map (\<lambda>r. c + 16 * r) [0..<7] @ [c + 112]"
    by (simp add: upt_literal)
  ultimately show ?thesis by (simp only: e)
qed

section \<open>The transmitted fragments\<close>

text \<open>Reading the matrix column by column, with the one cell where the table reads 24 for 25.\<close>

definition emblc_cell :: "nat \<Rightarrow> nat \<Rightarrow> nat" where
  "emblc_cell seg i = (if seg = 2 \<and> i = 9 then 24 else 16 * (i mod 8) + 4 * seg + i div 8)"

lemma EMBLC_IDX_table: "EMBLC_IDX = map (\<lambda>seg. map (emblc_cell seg) [0..<32]) [0..<4]"
  by (simp add: EMBLC_IDX_def emblc_cell_def upt_literal)

lemma emblc_fragments:
  assumes "seg < 4"
  shows "dmr_bytes_to_bits (dmr_encode_emblc lc ! seg) =
    map (\<lambda>i. emblc_matrix lc ! emblc_cell seg i) [0..<32]"
proof -
  have "dmr_encode_emblc lc ! seg =
      dmr_bits_to_bytes (map (\<lambda>i. emblc_matrix lc ! emblc_cell seg i) [0..<32])"
    using assms
    by (auto simp: dmr_encode_emblc_def Let_def EMBLC_IDX_table
        intro!: arg_cong [where f = dmr_bits_to_bytes])
  then show ?thesis by (simp add: bits_of_bytes_of_bits_exact)
qed

lemma length_dmr_encode_emblc [simp, array_len]:
  "length (dmr_encode_emblc lc) = 4" "seg < 4 \<Longrightarrow> length (dmr_encode_emblc lc ! seg) = 4"
  by (simp_all add: dmr_encode_emblc_def Let_def)

section \<open>Properties\<close>

text \<open>
  The 196 bits of \<open>dmr_bptc_encode_19696\<close> are a product code: each of the nine data rows
  is eleven data bits and their Hamming(15,11) parity, and below each of the fifteen columns stands
  its Hamming(13,9) parity; the interleaver only moves them.
\<close>

theorem bptc_product_code:
  assumes "length data12 = 12" "r < 9" "c < 15" "p < 4" "i < 196"
  shows "matrix_row (dmr_bptc_encode_19696 data12) r =
      (let d = take 11 (drop (11 * r) (replicate 3 False @ dmr_bytes_to_bits data12)) in d @ dmr_ham_15113 d) \<and>
    dmr_bptc_encode_19696 data12 ! (136 + 15 * p + c) =
      dmr_ham_1393 (map (\<lambda>j. dmr_bptc_encode_19696 data12 ! (c + 1 + 15 * j)) [0..<9]) ! p \<and>
    interleave_19696 m ! (INDEX_181 ! i) = m ! i"
  using assms encode_19696_row [of data12 r] encode_19696_col [of data12 c p] nth_interleave_19696 [of i m]
  by (simp_all add: bptc_data_def col_parity_def del: upt_rec_numeral)

lemma bptc_product_code_witness:
  "matrix_row (dmr_bptc_encode_19696 (replicate 12 0xA5)) 8 =
     (let d = take 11 (drop (11 * 8) (replicate 3 False @ dmr_bytes_to_bits (replicate 12 0xA5)))
      in d @ dmr_ham_15113 d)"
  using bptc_product_code [of "replicate 12 0xA5" 8 0 0 0] by simp

text \<open>
  The full link control that a voice header or terminator carries is recovered exactly.\<close>

theorem full_lc_roundtrip:
  assumes "length lc = 9"
  shows "dmr_bptc_decode_full_lc (dmr_bptc_encode_lc lc is_term) = lc"
  using assms by (rule decode_full_lc_encode_lc)

lemma full_lc_roundtrip_witness:
  "dmr_bptc_decode_full_lc (dmr_bptc_encode_lc [0,0,0,0,12,0x31,0x2F,0x9B,0xE5] True) =
     [0,0,0,0,12,0x31,0x2F,0x9B,0xE5]"
  using full_lc_roundtrip [of "[0,0,0,0,12,0x31,0x2F,0x9B,0xE5]" True] by simp

text \<open>
  C38: the embedded link control: each of the seven data rows is eleven bits and their
  Hamming(16,11) parity, every column of the eight rows has even parity, the five checksum bits
  are the byte sum modulo 31, and the four fragments are the matrix read by columns except that
  cell 25 is never sent: cell 24 is sent in its place.
\<close>

theorem emblc_structure:
  assumes "length lc = 9" "r < 7" "c < 16" "seg < 4"
  shows "emblc_row (emblc_matrix lc) r =
      (let d = take 11 (drop (11 * r) (emblc_data lc)) in d @ dmr_ham_16114 d) \<and>
    \<not> xor_at (emblc_matrix lc) (map (\<lambda>i. c + 16 * i) [0..<8]) \<and>
    unat (dmr_csum5 lc) = sum_list (map unat lc) mod 31 \<and>
    dmr_bytes_to_bits (dmr_encode_emblc lc ! seg) =
      map (\<lambda>i. emblc_matrix lc ! (if seg = 2 \<and> i = 9 then 24 else 16 * (i mod 8) + 4 * seg + i div 8)) [0..<32]"
  using assms emblc_fragments [of seg lc]
  by (simp_all add: emblc_matrix_row emblc_matrix_column csum5_value emblc_cell_def del: upt_rec_numeral)

lemma emblc_structure_witness:
  "unat (dmr_csum5 [0,0,0,0,12,0x31,0x2F,0x9B,0xE5]) = sum_list (map unat [0,0,0,0,12,0x31,0x2F,0x9B,0xE5 :: u8]) mod 31"
  using emblc_structure [of "[0,0,0,0,12,0x31,0x2F,0x9B,0xE5]" 0 0 0] by simp

end
