(* ===== verification/Dmr_Ambe.thy ===== *)
theory Dmr_Ambe
  imports Dmr_Golay
begin

text \<open>
  \<open>dmr/ambe.c\<close>: the conversion between the 49 bits of an AMBE voice frame and its 72-bit on-air
  form.  A frame \<open>ambe_fr\<close> is four rows C0 to C3 of 24 bits.  C0 and C1 are protected by the Golay
  code, C1 is masked by a pseudo-random sequence that C0 seeds, and the rows are interleaved.
\<close>

unbundle bit_operations_syntax

type_synonym frame = "bits list"

definition rW :: "nat list" where
  "rW = [0,1,0,1,0,1, 0,1,0,1,0,1, 0,1,0,1,0,1, 0,1,0,1,0,2, 0,2,0,2,0,2, 0,2,0,2,0,2]"

definition rX :: "nat list" where
  "rX = [23,10,22,9,21,8, 20,7,19,6,18,5, 17,4,16,3,15,2,
         14,1,13,0,12,10, 11,9,10,8,9,7, 8,6,7,5,6,4]"

definition rY :: "nat list" where
  "rY = [0,2,0,2,0,2, 0,2,0,3,0,3, 1,3,1,3,1,3, 1,3,1,3,1,3, 1,3,1,3,1,3, 1,3,1,3,1,3]"

definition rZ :: "nat list" where
  "rZ = [5,3,4,2,3,1, 2,0,1,13,0,12, 22,11,21,10,20,9,
         19,8,18,7,17,6, 16,5,15,4,14,3, 13,2,12,1,11,0]"

section \<open>Demodulation\<close>

text \<open>
  \<open>foo\<close> and the sequence \<open>pr\<close> fit a \<open>long\<close>: \<open>foo < 4096\<close> and every later entry is below 65536.
\<close>

definition demod_seed :: "frame \<Rightarrow> nat" where
  "demod_seed fr = foldl (\<lambda>foo i. 2 * foo + (if fr ! 0 ! i then 1 else 0)) 0 (rev [12..<24])"

fun pr_seq :: "nat \<Rightarrow> nat \<Rightarrow> nat" where
  "pr_seq foo 0 = 16 * foo"
| "pr_seq foo (Suc i) = (let v = 173 * pr_seq foo i + 13849 in v - 65536 * (v div 65536))"

definition pr_bit :: "nat \<Rightarrow> nat \<Rightarrow> dmr_bit" where
  "pr_bit foo k = (pr_seq foo k div 32768 \<noteq> 0)"

text \<open>\<open>k\<close> runs from 1 while \<open>j\<close> runs from 22 down to 0, so \<open>k = 23 - j\<close>; cell 23 is not touched.\<close>

definition demodulate :: "frame \<Rightarrow> frame" where
  "demodulate fr =
     (let foo = demod_seed fr
      in fr[1 := map (\<lambda>j. if j \<le> 22 then fr ! 1 ! j \<noteq> pr_bit foo (23 - j) else fr ! 1 ! j) [0..<24]])"

section \<open>Frames from and to 49 bits\<close>

text \<open>\<open>tmp = (tmp << 1) | ambe_d[i]\<close> for the listed positions.\<close>

definition shift_in :: "bits \<Rightarrow> nat list \<Rightarrow> u32" where
  "shift_in d is = foldl (\<lambda>tmp i. push_bit 1 tmp OR (if d ! i then 1 else 0)) 0 is"

definition frames_from_49 :: "bits \<Rightarrow> frame" where
  "frames_from_49 d =
     (let t = dmr_golay2312 (shift_in d (rev [0..<12]));
          c0 = t OR push_bit 23 (if dmr_parity t then 1 else 0);
          c1 = dmr_golay2312 (shift_in d (rev [12..<24]))
      in [map (\<lambda>i. bit c0 (23 - i)) [0..<24],
          map (\<lambda>j. bit c1 (22 - j)) [0..<23] @ [False],
          map (\<lambda>j. d ! (34 - j)) [0..<11] @ replicate 13 False,
          map (\<lambda>j. d ! (48 - j)) [0..<14] @ replicate 10 False])"

definition ecc_extract_49 :: "frame \<Rightarrow> bits" where
  "ecc_extract_49 fr =
     map (\<lambda>j. fr ! 0 ! j) (rev [12..<24]) @ map (\<lambda>j. fr ! 1 ! j) (rev [11..<23]) @
     map (\<lambda>j. fr ! 2 ! j) (rev [0..<11]) @ map (\<lambda>j. fr ! 3 ! j) (rev [0..<14])"

section \<open>The two conversions\<close>

definition dmr_ambe_49_to_72 :: "bits \<Rightarrow> bits" where
  "dmr_ambe_49_to_72 in49 =
     (let fr = demodulate (frames_from_49 in49)
      in concat (map (\<lambda>i. [fr ! (rW ! i) ! (rX ! i), fr ! (rY ! i) ! (rZ ! i)]) [0..<36]))"

definition set_cell :: "frame \<Rightarrow> nat \<Rightarrow> nat \<Rightarrow> dmr_bit \<Rightarrow> frame" where
  "set_cell fr r c v = fr[r := (fr ! r)[c := v]]"

definition load_72 :: "bits \<Rightarrow> frame" where
  "load_72 in72 =
     foldl (\<lambda>fr i. set_cell (set_cell fr (rW ! i) (rX ! i) (in72 ! (2 * i)))
                     (rY ! i) (rZ ! i) (in72 ! (2 * i + 1)))
       (replicate 4 (replicate 24 False)) [0..<36]"

definition dmr_ambe_72_to_49 :: "bits \<Rightarrow> bits" where
  "dmr_ambe_72_to_49 in72 = ecc_extract_49 (demodulate (load_72 in72))"

section \<open>The interleaving table\<close>

text \<open>The 72 cells in transmission order; they are the occupied part of the frame.\<close>

definition cells :: "(nat \<times> nat) list" where
  "cells = concat (map (\<lambda>i. [(rW ! i, rX ! i), (rY ! i, rZ ! i)]) [0..<36])"

definition row_width :: "nat list" where
  "row_width = [24, 23, 11, 14]"

definition occupied :: "(nat \<times> nat) list" where
  "occupied = concat (map (\<lambda>r. map (Pair r) [0..<row_width ! r]) [0..<4])"

lemma cells_list:
  "cells = [(0,23),(0,5),(1,10),(2,3),(0,22),(0,4),(1,9),(2,2),(0,21),(0,3),(1,8),(2,1),
    (0,20),(0,2),(1,7),(2,0),(0,19),(0,1),(1,6),(3,13),(0,18),(0,0),(1,5),(3,12),
    (0,17),(1,22),(1,4),(3,11),(0,16),(1,21),(1,3),(3,10),(0,15),(1,20),(1,2),(3,9),
    (0,14),(1,19),(1,1),(3,8),(0,13),(1,18),(1,0),(3,7),(0,12),(1,17),(2,10),(3,6),
    (0,11),(1,16),(2,9),(3,5),(0,10),(1,15),(2,8),(3,4),(0,9),(1,14),(2,7),(3,3),
    (0,8),(1,13),(2,6),(3,2),(0,7),(1,12),(2,5),(3,1),(0,6),(1,11),(2,4),(3,0)]"
  by (simp add: cells_def upt_literal rW_def rX_def rY_def rZ_def)

lemma length_cells [simp]: "length cells = 72"
  by (simp add: cells_list)

lemma distinct_cells: "distinct cells"
  by (simp add: cells_list)

lemma set_cells: "set cells = set occupied"
proof -
  have "list_all (\<lambda>x. x \<in> set occupied) cells" and "list_all (\<lambda>x. x \<in> set cells) occupied"
    by code_simp+
  then show ?thesis by (auto simp: list_all_iff)
qed

lemma cell_bounds: "(r, c) \<in> set cells \<longleftrightarrow> r < 4 \<and> c < row_width ! r"
proof -
  have "(r, c) \<in> set occupied \<longleftrightarrow> r \<in> set [0..<4] \<and> c \<in> set [0..<row_width ! r]"
    unfolding occupied_def set_concat set_map image_image by blast
  then show ?thesis by (simp add: set_cells)
qed

lemma row_width_le: "r < 4 \<Longrightarrow> row_width ! r \<le> 24"
  by (auto simp: row_width_def less_Suc_eq numeral_eq_Suc)

text \<open>A frame as the code lays it out: four rows of 24 cells, the unoccupied ones zero.\<close>

definition frame_ok :: "frame \<Rightarrow> bool" where
  "frame_ok fr \<longleftrightarrow> length fr = 4 \<and> (\<forall>r < 4. length (fr ! r) = 24 \<and>
     (\<forall>c < 24. row_width ! r \<le> c \<longrightarrow> \<not> fr ! r ! c))"

lemma frame_eqI:
  assumes "frame_ok f" "frame_ok g" "\<And>r c. (r, c) \<in> set cells \<Longrightarrow> f ! r ! c = g ! r ! c"
  shows "f = g"
proof (intro nth_equalityI)
  show "length f = length g" using assms by (simp add: frame_ok_def)
  fix r assume r: "r < length f"
  show "length (f ! r) = length (g ! r)" using assms r by (simp add: frame_ok_def)
  fix c assume c: "c < length (f ! r)"
  show "f ! r ! c = g ! r ! c"
    using assms(1,2) r c assms(3) [of r c] by (cases "c < row_width ! r") (auto simp: frame_ok_def cell_bounds)
qed

text \<open>Storing into and loading from the transmission order.\<close>

definition store_72 :: "frame \<Rightarrow> bits" where
  "store_72 fr = map (\<lambda>(r, c). fr ! r ! c) cells"

lemma encode_store: "dmr_ambe_49_to_72 in49 = store_72 (demodulate (frames_from_49 in49))"
  by (simp add: dmr_ambe_49_to_72_def store_72_def cells_def Let_def map_concat comp_def)

lemma length_store_72 [simp]: "length (store_72 fr) = 72"
  by (simp add: store_72_def)

text \<open>The load as a list of writes, one per cell.\<close>

definition write_cells :: "frame \<Rightarrow> ((nat \<times> nat) \<times> dmr_bit) list \<Rightarrow> frame" where
  "write_cells fr ws = foldl (\<lambda>fr w. set_cell fr (fst (fst w)) (snd (fst w)) (snd w)) fr ws"

definition load_writes :: "bits \<Rightarrow> ((nat \<times> nat) \<times> dmr_bit) list" where
  "load_writes in72 =
     concat (map (\<lambda>i. [((rW ! i, rX ! i), in72 ! (2 * i)), ((rY ! i, rZ ! i), in72 ! (2 * i + 1))]) [0..<36])"

lemma load_72_writes: "load_72 in72 = write_cells (replicate 4 (replicate 24 False)) (load_writes in72)"
proof -
  have "foldl (\<lambda>fr i. set_cell (set_cell fr (rW ! i) (rX ! i) (in72 ! (2 * i)))
                 (rY ! i) (rZ ! i) (in72 ! (2 * i + 1))) fr is =
    write_cells fr (concat (map (\<lambda>i. [((rW ! i, rX ! i), in72 ! (2 * i)),
                 ((rY ! i, rZ ! i), in72 ! (2 * i + 1))]) is))" for fr "is"
    by (induction "is" arbitrary: fr) (simp_all add: write_cells_def)
  then show ?thesis by (simp add: load_72_def load_writes_def)
qed

lemma load_writes_zip:
  assumes "length in72 = 72"
  shows "load_writes in72 = zip cells in72"
proof -
  have keys: "map fst (load_writes in72) = cells"
    by (simp add: load_writes_def cells_def map_concat comp_def)
  have "map snd (load_writes in72) = concat (map (\<lambda>i. [in72 ! (2 * i), in72 ! (2 * i + 1)]) [0..<36])"
    by (simp add: load_writes_def map_concat comp_def)
  also have "\<dots> = map ((!) in72) [0..<72]"
  proof -
    have "concat (map (\<lambda>i. [f (2 * i), f (2 * i + 1)]) [0..<n]) = map f [0..<2 * n]"
      for f :: "nat \<Rightarrow> dmr_bit" and n
      by (induction n) simp_all
    from this [of "(!) in72" 36] show ?thesis by simp
  qed
  also have "\<dots> = in72" using assms by (rule list_eq_nth_upt)
  finally show ?thesis using keys by (metis zip_map_fst_snd)
qed

text \<open>Reading a frame after a list of writes to distinct cells.\<close>

lemma length_write_cells [simp]:
  "length (write_cells fr ws) = length fr" "length (write_cells fr ws ! r) = length (fr ! r)"
proof -
  have *: "length (set_cell fr a b v) = length fr \<and> length (set_cell fr a b v ! r) = length (fr ! r)"
    for fr a b v
    by (cases "a = r"; cases "r < length fr") (simp_all add: set_cell_def list_update_beyond)
  have "length (write_cells fr ws) = length fr \<and> length (write_cells fr ws ! r) = length (fr ! r)"
    by (induction ws arbitrary: fr) (simp_all add: write_cells_def *)
  then show "length (write_cells fr ws) = length fr" "length (write_cells fr ws ! r) = length (fr ! r)"
    by simp_all
qed

lemma set_cell_read:
  "r < length fr \<Longrightarrow> c < length (fr ! r) \<Longrightarrow>
   set_cell fr a b v ! r ! c = (if a = r \<and> b = c then v else fr ! r ! c)"
  by (cases "a = r") (auto simp: set_cell_def nth_list_update)

lemma write_cells_other:
  assumes "(r, c) \<notin> fst ` set ws" "r < length fr" "c < length (fr ! r)"
  shows "write_cells fr ws ! r ! c = fr ! r ! c"
  using assms
proof (induction ws arbitrary: fr)
  case (Cons w ws)
  let ?fr = "set_cell fr (fst (fst w)) (snd (fst w)) (snd w)"
  have "length ?fr = length fr" "length (?fr ! r) = length (fr ! r)"
    using length_write_cells [of fr "[w]"] by (simp_all add: write_cells_def)
  then show ?case
    using Cons set_cell_read [of r fr c "fst (fst w)" "snd (fst w)" "snd w"]
    by (auto simp: write_cells_def prod_eq_iff)
qed (simp add: write_cells_def)

lemma write_cells_read:
  assumes "distinct (map fst ws)" "((r, c), v) \<in> set ws" "r < length fr" "c < length (fr ! r)"
  shows "write_cells fr ws ! r ! c = v"
  using assms
proof (induction ws arbitrary: fr)
  case (Cons w ws)
  let ?fr = "set_cell fr (fst (fst w)) (snd (fst w)) (snd w)"
  have len: "length ?fr = length fr" "length (?fr ! r) = length (fr ! r)"
    using length_write_cells [of fr "[w]"] by (simp_all add: write_cells_def)
  have unf: "write_cells fr (w # ws) = write_cells ?fr ws" by (simp add: write_cells_def)
  show ?case
  proof (cases "w = ((r, c), v)")
    case True
    then have "(r, c) \<notin> fst ` set ws" using Cons.prems(1) by auto
    then show ?thesis
      unfolding unf using Cons.prems(3,4) len
      by (subst write_cells_other) (simp_all add: True set_cell_read)
  next
    case False
    then show ?thesis using Cons len by (auto simp: unf)
  qed
qed simp

lemma load_72_frame_ok: assumes "length x = 72" shows "frame_ok (load_72 x)"
proof -
  have l: "load_72 x = write_cells (replicate 4 (replicate 24 False)) (zip cells x)"
    by (simp add: load_72_writes load_writes_zip assms)
  have "\<not> load_72 x ! r ! c" if "r < 4" "c < 24" "row_width ! r \<le> c" for r c
  proof -
    have "(r, c) \<notin> fst ` set (zip cells x)"
      using that cell_bounds [of r c] by (auto dest: set_zip_leftD)
    then show ?thesis using that by (simp add: l write_cells_other)
  qed
  then show ?thesis by (auto simp: frame_ok_def l)
qed

lemma load_72_read:
  assumes "length x = 72" "k < 72"
  shows "load_72 x ! fst (cells ! k) ! snd (cells ! k) = x ! k"
proof -
  have "cells ! k \<in> set cells" using assms(2) by simp
  then have "fst (cells ! k) < 4" "snd (cells ! k) < 24"
    using cell_bounds [of "fst (cells ! k)" "snd (cells ! k)"] row_width_le [of "fst (cells ! k)"] by auto
  moreover have "(cells ! k, x ! k) \<in> set (zip cells x)"
    using assms by (auto simp: set_zip)
  ultimately show ?thesis
    unfolding load_72_writes load_writes_zip [OF assms(1)]
    by (intro write_cells_read) (simp_all add: assms distinct_cells)
qed

lemma store_load: "length x = 72 \<Longrightarrow> store_72 (load_72 x) = x"
  by (rule nth_equalityI) (simp_all add: store_72_def case_prod_beta load_72_read)

lemma load_store:
  assumes "frame_ok fr"
  shows "load_72 (store_72 fr) = fr"
proof (rule frame_eqI [OF load_72_frame_ok assms])
  fix r c assume "(r, c) \<in> set cells"
  then obtain k where k: "k < 72" "cells ! k = (r, c)" by (auto simp: in_set_conv_nth)
  then show "load_72 (store_72 fr) ! r ! c = fr ! r ! c"
    using load_72_read [of "store_72 fr" k] by (simp add: store_72_def)
qed simp


section \<open>Modulation\<close>

lemma length_demodulate [simp]: "length (demodulate fr) = length fr"
  by (simp add: demodulate_def Let_def)

lemma demodulate_other: "r \<noteq> 1 \<Longrightarrow> demodulate fr ! r = fr ! r"
  by (simp add: demodulate_def Let_def)

lemma demodulate_row1:
  "1 < length fr \<Longrightarrow> demodulate fr ! 1 =
     map (\<lambda>j. if j \<le> 22 then fr ! 1 ! j \<noteq> pr_bit (demod_seed fr) (23 - j) else fr ! 1 ! j) [0..<24]"
  by (simp add: demodulate_def Let_def)

lemma demod_seed_demodulate [simp]: "demod_seed (demodulate fr) = demod_seed fr"
  by (simp add: demod_seed_def demodulate_other)

lemma frame_ok_demodulate: "frame_ok fr \<Longrightarrow> frame_ok (demodulate fr)"
proof -
  assume ok: "frame_ok fr"
  then have l: "length fr = 4" and h: "\<And>r c. r < 4 \<Longrightarrow> c < 24 \<Longrightarrow> row_width ! r \<le> c \<Longrightarrow> \<not> fr ! r ! c"
    and w: "\<And>r. r < 4 \<Longrightarrow> length (fr ! r) = 24"
    by (auto simp: frame_ok_def)
  have "length (demodulate fr ! r) = 24 \<and> (\<forall>c < 24. row_width ! r \<le> c \<longrightarrow> \<not> demodulate fr ! r ! c)"
    if "r < 4" for r
    using that l h [of r] w [of r]
    by (cases "r = 1") (auto simp: demodulate_other demodulate_row1 [unfolded One_nat_def] row_width_def)
  then show ?thesis using l by (simp add: frame_ok_def)
qed

lemma demodulate_demodulate:
  assumes "frame_ok fr"
  shows "demodulate (demodulate fr) = fr"
proof (rule frame_eqI [OF _ assms])
  show "frame_ok (demodulate (demodulate fr))" using assms by (simp add: frame_ok_demodulate)
  fix r c assume "(r, c) \<in> set cells"
  then have "r < 4" "c < 24" using row_width_le [of r] by (auto simp: cell_bounds)
  then show "demodulate (demodulate fr) ! r ! c = fr ! r ! c"
    using assms
    by (cases "r = 1") (auto simp: demodulate_other demodulate_row1 [unfolded One_nat_def] frame_ok_def)
qed

section \<open>Rows of a code frame\<close>

lemma bit_shift_in: "bit (shift_in d (rev [a..<a + n])) k \<longleftrightarrow> k < n \<and> k < 32 \<and> d ! (a + k)"
proof (induction n arbitrary: a k)
  case (Suc n)
  have "shift_in d (rev [a..<a + Suc n]) =
      push_bit 1 (shift_in d (rev [Suc a..<Suc a + n])) OR (if d ! a then 1 else 0)"
  proof -
    have "[a..<a + Suc n] = a # [Suc a..<Suc a + n]" by (subst upt_conv_Cons) simp_all
    then show ?thesis unfolding shift_in_def by (simp only: rev.simps foldl_append foldl.simps)
  qed
  moreover have "bit (push_bit 1 w OR (if b then 1 else 0)) k \<longleftrightarrow>
      (if k = 0 then b else k < 32 \<and> bit w (k - 1))" for w :: u32 and b
    by (cases k) (auto simp: bit_or_iff bit_push_bit_iff bit_1_iff simp del: push_bit_Suc)
  ultimately show ?case by (simp only: Suc.IH) (cases k; auto)
qed (simp add: shift_in_def)

lemma shift_in_bits_word: "shift_in d (rev [a..<a + n]) = bits_word (map (\<lambda>k. d ! (a + k)) [0..<n])"
  by (rule bit_word_eqI) (auto simp: bit_bits_word bit_shift_in)

lemma shift_in_row0: "shift_in d (rev [0..<12]) = bits_word (map ((!) d) [0..<12])"
  using shift_in_bits_word [of d 0 12] by simp

lemma shift_in_row1: "shift_in d (rev [12..<24]) = bits_word (map (\<lambda>k. d ! (12 + k)) [0..<12])"
  using shift_in_bits_word [of d 12 12] by simp

text \<open>The word is within 23 bits, so the parity bit is shifted into a free position.\<close>

lemma bit_golay_round: "bit (golay_round w) n \<Longrightarrow> bit w (Suc n) \<or> bit GOLAY_POLY (Suc n)"
  by (auto simp: golay_round_def bit_simps split: if_splits)

lemma bit_POLY_bound: "12 \<le> n \<Longrightarrow> \<not> bit GOLAY_POLY n"
proof
  assume "12 \<le> n" "bit GOLAY_POLY n"
  moreover have "GOLAY_POLY = take_bit 12 GOLAY_POLY" by (simp add: GOLAY_POLY_def)
  ultimately show False by (metis bit_take_bit_iff not_less)
qed

lemma golay_rounds_bound: "\<forall>n \<ge> 12. \<not> bit w n \<Longrightarrow> 0 < m \<Longrightarrow> \<forall>n \<ge> 11. \<not> bit ((golay_round ^^ m) w) n"
proof (induction m)
  case (Suc m)
  have "\<forall>n \<ge> 12. \<not> bit ((golay_round ^^ m) w) n"
    using Suc by (cases "m = 0") auto
  then show ?case using bit_golay_round bit_POLY_bound by fastforce
qed simp

lemma golay_bound: "23 \<le> n \<Longrightarrow> \<not> bit (dmr_golay2312 w) n"
proof -
  assume n: "23 \<le> n"
  have "\<not> bit ((golay_round ^^ 12) (w AND 0xFFF)) (n - 12)"
    using golay_rounds_bound [of "w AND 0xFFF" 12] n by (auto simp: mask12 bit_simps)
  then show ?thesis using n by (auto simp: dmr_golay2312_def Let_def mask12 bit_simps)
qed

definition row0 :: "bits \<Rightarrow> bits" where
  "row0 d = rev (d @ golay_parity d)"

definition row1 :: "bits \<Rightarrow> bits" where
  "row1 d = rev (d @ butlast (golay_parity d))"

lemma map_rev_upt: "map (\<lambda>i. f (n - Suc i)) [0..<n] = rev (map f [0..<n])"
  by (rule nth_equalityI) (simp_all add: rev_nth)

lemma golay_word_row0:
  assumes "length d = 12"
  shows "map (bit (dmr_golay2312 (bits_word d) OR
      push_bit 23 (if dmr_parity (dmr_golay2312 (bits_word d)) then 1 else 0))) [0..<24] = d @ golay_parity d"
    (is "map (bit ?c0) _ = _")
proof -
  let ?t = "dmr_golay2312 (bits_word d)"
  have low: "bit ?c0 n = bit ?t n" if "n < 23" for n
    using that by (auto simp: bit_or_iff bit_push_bit_iff)
  have top: "bit ?c0 23 = dmr_parity ?t" by (simp add: bit_or_iff bit_push_bit_iff golay_bound)
  have "map (bit ?c0) [0..<12] = d"
    using assms by (intro nth_equalityI) (simp_all add: low bit_golay_data bit_bits_word)
  moreover have "map (bit ?c0) [12..<23] = map (bit ?t) [12..<23]" by (simp add: low)
  moreover have "[0..<24] = [0..<12] @ [12..<23] @ [23::nat]" by (simp add: upt_conv_Cons)
  ultimately show ?thesis by (simp only: map_append list.map top golay_parity_def Let_def)
qed

lemma golay_word_row1:
  assumes "length d = 12"
  shows "map (bit (dmr_golay2312 (bits_word d))) [0..<23] = d @ butlast (golay_parity d)"
proof -
  have "map (bit (dmr_golay2312 (bits_word d))) [0..<12] = d"
    using assms by (intro nth_equalityI) (simp_all add: bit_golay_data bit_bits_word)
  moreover have "[0..<23] = [0..<12] @ [12..<23::nat]" by (simp add: upt_conv_Cons)
  ultimately show ?thesis by (simp only: map_append golay_parity_def Let_def butlast_snoc)
qed

lemma frames_from_49_rows:
  "frames_from_49 d =
    [row0 (map ((!) d) [0..<12]), row1 (map (\<lambda>k. d ! (12 + k)) [0..<12]) @ [False],
     map (\<lambda>j. d ! (34 - j)) [0..<11] @ replicate 13 False,
     map (\<lambda>j. d ! (48 - j)) [0..<14] @ replicate 10 False]"
proof -
  have m: "map (\<lambda>i. f (23 - i)) [0..<24] = rev (map f [0..<24])"
      "map (\<lambda>i. f (22 - i)) [0..<23] = rev (map f [0..<23])" for f :: "nat \<Rightarrow> bool"
    using map_rev_upt [of f 24] map_rev_upt [of f 23] by (simp_all del: upt_rec_numeral)
  show ?thesis
    unfolding frames_from_49_def Let_def shift_in_row0 shift_in_row1 m row0_def row1_def
    by (subst golay_word_row0, simp) (subst golay_word_row1, simp_all del: upt_rec_numeral)
qed

section \<open>Extraction\<close>

lemma length_ecc_extract_49 [simp]: "length (ecc_extract_49 fr) = 49"
  by (simp add: ecc_extract_49_def)

lemma all_lt_4: "(\<forall>r < 4. P r) \<longleftrightarrow> P 0 \<and> P 1 \<and> P 2 \<and> P (3::nat)"
  by (auto simp: less_Suc_eq numeral_eq_Suc)

lemma length_rows:
  "length d = 12 \<Longrightarrow> length (row0 d) = 24" "length d = 12 \<Longrightarrow> length (row1 d) = 23"
  by (simp_all add: row0_def row1_def golay_parity_def Let_def)

lemma frames_ok: "frame_ok (frames_from_49 d)"
  unfolding frame_ok_def all_lt_4 frames_from_49_rows row_width_def
  by (auto simp: nth_append length_rows simp del: upt_rec_numeral)

lemma read_row0: "length e = 12 \<Longrightarrow> map ((!) (row0 e)) (rev [12..<24]) = e"
  by (rule nth_equalityI)
     (auto simp: row0_def rev_nth nth_append golay_parity_def Let_def simp del: upt_rec_numeral)

lemma read_row1: "length e = 12 \<Longrightarrow> map ((!) (row1 e @ x)) (rev [11..<23]) = e"
  by (rule nth_equalityI)
     (auto simp: row1_def rev_nth nth_append golay_parity_def Let_def simp del: upt_rec_numeral)

lemma read_rev: "n \<le> m \<Longrightarrow> map ((!) (map (\<lambda>j. d ! (m - j)) [0..<n] @ x)) (rev [0..<n]) = map ((!) d) [Suc m - n..<Suc m]"
  by (rule nth_equalityI) (auto simp: rev_nth nth_append intro!: arg_cong [where f = "(!) d"] simp del: upt_rec_numeral)

lemma upt_shift: "map (\<lambda>k. d ! (12 + k)) [0..<12] = map ((!) d) [12..<24]"
  by (rule nth_equalityI) (simp_all del: upt_rec_numeral)

lemma ecc_extract_frames:
  assumes "length d = 49"
  shows "ecc_extract_49 (frames_from_49 d) = d"
proof -
  have "ecc_extract_49 (frames_from_49 d) =
     map ((!) d) [0..<12] @ map ((!) d) [12..<24] @ map ((!) d) [24..<35] @ map ((!) d) [35..<49]"
    using read_rev [of 11 34 d] read_rev [of 14 48 d]
    unfolding ecc_extract_49_def frames_from_49_rows
    by (simp add: read_row0 read_row1 upt_shift del: upt_rec_numeral)
  also have "\<dots> = map ((!) d) [0..<49]"
  proof -
    have "[0..<49] = [0..<12] @ [12..<24] @ [24..<35] @ [35..<49::nat]"
      using upt_add_eq_append [of 0 12 37] upt_add_eq_append [of 12 24 25] upt_add_eq_append [of 24 35 14]
      by (simp del: upt_rec_numeral)
    then show ?thesis by (simp only: map_append)
  qed
  finally show ?thesis using assms by (simp only: list_eq_nth_upt)
qed

lemma ambe_72_49_of_49_72:
  assumes "length d = 49"
  shows "dmr_ambe_72_to_49 (dmr_ambe_49_to_72 d) = d"
  using assms frames_ok [of d]
  by (simp add: dmr_ambe_72_to_49_def encode_store load_store frame_ok_demodulate demodulate_demodulate
      ecc_extract_frames)

section \<open>Frames received off air\<close>

text \<open>
  A received frame is sound when C0 is a word of the (24,12) code and the demodulated C1 one of
  the (23,12) code.  Re-encoding what is extracted from a frame returns the frame exactly then.
\<close>

definition c0_ok :: "frame \<Rightarrow> bool" where
  "c0_ok fr \<longleftrightarrow> fr ! 0 = row0 (map ((!) (rev (fr ! 0))) [0..<12])"

definition c1_ok :: "frame \<Rightarrow> bool" where
  "c1_ok fr \<longleftrightarrow> take 23 (fr ! 1) = row1 (map (\<lambda>k. fr ! 1 ! (22 - k)) [0..<12])"

definition ambe_valid_72 :: "bits \<Rightarrow> bool" where
  "ambe_valid_72 x \<longleftrightarrow> c0_ok (load_72 x) \<and> c1_ok (demodulate (load_72 x))"

lemma ecc_extract_reads:
  "map ((!) (ecc_extract_49 fr)) [0..<12] = map (\<lambda>k. fr ! 0 ! (23 - k)) [0..<12]"
  "map (\<lambda>k. ecc_extract_49 fr ! (12 + k)) [0..<12] = map (\<lambda>k. fr ! 1 ! (22 - k)) [0..<12]"
  "map (\<lambda>j. ecc_extract_49 fr ! (34 - j)) [0..<11] = map ((!) (fr ! 2)) [0..<11]"
  "map (\<lambda>j. ecc_extract_49 fr ! (48 - j)) [0..<14] = map ((!) (fr ! 3)) [0..<14]"
  by (rule nth_equalityI; auto simp: ecc_extract_49_def nth_append rev_nth simp del: upt_rec_numeral
      intro!: arg_cong [where f = "(!) _"])+

lemma zero_tail:
  assumes "length r = 24" "n \<le> 24" "\<forall>c < 24. n \<le> c \<longrightarrow> \<not> r ! c"
  shows "r = take n r @ replicate (24 - n) False"
  using assms by (intro nth_equalityI) (auto simp: nth_append)

lemma map_nth_take: "n \<le> length xs \<Longrightarrow> map ((!) xs) [0..<n] = take n xs"
  by (rule nth_equalityI) simp_all

lemma rev_reads: "length r = 24 \<Longrightarrow> map ((!) (rev r)) [0..<12] = map (\<lambda>k. r ! (23 - k)) [0..<12]"
  by (rule nth_equalityI) (simp_all add: rev_nth del: upt_rec_numeral)

lemma frames_extract:
  assumes "frame_ok fr"
  shows "frames_from_49 (ecc_extract_49 fr) = fr \<longleftrightarrow> c0_ok fr \<and> c1_ok fr"
proof -
  have w: "length (fr ! 0) = 24" "length (fr ! 1) = 24" "length (fr ! 2) = 24" "length (fr ! 3) = 24"
    and l: "length fr = 4" using assms by (auto simp: frame_ok_def)
  have z: "r < 4 \<Longrightarrow> fr ! r = take (row_width ! r) (fr ! r) @ replicate (24 - row_width ! r) False" for r
    using assms row_width_le [of r] by (intro zero_tail) (auto simp: frame_ok_def)
  let ?r0 = "row0 (map (\<lambda>k. fr ! 0 ! (23 - k)) [0..<12])"
  let ?r1 = "row1 (map (\<lambda>k. fr ! 1 ! (22 - k)) [0..<12])"
  have row2: "take 11 (fr ! 2) @ replicate 13 False = fr ! 2"
    using z [of 2] by (simp add: row_width_def)
  have row3: "take 14 (fr ! 3) @ replicate 10 False = fr ! 3"
    using z [of 3] by (simp add: row_width_def numeral_3_eq_3)
  have e: "frames_from_49 (ecc_extract_49 fr) = [?r0, ?r1 @ [False], fr ! 2, fr ! 3]"
    unfolding frames_from_49_rows ecc_extract_reads using w
    by (simp add: map_nth_take row2 row3 del: upt_rec_numeral)
  have f: "fr = [fr ! 0, take 23 (fr ! 1) @ [False], fr ! 2, fr ! 3]"
  proof -
    have "fr = map ((!) fr) [0..<4]" using l by (simp add: list_eq_nth_upt)
    also have "\<dots> = [fr ! 0, fr ! 1, fr ! 2, fr ! 3]" by (simp add: upt_literal)
    finally show ?thesis using z [of 1] by (simp add: row_width_def)
  qed
  have "frames_from_49 (ecc_extract_49 fr) = fr \<longleftrightarrow>
      [?r0, ?r1 @ [False], fr ! 2, fr ! 3] = [fr ! 0, take 23 (fr ! 1) @ [False], fr ! 2, fr ! 3]"
    by (rule arg_cong2 [where f = "(=)", OF e f])
  also have "\<dots> \<longleftrightarrow> ?r0 = fr ! 0 \<and> ?r1 = take 23 (fr ! 1)" by simp
  finally have "frames_from_49 (ecc_extract_49 fr) = fr \<longleftrightarrow> ?r0 = fr ! 0 \<and> ?r1 = take 23 (fr ! 1)" .
  then show ?thesis unfolding c0_ok_def c1_ok_def rev_reads [OF w(1)] by auto
qed

lemma ambe_49_72_of_72_49:
  assumes "length x = 72"
  shows "dmr_ambe_49_to_72 (dmr_ambe_72_to_49 x) = x \<longleftrightarrow> ambe_valid_72 x"
proof -
  let ?fr = "demodulate (load_72 x)"
  have ok: "frame_ok (load_72 x)" "frame_ok ?fr" using load_72_frame_ok [OF assms]
    by (simp_all add: frame_ok_demodulate)
  let ?e = "frames_from_49 (ecc_extract_49 ?fr)"
  have "dmr_ambe_49_to_72 (dmr_ambe_72_to_49 x) = x \<longleftrightarrow> store_72 (demodulate ?e) = store_72 (load_72 x)"
    by (simp add: encode_store dmr_ambe_72_to_49_def store_load assms)
  also have "\<dots> \<longleftrightarrow> demodulate ?e = load_72 x"
    using ok frames_ok by (metis frame_ok_demodulate load_store)
  also have "\<dots> \<longleftrightarrow> ?e = ?fr"
    using ok frames_ok by (metis demodulate_demodulate)
  also have "\<dots> \<longleftrightarrow> c0_ok ?fr \<and> c1_ok ?fr" by (rule frames_extract [OF ok(2)])
  also have "c0_ok ?fr = c0_ok (load_72 x)" by (simp add: c0_ok_def demodulate_other)
  finally show ?thesis by (simp add: ambe_valid_72_def)
qed

lemma length_ambe_49_to_72 [simp, array_len]: "length (dmr_ambe_49_to_72 d) = 72"
  by (simp add: encode_store)

lemma length_ambe_72_to_49 [simp, array_len]: "length (dmr_ambe_72_to_49 x) = 49"
  by (simp add: dmr_ambe_72_to_49_def)

text \<open>Every encoded frame is valid.\<close>

lemma ambe_valid_encoded: "length d = 49 \<Longrightarrow> ambe_valid_72 (dmr_ambe_49_to_72 d)"
  using ambe_49_72_of_72_49 [of "dmr_ambe_49_to_72 d"]
  by (simp add: ambe_72_49_of_49_72)

section \<open>The vocoder interface\<close>

text \<open>
  What the translator relies on: 49 raw bits become 72 on-air bits and come back, so distinct raw
  frames have distinct on-air forms and what is recovered from any on-air frame re-encodes to a
  fixed point.
\<close>

locale vocoder_frame =
  fixes enc dec :: "bits \<Rightarrow> bits"
  assumes len_enc: "length d = 49 \<Longrightarrow> length (enc d) = 72"
    and len_dec: "length x = 72 \<Longrightarrow> length (dec x) = 49"
    and dec_enc: "length d = 49 \<Longrightarrow> dec (enc d) = d"
begin

lemma enc_inject: "length d = 49 \<Longrightarrow> length e = 49 \<Longrightarrow> enc d = enc e \<longleftrightarrow> d = e"
  by (metis dec_enc)

lemma dec_normal: "length x = 72 \<Longrightarrow> dec (enc (dec x)) = dec x"
  by (simp add: dec_enc len_dec)

lemma dec_map_enc: "list_all (\<lambda>d. length d = 49) ds \<Longrightarrow> map dec (map enc ds) = ds"
  by (induction ds) (simp_all add: dec_enc)

end

interpretation ambe: vocoder_frame dmr_ambe_49_to_72 dmr_ambe_72_to_49
  by unfold_locales (simp_all add: ambe_72_49_of_49_72)

section \<open>Properties\<close>

text \<open>C35: every 49-bit vocoder frame survives the conversion to its on-air form and back.\<close>

theorem ambe_roundtrip:
  assumes "length d = 49"
  shows "dmr_ambe_72_to_49 (dmr_ambe_49_to_72 d) = d \<and> length (dmr_ambe_49_to_72 d) = 72"
  using assms by (simp add: ambe.dec_enc)

lemma ambe_roundtrip_witness:
  "dmr_ambe_72_to_49 (dmr_ambe_49_to_72 (replicate 49 True)) = replicate 49 True"
  using ambe_roundtrip [of "replicate 49 True"] by simp

text \<open>
  Converting a received 72-bit frame to 49 bits and back returns the same 72 bits exactly
  when its C0 row is a word of the extended Golay code and its demodulated C1 row one of the
  Golay code, the check that the offline tool applies to captured frames.
\<close>

theorem ambe_reencode_iff_valid:
  assumes "length x = 72"
  shows "dmr_ambe_49_to_72 (dmr_ambe_72_to_49 x) = x \<longleftrightarrow>
    (let fr = load_72 x; fr' = demodulate fr
     in fr ! 0 = row0 (map ((!) (rev (fr ! 0))) [0..<12]) \<and>
        take 23 (fr' ! 1) = row1 (map (\<lambda>k. fr' ! 1 ! (22 - k)) [0..<12]))"
  unfolding ambe_49_72_of_72_49 [OF assms] ambe_valid_72_def c0_ok_def c1_ok_def Let_def ..

lemma ambe_reencode_iff_valid_witness:
  "length (replicate 72 False) = 72 \<and>
   (dmr_ambe_49_to_72 (dmr_ambe_72_to_49 (replicate 72 False)) = replicate 72 False \<longleftrightarrow>
    (let fr = load_72 (replicate 72 False); fr' = demodulate fr
     in fr ! 0 = row0 (map ((!) (rev (fr ! 0))) [0..<12]) \<and>
        take 23 (fr' ! 1) = row1 (map (\<lambda>k. fr' ! 1 ! (22 - k)) [0..<12])))"
  using ambe_reencode_iff_valid [of "replicate 72 False"] by simp

end
