(* ===== verification/Cccc_Ambe.thy ===== *)
theory Cccc_Ambe
  imports Dmr_Bits
begin

text \<open>
  \<open>cccc/cccc_ambe.c\<close>: three 49-bit vocoder frames to and from the 21 payload bytes of a CC-CC voice
  datagram.  Each frame is permuted to the wire order and packed into seven bytes; bit 48 is the
  top bit of the last byte, whose low seven bits are zero.
\<close>

unbundle bit_operations_syntax

definition CCCC_AMBE_PERM :: "nat list" where
  "CCCC_AMBE_PERM = [0,18,36, 1,19,37, 2,20,38, 3,21,39, 4,22,40, 5,23,41, 6,24,42,
     7,25,43, 8,26,44, 9,27,45,10,28,46,11,29,47,12,30,48,13,31,14,
     32,15,33,16,34,17,35]"

section \<open>One unit\<close>

definition pack_unit :: "bits \<Rightarrow> bytes" where
  "pack_unit d =
     (let wire = map (\<lambda>j. d ! (CCCC_AMBE_PERM ! j)) [0..<49]
      in dmr_bits_to_bytes (take 48 wire) @ [if wire ! 48 then 0x80 else 0x00])"

definition unpack_wire :: "bytes \<Rightarrow> bits" where
  "unpack_wire unit = dmr_bytes_to_bits (take 6 unit) @ [unit ! 6 AND 0x80 \<noteq> 0]"

text \<open>\<open>ambe49[i][PERM[j]] = wire[j]\<close>, written into the caller's array.\<close>

definition scatter :: "bits \<Rightarrow> bits \<Rightarrow> bits" where
  "scatter out wire = foldl (\<lambda>a j. a[CCCC_AMBE_PERM ! j := wire ! j]) out [0..<49]"

definition unpack_unit :: "bytes \<Rightarrow> bits" where
  "unpack_unit unit = scatter (replicate 49 False) (unpack_wire unit)"

section \<open>The three units of a datagram\<close>

definition cccc_ambe_pack21 :: "bits list \<Rightarrow> bytes" where
  "cccc_ambe_pack21 ambe49 = concat (map (\<lambda>i. pack_unit (ambe49 ! i)) [0..<3])"

definition cccc_ambe_unpack21 :: "bytes \<Rightarrow> bits list" where
  "cccc_ambe_unpack21 in21 = map (\<lambda>i. unpack_unit (take 7 (drop (i * 7) in21))) [0..<3]"

section \<open>The permutation\<close>

definition PERM_inv :: "nat list" where
  "PERM_inv = [0,3,6,9,12,15,18,21,24,27,30,33,36,39,41,43,45,47,
     1,4,7,10,13,16,19,22,25,28,31,34,37,40,42,44,46,48,
     2,5,8,11,14,17,20,23,26,29,32,35,38]"

lemma length_PERM [simp]: "length CCCC_AMBE_PERM = 49" "length PERM_inv = 49"
  by (simp_all add: CCCC_AMBE_PERM_def PERM_inv_def)

lemma PERM_permutation:
  "distinct CCCC_AMBE_PERM" "list_all (\<lambda>i. i < 49) CCCC_AMBE_PERM" "list_all (\<lambda>i. i < 49) PERM_inv"
  "map ((!) CCCC_AMBE_PERM) PERM_inv = [0..<49]" "map ((!) PERM_inv) CCCC_AMBE_PERM = [0..<49]"
  by code_simp+

lemma PERM_bounds: "j < 49 \<Longrightarrow> CCCC_AMBE_PERM ! j < 49" "i < 49 \<Longrightarrow> PERM_inv ! i < 49"
  using PERM_permutation(2,3) by (simp_all add: list_all_length)

lemma PERM_inverse:
  "i < 49 \<Longrightarrow> CCCC_AMBE_PERM ! (PERM_inv ! i) = i"
  "j < 49 \<Longrightarrow> PERM_inv ! (CCCC_AMBE_PERM ! j) = j"
proof -
  show "i < 49 \<Longrightarrow> CCCC_AMBE_PERM ! (PERM_inv ! i) = i"
    using arg_cong [OF PERM_permutation(4), of "\<lambda>xs. xs ! i"] by (simp del: upt_rec_numeral)
  show "j < 49 \<Longrightarrow> PERM_inv ! (CCCC_AMBE_PERM ! j) = j"
    using arg_cong [OF PERM_permutation(5), of "\<lambda>xs. xs ! j"] by (simp del: upt_rec_numeral)
qed

text \<open>Wire position \<open>j\<close> holds the bit that a column-wise read of rows of 18, 18 and 13 meets there.\<close>

lemma PERM_lanes:
  "CCCC_AMBE_PERM = concat (map (\<lambda>c. [c, 18 + c] @ (if c < 13 then [36 + c] else [])) [0..<18])"
  by code_simp

section \<open>Scatter\<close>

lemma length_scatter [simp]: "length (scatter out wire) = length out"
  by (simp add: scatter_def foldl_writes_length)

lemma scatter_steps:
  assumes "length out = 49" "m \<le> 49" "i < 49"
  shows "foldl (\<lambda>a j. a[CCCC_AMBE_PERM ! j := wire ! j]) out [0..<m] ! i =
    (if PERM_inv ! i < m then wire ! (PERM_inv ! i) else out ! i)"
  using assms(2)
proof (induction m)
  case (Suc m)
  have "CCCC_AMBE_PERM ! m = i \<longleftrightarrow> PERM_inv ! i = m"
    using Suc.prems assms(3) PERM_inverse by (metis Suc_le_eq)
  moreover have "length (foldl (\<lambda>a j. a[CCCC_AMBE_PERM ! j := wire ! j]) out [0..<m]) = 49"
    using assms(1) by (simp add: foldl_writes_length)
  ultimately show ?case
    using Suc assms(3) PERM_bounds(1) [of m] by (auto simp: nth_list_update less_Suc_eq)
qed simp

lemma scatter_nth:
  "length out = 49 \<Longrightarrow> i < 49 \<Longrightarrow> scatter out wire ! i = wire ! (PERM_inv ! i)"
  using PERM_bounds(2) by (simp add: scatter_def scatter_steps)

text \<open>Every cell is written, so what the array held before does not matter.\<close>

lemma scatter_total: "length a = 49 \<Longrightarrow> length b = 49 \<Longrightarrow> scatter a wire = scatter b wire"
  by (rule nth_equalityI) (simp_all add: scatter_nth)

section \<open>Round trips\<close>

lemma length_pack_unit [simp, array_len]: "length (pack_unit d) = 7"
  by (simp add: pack_unit_def Let_def del: upt_rec_numeral)

lemma length_unpack_unit [simp, array_len]: "length (unpack_unit u) = 49"
  by (simp add: unpack_unit_def)

lemma and_0x80: "(if b then 0x80 else 0) AND (0x80 :: u8) \<noteq> 0 \<longleftrightarrow> b"
  by simp

lemma unpack_wire_pack:
  "unpack_wire (pack_unit d) = map (\<lambda>j. d ! (CCCC_AMBE_PERM ! j)) [0..<49]" (is "_ = ?w")
proof -
  have "length (dmr_bits_to_bytes (take 48 ?w)) = 6" by (simp del: upt_rec_numeral)
  then have "unpack_wire (pack_unit d) = take 48 ?w @ [?w ! 48]"
    unfolding unpack_wire_def pack_unit_def Let_def
    by (simp add: nth_append del: upt_rec_numeral)
  also have "\<dots> = take (Suc 48) ?w" by (rule take_Suc_conv_app_nth [symmetric]) simp
  finally show ?thesis by (simp del: upt_rec_numeral)
qed

lemma unpack_pack_unit:
  assumes "length d = 49"
  shows "unpack_unit (pack_unit d) = d"
  unfolding unpack_unit_def unpack_wire_pack
  using assms PERM_bounds(2) PERM_inverse(1)
  by (intro nth_equalityI) (simp_all add: scatter_nth del: upt_rec_numeral)

text \<open>The other way round, the seven padding bits of the last byte are lost.\<close>

lemma pack_unpack_unit:
  assumes "length u = 7"
  shows "pack_unit (unpack_unit u) = u[6 := u ! 6 AND 0x80]"
proof -
  have w: "length (unpack_wire u) = 49" using assms by (simp add: unpack_wire_def)
  have "map (\<lambda>j. unpack_unit u ! (CCCC_AMBE_PERM ! j)) [0..<49] = unpack_wire u"
    using w PERM_bounds(1) PERM_inverse(2)
    by (intro nth_equalityI) (simp_all add: unpack_unit_def scatter_nth del: upt_rec_numeral)
  then have "pack_unit (unpack_unit u) =
      dmr_bits_to_bytes (take 48 (unpack_wire u)) @ [if unpack_wire u ! 48 then 0x80 else 0x00]"
    unfolding pack_unit_def Let_def by simp
  also have "\<dots> = take 6 u @ [u ! 6 AND 0x80]"
  proof -
    have "(if w AND 0x80 \<noteq> 0 then 0x80 else 0) = w AND 0x80" for w :: u8
      by (rule bit_word_eqI) (auto simp: and_exp_eq_0_iff_not_bit [of w 7, simplified]
          bit_and_iff bit_exp_iff [of 7, simplified] split: if_splits)
    then show ?thesis using assms by (simp add: unpack_wire_def nth_append)
  qed
  also have "\<dots> = u[6 := u ! 6 AND 0x80]"
    using assms by (intro nth_equalityI) (auto simp: nth_append nth_list_update less_Suc_eq)
  finally show ?thesis .
qed

lemma length_pack21 [simp, array_len]: "length (cccc_ambe_pack21 a) = 21"
  by (simp add: cccc_ambe_pack21_def upt_literal)

lemma length_unpack21 [simp, array_len]: "length (cccc_ambe_unpack21 b) = 3"
  by (simp add: cccc_ambe_unpack21_def)

lemma length_unpack21_nth [simp, array_len]: "i < 3 \<Longrightarrow> length (cccc_ambe_unpack21 b ! i) = 49"
  by (simp add: cccc_ambe_unpack21_def)

lemma pack21_unit: "i < 3 \<Longrightarrow> take 7 (drop (i * 7) (cccc_ambe_pack21 a)) = pack_unit (a ! i)"
  by (auto simp: cccc_ambe_pack21_def upt_literal less_Suc_eq numeral_3_eq_3)

lemma unpack21_pack21:
  assumes "length a = 3" "\<forall>d \<in> set a. length d = 49"
  shows "cccc_ambe_unpack21 (cccc_ambe_pack21 a) = a"
  using assms
  by (intro nth_equalityI) (simp_all add: cccc_ambe_unpack21_def pack21_unit unpack_pack_unit del: upt_rec_numeral)

lemma split21:
  assumes "length b = 21"
  shows "b = take 7 b @ take 7 (drop 7 b) @ take 7 (drop 14 b)"
proof -
  have "b = take 7 b @ drop 7 b" by simp
  also have "drop 7 b = take 7 (drop 7 b) @ drop 7 (drop 7 b)" by (simp only: append_take_drop_id)
  finally show ?thesis using assms by simp
qed

lemma pack21_unpack21:
  assumes "length b = 21"
  shows "cccc_ambe_pack21 (cccc_ambe_unpack21 b) =
    b[6 := b ! 6 AND 0x80, 13 := b ! 13 AND 0x80, 20 := b ! 20 AND 0x80]"
proof -
  let ?u = "\<lambda>i. take 7 (drop (i * 7) b)"
  have "cccc_ambe_pack21 (cccc_ambe_unpack21 b) =
      pack_unit (unpack_unit (?u 0)) @ pack_unit (unpack_unit (?u 1)) @ pack_unit (unpack_unit (?u 2))"
    by (simp add: cccc_ambe_pack21_def cccc_ambe_unpack21_def upt_literal)
  also have "\<dots> = (take 7 b)[6 := b ! 6 AND 0x80] @ (take 7 (drop 7 b))[6 := b ! 13 AND 0x80] @
      (take 7 (drop 14 b))[6 := b ! 20 AND 0x80]"
    using assms by (simp add: pack_unpack_unit)
  also have "\<dots> = (take 7 b @ take 7 (drop 7 b) @ take 7 (drop 14 b))
      [6 := b ! 6 AND 0x80, 13 := b ! 13 AND 0x80, 20 := b ! 20 AND 0x80]"
    using assms by (simp add: list_update_append)
  finally show ?thesis by (simp only: split21 [OF assms, symmetric])
qed

section \<open>The captured frame of the test suite\<close>

definition formB_unit :: bytes where
  "formB_unit = [0xaa,0x02,0xdd,0x8a,0x72,0x50,0x00]"

definition formA_pack :: bytes where
  "formA_pack = [0xa1,0xb3,0x11,0x94,0x08,0xf1,0x80]"

lemma golden_unit: "unpack_unit formB_unit = take 49 (dmr_bytes_to_bits formA_pack)"
  by code_simp

section \<open>Property\<close>

text \<open>
  Three vocoder frames survive packing into a datagram and back; unpacking and packing any
  21 bytes returns them with the seven unused bits of each unit's last byte cleared.
\<close>

theorem ambe21_roundtrip:
  assumes "length a = 3" "\<forall>d \<in> set a. length d = 49" "length b = 21"
  shows "cccc_ambe_unpack21 (cccc_ambe_pack21 a) = a \<and>
    cccc_ambe_pack21 (cccc_ambe_unpack21 b) =
      b[6 := b ! 6 AND 0x80, 13 := b ! 13 AND 0x80, 20 := b ! 20 AND 0x80]"
  using assms by (simp add: unpack21_pack21 pack21_unpack21)

lemma ambe21_roundtrip_witness:
  "cccc_ambe_unpack21 (cccc_ambe_pack21 (replicate 3 (replicate 49 True))) = replicate 3 (replicate 49 True)"
  using ambe21_roundtrip [of "replicate 3 (replicate 49 True)" "replicate 21 0"] by simp

end
