(* ===== verification/Crypto.thy ===== *)
theory Crypto
  imports Prelude "HOL-Library.Monad_Syntax"
begin

text \<open>
  \<open>crypto.c\<close>: SHA-1, SHA-256 and HMAC-SHA1.  The streaming contexts are records with the fields
  of the C structs; the two update loops are partial functions, because \<open>sha1_update\<close> makes no
  progress on a context whose buffer is full and the padding loop of \<open>sha1_final\<close> looks for one
  particular fill level.  Every entry point is then shown to return, and the digest to be the
  block function folded over the padded message.
\<close>

unbundle bit_operations_syntax

section \<open>Contexts\<close>

record hash_ctx =
  ctx_h :: "u32 list"
  ctx_len :: u64
  ctx_buf :: bytes
  ctx_n :: nat

type_synonym sha1_ctx = hash_ctx
type_synonym sha256_ctx = hash_ctx

section \<open>The block functions\<close>

definition rol32 :: "u32 \<Rightarrow> nat \<Rightarrow> u32" where
  "rol32 x k = push_bit k x OR drop_bit (32 - k) x"

definition ror32 :: "u32 \<Rightarrow> nat \<Rightarrow> u32" where
  "ror32 x k = drop_bit k x OR push_bit (32 - k) x"

definition be32 :: "u8 \<Rightarrow> u8 \<Rightarrow> u8 \<Rightarrow> u8 \<Rightarrow> u32" where
  "be32 a b c d = push_bit 24 (ucast a) OR push_bit 16 (ucast b) OR push_bit 8 (ucast c) OR ucast d"

definition block_words :: "bytes \<Rightarrow> u32 list" where
  "block_words p = map (\<lambda>i. be32 (p ! (i*4)) (p ! (i*4+1)) (p ! (i*4+2)) (p ! (i*4+3))) [0..<16]"

definition sha1_schedule :: "bytes \<Rightarrow> u32 list" where
  "sha1_schedule p =
     foldl (\<lambda>w i. w @ [rol32 (w ! (i-3) XOR w ! (i-8) XOR w ! (i-14) XOR w ! (i-16)) 1])
       (block_words p) [16..<80]"

text \<open>The working variables are called a, b, d, e, f in the source.\<close>

type_synonym sha1_vars = "u32 \<times> u32 \<times> u32 \<times> u32 \<times> u32"

definition sha1_round :: "u32 list \<Rightarrow> sha1_vars \<Rightarrow> nat \<Rightarrow> sha1_vars" where
  "sha1_round w = (\<lambda>(a, b, d, e, f) i.
     let (t, k) = (if i < 20 then ((b AND d) OR (NOT b AND e), 0x5A827999)
                   else if i < 40 then (b XOR d XOR e, 0x6ED9EBA1)
                   else if i < 60 then ((b AND d) OR (b AND e) OR (d AND e), 0x8F1BBCDC)
                   else (b XOR d XOR e, 0xCA62C1D6));
         tmp = rol32 a 5 + t + f + k + w ! i
     in (tmp, a, rol32 b 30, d, e))"

definition sha1_block :: "u32 list \<Rightarrow> bytes \<Rightarrow> u32 list" where
  "sha1_block hs p =
     (let w = sha1_schedule p;
          (a, b, d, e, f) = foldl (sha1_round w) (hs ! 0, hs ! 1, hs ! 2, hs ! 3, hs ! 4) [0..<80]
      in [hs ! 0 + a, hs ! 1 + b, hs ! 2 + d, hs ! 3 + e, hs ! 4 + f])"

definition K256 :: "u32 list" where
  "K256 =
     [0x428a2f98, 0x71374491, 0xb5c0fbcf, 0xe9b5dba5, 0x3956c25b, 0x59f111f1, 0x923f82a4, 0xab1c5ed5] @
     [0xd807aa98, 0x12835b01, 0x243185be, 0x550c7dc3, 0x72be5d74, 0x80deb1fe, 0x9bdc06a7, 0xc19bf174] @
     [0xe49b69c1, 0xefbe4786, 0x0fc19dc6, 0x240ca1cc, 0x2de92c6f, 0x4a7484aa, 0x5cb0a9dc, 0x76f988da] @
     [0x983e5152, 0xa831c66d, 0xb00327c8, 0xbf597fc7, 0xc6e00bf3, 0xd5a79147, 0x06ca6351, 0x14292967] @
     [0x27b70a85, 0x2e1b2138, 0x4d2c6dfc, 0x53380d13, 0x650a7354, 0x766a0abb, 0x81c2c92e, 0x92722c85] @
     [0xa2bfe8a1, 0xa81a664b, 0xc24b8b70, 0xc76c51a3, 0xd192e819, 0xd6990624, 0xf40e3585, 0x106aa070] @
     [0x19a4c116, 0x1e376c08, 0x2748774c, 0x34b0bcb5, 0x391c0cb3, 0x4ed8aa4a, 0x5b9cca4f, 0x682e6ff3] @
     [0x748f82ee, 0x78a5636f, 0x84c87814, 0x8cc70208, 0x90befffa, 0xa4506ceb, 0xbef9a3f7, 0xc67178f2]"

definition sha256_schedule :: "bytes \<Rightarrow> u32 list" where
  "sha256_schedule p =
     foldl (\<lambda>w i.
        let s0 = ror32 (w ! (i-15)) 7 XOR ror32 (w ! (i-15)) 18 XOR drop_bit 3 (w ! (i-15));
            s1 = ror32 (w ! (i-2)) 17 XOR ror32 (w ! (i-2)) 19 XOR drop_bit 10 (w ! (i-2))
        in w @ [w ! (i-16) + s0 + w ! (i-7) + s1])
       (block_words p) [16..<64]"

type_synonym sha256_vars = "u32 \<times> u32 \<times> u32 \<times> u32 \<times> u32 \<times> u32 \<times> u32 \<times> u32"

definition sha256_round :: "u32 list \<Rightarrow> sha256_vars \<Rightarrow> nat \<Rightarrow> sha256_vars" where
  "sha256_round w = (\<lambda>(a, b, c, d, e, f, g, hh) i.
     let S1 = ror32 e 6 XOR ror32 e 11 XOR ror32 e 25;
         ch = (e AND f) XOR (NOT e AND g);
         t1 = hh + S1 + ch + K256 ! i + w ! i;
         S0 = ror32 a 2 XOR ror32 a 13 XOR ror32 a 22;
         maj = (a AND b) XOR (a AND c) XOR (b AND c);
         t2 = S0 + maj
     in (t1 + t2, a, b, c, d + t1, e, f, g))"

definition sha256_block :: "u32 list \<Rightarrow> bytes \<Rightarrow> u32 list" where
  "sha256_block hs p =
     (let w = sha256_schedule p;
          (a, b, c, d, e, f, g, hh) = foldl (sha256_round w)
            (hs ! 0, hs ! 1, hs ! 2, hs ! 3, hs ! 4, hs ! 5, hs ! 6, hs ! 7) [0..<64]
      in [hs ! 0 + a, hs ! 1 + b, hs ! 2 + c, hs ! 3 + d,
          hs ! 4 + e, hs ! 5 + f, hs ! 6 + g, hs ! 7 + hh])"

section \<open>Streaming\<close>

text \<open>
  \<open>sha1_update\<close> and \<open>sha256_update\<close> are the same text but for the block function, and so are
  the two \<open>final\<close> functions but for the number of words they write; the common parts take the
  block function as an argument.
\<close>

definition load_buf :: "hash_ctx \<Rightarrow> bytes \<Rightarrow> hash_ctx" where
  "load_buf c p = c\<lparr>ctx_buf := take (ctx_n c) (ctx_buf c) @ p @ drop (ctx_n c + length p) (ctx_buf c),
     ctx_n := ctx_n c + length p\<rparr>"

definition flush_full :: "(u32 list \<Rightarrow> bytes \<Rightarrow> u32 list) \<Rightarrow> hash_ctx \<Rightarrow> hash_ctx" where
  "flush_full blk c =
     (if ctx_n c = 64 then c\<lparr>ctx_h := blk (ctx_h c) (ctx_buf c), ctx_n := 0\<rparr> else c)"

partial_function (option) update_loop ::
  "(u32 list \<Rightarrow> bytes \<Rightarrow> u32 list) \<Rightarrow> hash_ctx \<Rightarrow> bytes \<Rightarrow> hash_ctx option" where
  "update_loop blk c p =
     (if p = [] then Some c
      else let k = min (64 - ctx_n c) (length p)
           in update_loop blk (flush_full blk (load_buf c (take k p))) (drop k p))"

definition ctx_update ::
  "(u32 list \<Rightarrow> bytes \<Rightarrow> u32 list) \<Rightarrow> hash_ctx \<Rightarrow> bytes \<Rightarrow> hash_ctx option" where
  "ctx_update blk c p = update_loop blk (c\<lparr>ctx_len := ctx_len c + of_nat (length p) * 8\<rparr>) p"

definition sha1_update :: "sha1_ctx \<Rightarrow> bytes \<Rightarrow> sha1_ctx option" where
  "sha1_update = ctx_update sha1_block"

definition sha256_update :: "sha256_ctx \<Rightarrow> bytes \<Rightarrow> sha256_ctx option" where
  "sha256_update = ctx_update sha256_block"

text \<open>\<open>while (c->n != 56) sha1_update(c, &zero, 1)\<close>.\<close>

partial_function (option) pad_loop ::
  "(u32 list \<Rightarrow> bytes \<Rightarrow> u32 list) \<Rightarrow> hash_ctx \<Rightarrow> hash_ctx option" where
  "pad_loop blk c =
     (if ctx_n c = 56 then Some c
      else do { c' \<leftarrow> ctx_update blk c [0]; pad_loop blk c' })"

definition be64_bytes :: "u64 \<Rightarrow> bytes" where
  "be64_bytes bits = map (\<lambda>i. ucast (drop_bit (56 - i*8) bits)) [0..<8]"

definition be32_bytes :: "u32 \<Rightarrow> bytes" where
  "be32_bytes w = [ucast (drop_bit 24 w), ucast (drop_bit 16 w), ucast (drop_bit 8 w), ucast w]"

definition ctx_final ::
  "(u32 list \<Rightarrow> bytes \<Rightarrow> u32 list) \<Rightarrow> nat \<Rightarrow> hash_ctx \<Rightarrow> bytes option" where
  "ctx_final blk words c =
     (let bits = ctx_len c
      in do {
        c1 \<leftarrow> ctx_update blk c [0x80];
        c2 \<leftarrow> pad_loop blk c1;
        c3 \<leftarrow> ctx_update blk c2 (be64_bytes bits);
        Some (concat (map (\<lambda>i. be32_bytes (ctx_h c3 ! i)) [0..<words])) })"

text \<open>
  The C code leaves \<open>buf\<close> uninitialised; no byte of it is read before it is written (see
  \<open>absorbed\<close> below, which does not depend on it), so any 64 bytes stand for it.
\<close>

definition sha1_init :: sha1_ctx where
  "sha1_init = \<lparr>ctx_h = [0x67452301, 0xEFCDAB89, 0x98BADCFE, 0x10325476, 0xC3D2E1F0],
     ctx_len = 0, ctx_buf = replicate 64 0, ctx_n = 0\<rparr>"

definition sha256_init :: sha256_ctx where
  "sha256_init = \<lparr>ctx_h = [0x6a09e667, 0xbb67ae85, 0x3c6ef372, 0xa54ff53a,
       0x510e527f, 0x9b05688c, 0x1f83d9ab, 0x5be0cd19],
     ctx_len = 0, ctx_buf = replicate 64 0, ctx_n = 0\<rparr>"

definition sha1_final :: "sha1_ctx \<Rightarrow> bytes option" where
  "sha1_final = ctx_final sha1_block 5"

definition sha256_final :: "sha256_ctx \<Rightarrow> bytes option" where
  "sha256_final = ctx_final sha256_block 8"

definition sha1 :: "bytes \<Rightarrow> bytes option" where
  "sha1 data = do { c \<leftarrow> sha1_update sha1_init data; sha1_final c }"

definition sha256 :: "bytes \<Rightarrow> bytes option" where
  "sha256 data = do { c \<leftarrow> sha256_update sha256_init data; sha256_final c }"

section \<open>HMAC-SHA1\<close>

definition hmac_sha1 :: "bytes \<Rightarrow> bytes \<Rightarrow> bytes option" where
  "hmac_sha1 key msg = do {
     key' \<leftarrow> (if length key > 64 then sha1 key else Some key);
     let k = key' @ replicate (64 - length key') 0;
     let ipad = map (\<lambda>b. b XOR 0x36) k;
     let opad = map (\<lambda>b. b XOR 0x5c) k;
     c \<leftarrow> sha1_update sha1_init ipad;
     c \<leftarrow> sha1_update c msg;
     inner \<leftarrow> sha1_final c;
     c \<leftarrow> sha1_update sha1_init opad;
     c \<leftarrow> sha1_update c inner;
     sha1_final c }"


section \<open>What the contexts absorb\<close>

function absorb :: "(u32 list \<Rightarrow> bytes \<Rightarrow> u32 list) \<Rightarrow> u32 list \<Rightarrow> bytes \<Rightarrow> u32 list" where
  "absorb blk hs m = (if length m < 64 then hs else absorb blk (blk hs (take 64 m)) (drop 64 m))"
  by pat_completeness auto
termination by (relation "measure (\<lambda>(blk, hs, m). length m)") auto

declare absorb.simps [simp del]

definition left_over :: "bytes \<Rightarrow> bytes" where
  "left_over m = drop (64 * (length m div 64)) m"

lemma left_over_less: "length (left_over m) = length m mod 64"
  by (simp add: left_over_def minus_mult_div_eq_mod)

lemma left_over_short: "length m < 64 \<Longrightarrow> left_over m = m"
  by (simp add: left_over_def)

lemma left_over_step: "64 \<le> length m \<Longrightarrow> left_over m = left_over (drop 64 m)"
  by (simp add: left_over_def le_div_geq add.commute)

lemma absorb_append: "absorb blk hs (m @ p) = absorb blk (absorb blk hs m) (left_over m @ p)"
proof (induction blk hs m rule: absorb.induct)
  case (1 blk hs m)
  show ?case
  proof (cases "length m < 64")
    case True
    then show ?thesis by (simp add: absorb.simps [of _ _ m] left_over_short)
  next
    case False
    then have "absorb blk hs (m @ p) = absorb blk (blk hs (take 64 m)) (drop 64 m @ p)"
      by (subst absorb.simps) simp
    then show ?thesis
      using False 1 by (simp add: absorb.simps [of _ _ m] left_over_step [of m])
  qed
qed

lemma left_over_append: "left_over (m @ p) = left_over (left_over m @ p)"
proof (induction "length m" arbitrary: m rule: less_induct)
  case less
  show ?case
  proof (cases "length m < 64")
    case False
    then have "left_over (m @ p) = left_over (drop 64 m @ p)"
      using left_over_step [of "m @ p"] by simp
    then show ?thesis using less [of "drop 64 m"] False by (simp add: left_over_step [of m])
  qed (simp add: left_over_short)
qed

text \<open>The loop consumes its input and ends, from any context that is not full.\<close>

lemma update_loop_absorbs:
  assumes "ctx_n c < 64" "length (ctx_buf c) = 64"
  shows "\<exists>c'. update_loop blk c p = Some c' \<and> ctx_n c' < 64 \<and> length (ctx_buf c') = 64 \<and>
    ctx_len c' = ctx_len c \<and> ctx_h c' = absorb blk (ctx_h c) (take (ctx_n c) (ctx_buf c) @ p) \<and>
    take (ctx_n c') (ctx_buf c') = left_over (take (ctx_n c) (ctx_buf c) @ p)"
  using assms
proof (induction "length p" arbitrary: p c rule: less_induct)
  case less
  let ?pre = "take (ctx_n c) (ctx_buf c)"
  have pre: "length ?pre = ctx_n c" using less.prems by simp
  show ?case
  proof (cases "p = []")
    case True
    then show ?thesis
      using less.prems by (subst update_loop.simps) (simp add: absorb.simps left_over_short)
  next
    case False
    let ?k = "min (64 - ctx_n c) (length p)"
    let ?c = "flush_full blk (load_buf c (take ?k p))"
    have unf: "update_loop blk c p = update_loop blk ?c (drop ?k p)"
      using False by (subst update_loop.simps) (simp add: Let_def)
    have short: "length (drop ?k p) < length p" using False less.prems by (cases p) simp_all
    show ?thesis
    proof (cases "64 - ctx_n c \<le> length p")
      case True
      let ?j = "64 - ctx_n c"
      let ?d = "flush_full blk (load_buf c (take ?j p))"
      have k: "?k = ?j" using True by simp
      have d: "ctx_n ?d = 0" "length (ctx_buf ?d) = 64" "ctx_len ?d = ctx_len c"
          "ctx_h ?d = blk (ctx_h c) (?pre @ take ?j p)"
        using less.prems True by (simp_all add: flush_full_def load_buf_def min_def)
      have "absorb blk (ctx_h c) (?pre @ p) = absorb blk (ctx_h ?d) (drop ?j p)"
        using less.prems True unfolding d(4) by (subst absorb.simps) auto
      moreover have "left_over (?pre @ p) = left_over (drop ?j p)"
        using less.prems True left_over_step [of "?pre @ p"] by simp
      ultimately show ?thesis
        using less.hyps [OF short, of ?c] d unfolding unf k by simp
    next
      case False
      then have k: "?k = length p" and s: "length (?pre @ p) < 64" using less.prems by simp_all
      then have "update_loop blk c p = Some ?c"
        unfolding unf by (subst update_loop.simps) simp
      moreover have "?c = load_buf c p" using s pre k by (simp add: flush_full_def load_buf_def)
      moreover have "take (ctx_n c + length p) (?pre @ p @ z) = ?pre @ p" for z
        using less.prems by simp
      ultimately show ?thesis
        using less.prems s by (simp add: load_buf_def absorb.simps left_over_short)
    qed
  qed
qed

text \<open>A context that has absorbed the message \<open>m\<close>, from the chaining value \<open>hs\<close> on.\<close>

definition absorbed ::
  "(u32 list \<Rightarrow> bytes \<Rightarrow> u32 list) \<Rightarrow> u32 list \<Rightarrow> hash_ctx \<Rightarrow> bytes \<Rightarrow> bool" where
  "absorbed blk hs c m \<longleftrightarrow> ctx_n c < 64 \<and> length (ctx_buf c) = 64 \<and>
     ctx_len c = of_nat (length m) * 8 \<and> ctx_h c = absorb blk hs m \<and>
     take (ctx_n c) (ctx_buf c) = left_over m"

lemma absorbed_n: "absorbed blk hs c m \<Longrightarrow> ctx_n c = length m mod 64"
  using left_over_less [of m] by (auto simp: absorbed_def dest!: arg_cong [where f = length])

lemma update_absorbed:
  assumes "absorbed blk hs c m"
  obtains c' where "ctx_update blk c p = Some c'" "absorbed blk hs c' (m @ p)"
proof -
  have "ctx_n c < 64" "length (ctx_buf c) = 64" using assms by (simp_all add: absorbed_def)
  with update_loop_absorbs [of "c\<lparr>ctx_len := ctx_len c + of_nat (length p) * 8\<rparr>" blk p]
  show thesis
    using assms that
    by (auto simp: ctx_update_def absorbed_def absorb_append [of _ _ m] left_over_append [of m]
        algebra_simps)
qed

text \<open>How many zero bytes bring the fill level to 56.\<close>

definition pad_zeros :: "nat \<Rightarrow> nat" where
  "pad_zeros l = (if l mod 64 \<le> 56 then 56 - l mod 64 else 120 - l mod 64)"

lemma pad_zeros_0: "pad_zeros l = 0 \<longleftrightarrow> l mod 64 = 56"
proof -
  have "l mod 64 < 64" by simp
  then show ?thesis by (auto simp: pad_zeros_def)
qed

lemma pad_zeros_Suc: "l mod 64 \<noteq> 56 \<Longrightarrow> pad_zeros l = Suc (pad_zeros (Suc l))"
proof -
  have "l mod 64 < 64" by simp
  then show "l mod 64 \<noteq> 56 \<Longrightarrow> ?thesis" by (auto simp: pad_zeros_def mod_Suc)
qed

lemma pad_loop_absorbed:
  assumes "absorbed blk hs c m"
  shows "\<exists>c'. pad_loop blk c = Some c' \<and> absorbed blk hs c' (m @ replicate (pad_zeros (length m)) 0)"
  using assms
proof (induction "pad_zeros (length m)" arbitrary: c m)
  case 0
  then have "ctx_n c = 56" using absorbed_n [OF 0(2)] pad_zeros_0 [of "length m"] by simp
  then show ?case using 0 by (subst pad_loop.simps) simp
next
  case (Suc k)
  obtain c' where c': "ctx_update blk c [0] = Some c'" "absorbed blk hs c' (m @ [0])"
    using update_absorbed [OF Suc.prems] .
  have ne: "length m mod 64 \<noteq> 56" using Suc(2) pad_zeros_0 [of "length m"] by simp
  have k: "k = pad_zeros (length (m @ [0]))" using pad_zeros_Suc [OF ne] Suc(2) by simp
  have z: "replicate (pad_zeros (length m)) 0 = [0] @ replicate k (0 :: u8)"
    by (simp flip: Suc.hyps(2))
  have "pad_loop blk c = pad_loop blk c'"
    using ne absorbed_n [OF Suc.prems] c'(1) by (subst pad_loop.simps) simp
  then show ?case
    using Suc.hyps(1) [OF k c'(2)] k unfolding z by simp
qed

text \<open>The padded message of the two standards.\<close>

definition sha_pad :: "bytes \<Rightarrow> bytes" where
  "sha_pad m = m @ [0x80] @ replicate (pad_zeros (Suc (length m))) 0 @ be64_bytes (of_nat (length m) * 8)"

lemma length_be64_bytes [simp]: "length (be64_bytes w) = 8"
  by (simp add: be64_bytes_def)

lemma pad_zeros_fill: "(l + pad_zeros l) mod 64 = 56"
proof -
  have "l mod 64 < 64" by simp
  then have "(l mod 64 + pad_zeros l) mod 64 = 56" by (auto simp: pad_zeros_def)
  then show ?thesis by (simp add: mod_add_left_eq)
qed

lemma length_sha_pad: "64 dvd length (sha_pad m)"
proof -
  have "(Suc (length m) + pad_zeros (Suc (length m)) + 8) mod 64 = (56 + 8) mod 64"
    by (metis mod_add_left_eq pad_zeros_fill)
  then show ?thesis by (simp add: sha_pad_def dvd_eq_mod_eq_0 add.commute add.left_commute)
qed

definition sha_spec ::
  "(u32 list \<Rightarrow> bytes \<Rightarrow> u32 list) \<Rightarrow> nat \<Rightarrow> u32 list \<Rightarrow> bytes \<Rightarrow> bytes" where
  "sha_spec blk words hs m = concat (map (\<lambda>i. be32_bytes (absorb blk hs (sha_pad m) ! i)) [0..<words])"

lemma ctx_final_absorbed:
  assumes "absorbed blk hs c m"
  shows "ctx_final blk words c = Some (sha_spec blk words hs m)"
proof -
  obtain c1 where c1: "ctx_update blk c [0x80] = Some c1" "absorbed blk hs c1 (m @ [0x80])"
    using update_absorbed [OF assms] .
  obtain c2 where c2: "pad_loop blk c1 = Some c2"
      "absorbed blk hs c2 ((m @ [0x80]) @ replicate (pad_zeros (Suc (length m))) 0)"
    using pad_loop_absorbed [OF c1(2)] by auto
  obtain c3 where c3: "ctx_update blk c2 (be64_bytes (ctx_len c)) = Some c3"
      "absorbed blk hs c3 (((m @ [0x80]) @ replicate (pad_zeros (Suc (length m))) 0) @ be64_bytes (ctx_len c))"
    using update_absorbed [OF c2(2)] .
  have "ctx_h c3 = absorb blk hs (sha_pad m)"
    using c3(2) assms by (simp add: absorbed_def sha_pad_def)
  then show ?thesis by (simp add: ctx_final_def Let_def c1(1) c2(1) c3(1) sha_spec_def)
qed

section \<open>The streaming interface\<close>

text \<open>
  What a user of a streaming hash relies on: contexts stand for the message absorbed so far,
  updates return and append to it, and the digest depends on the whole message only.
\<close>

locale stream_hash =
  fixes init :: 'c
    and upd :: "'c \<Rightarrow> bytes \<Rightarrow> 'c option"
    and fin :: "'c \<Rightarrow> bytes option"
    and holds :: "'c \<Rightarrow> bytes \<Rightarrow> bool"
    and digest :: "bytes \<Rightarrow> bytes"
  assumes init_holds: "holds init []"
    and upd_holds: "holds c m \<Longrightarrow> \<exists>c'. upd c p = Some c' \<and> holds c' (m @ p)"
    and fin_digest: "holds c m \<Longrightarrow> fin c = Some (digest m)"
begin

lemma one_piece: "upd init p \<bind> fin = Some (digest p)"
  using upd_holds [OF init_holds, of p] by (auto simp: fin_digest)

lemma two_pieces: "do { c \<leftarrow> upd init p; c \<leftarrow> upd c q; fin c } = Some (digest (p @ q))"
proof -
  obtain c where c: "upd init p = Some c" "holds c p" using upd_holds [OF init_holds, of p] by auto
  obtain c' where "upd c q = Some c'" "holds c' (p @ q)" using upd_holds [OF c(2), of q] by auto
  then show ?thesis by (simp add: c fin_digest)
qed

text \<open>However the message is cut, the digest is that of the whole.\<close>

fun feed :: "'c \<Rightarrow> bytes list \<Rightarrow> 'c option" where
  "feed c [] = Some c"
| "feed c (p # ps) = upd c p \<bind> (\<lambda>c. feed c ps)"

lemma feed_holds: "holds c m \<Longrightarrow> \<exists>c'. feed c ps = Some c' \<and> holds c' (m @ concat ps)"
proof (induction ps arbitrary: c m)
  case (Cons p ps)
  obtain c' where "upd c p = Some c'" "holds c' (m @ p)" using upd_holds [OF Cons.prems] by auto
  then show ?case using Cons.IH [of c' "m @ p"] by simp
qed simp

lemma any_pieces: "feed init ps \<bind> fin = Some (digest (concat ps))"
  using feed_holds [OF init_holds, of ps] by (auto simp: fin_digest)

end

definition sha1_spec :: "bytes \<Rightarrow> bytes" where
  "sha1_spec = sha_spec sha1_block 5 (ctx_h sha1_init)"

definition sha256_spec :: "bytes \<Rightarrow> bytes" where
  "sha256_spec = sha_spec sha256_block 8 (ctx_h sha256_init)"

interpretation sha1_stream: stream_hash sha1_init sha1_update sha1_final
  "absorbed sha1_block (ctx_h sha1_init)" sha1_spec
proof unfold_locales
  show "absorbed sha1_block (ctx_h sha1_init) sha1_init []"
    by (simp add: absorbed_def sha1_init_def absorb.simps left_over_def)
  show "\<exists>c'. sha1_update c p = Some c' \<and> absorbed sha1_block (ctx_h sha1_init) c' (m @ p)"
    if "absorbed sha1_block (ctx_h sha1_init) c m" for c m p
    using update_absorbed [OF that, of p] by (auto simp: sha1_update_def)
  show "sha1_final c = Some (sha1_spec m)"
    if "absorbed sha1_block (ctx_h sha1_init) c m" for c m
    using ctx_final_absorbed [OF that] by (simp add: sha1_final_def sha1_spec_def)
qed

interpretation sha256_stream: stream_hash sha256_init sha256_update sha256_final
  "absorbed sha256_block (ctx_h sha256_init)" sha256_spec
proof unfold_locales
  show "absorbed sha256_block (ctx_h sha256_init) sha256_init []"
    by (simp add: absorbed_def sha256_init_def absorb.simps left_over_def)
  show "\<exists>c'. sha256_update c p = Some c' \<and> absorbed sha256_block (ctx_h sha256_init) c' (m @ p)"
    if "absorbed sha256_block (ctx_h sha256_init) c m" for c m p
    using update_absorbed [OF that, of p] by (auto simp: sha256_update_def)
  show "sha256_final c = Some (sha256_spec m)"
    if "absorbed sha256_block (ctx_h sha256_init) c m" for c m
    using ctx_final_absorbed [OF that] by (simp add: sha256_final_def sha256_spec_def)
qed

lemma sha1_eq: "sha1 data = Some (sha1_spec data)"
  using sha1_stream.one_piece [of data] by (simp add: sha1_def)

lemma sha256_eq: "sha256 data = Some (sha256_spec data)"
  using sha256_stream.one_piece [of data] by (simp add: sha256_def)

text \<open>The standard construction: an inner and an outer digest under the padded key.\<close>

definition hmac_key :: "bytes \<Rightarrow> bytes" where
  "hmac_key key = (let k = (if length key > 64 then sha1_spec key else key)
     in k @ replicate (64 - length k) 0)"

definition hmac_sha1_spec :: "bytes \<Rightarrow> bytes \<Rightarrow> bytes" where
  "hmac_sha1_spec key msg =
     sha1_spec (map (\<lambda>b. b XOR 0x5c) (hmac_key key) @
       sha1_spec (map (\<lambda>b. b XOR 0x36) (hmac_key key) @ msg))"

lemma hmac_sha1_eq: "hmac_sha1 key msg = Some (hmac_sha1_spec key msg)"
proof -
  let ?k = "hmac_key key"
  let ?i = "map (\<lambda>b. b XOR 0x36) ?k" and ?o = "map (\<lambda>b. b XOR 0x5c) ?k"
  let ?inner = "sha1_spec (?i @ msg)"
  have two: "sha1_update sha1_init p \<bind> (\<lambda>c. sha1_update c q \<bind> (\<lambda>c. sha1_final c \<bind> f)) =
      f (sha1_spec (p @ q))" for p q and f :: "bytes \<Rightarrow> bytes option"
    using arg_cong [OF sha1_stream.two_pieces [of p q], of "\<lambda>r. r \<bind> f"] by simp
  have "hmac_sha1 key msg =
     sha1_update sha1_init ?i \<bind> (\<lambda>c. sha1_update c msg \<bind> (\<lambda>c. sha1_final c \<bind> (\<lambda>inner.
       sha1_update sha1_init ?o \<bind> (\<lambda>c. sha1_update c inner \<bind> sha1_final))))"
    by (simp add: hmac_sha1_def sha1_eq hmac_key_def Let_def)
  also have "\<dots> = Some (hmac_sha1_spec key msg)"
    unfolding two sha1_stream.two_pieces hmac_sha1_spec_def ..
  finally show ?thesis .
qed

lemma length_sha1_spec [simp, array_len]: "length (sha1_spec m) = 20"
  by (simp add: sha1_spec_def sha_spec_def be32_bytes_def upt_literal)

lemma length_sha256_spec [simp, array_len]: "length (sha256_spec m) = 32"
  by (simp add: sha256_spec_def sha_spec_def be32_bytes_def upt_literal)

lemma length_hmac_sha1_spec [simp, array_len]: "length (hmac_sha1_spec k m) = 20"
  by (simp add: hmac_sha1_spec_def)

section \<open>Properties\<close>

text \<open>
  C34: \<open>sha1\<close> and \<open>sha256\<close> return for every input: the digest is the block function folded
  over the message padded to whole blocks with 0x80, zeros and the 64-bit length.
\<close>

theorem sha_refines_padded_blocks:
  "sha1 data = Some (concat (map (\<lambda>i. be32_bytes (absorb sha1_block (ctx_h sha1_init) (sha_pad data) ! i)) [0..<5])) \<and>
   sha256 data = Some (concat (map (\<lambda>i. be32_bytes (absorb sha256_block (ctx_h sha256_init) (sha_pad data) ! i)) [0..<8])) \<and>
   64 dvd length (sha_pad data)"
  by (simp only: sha1_eq sha256_eq sha1_spec_def sha256_spec_def sha_spec_def length_sha_pad simp_thms)

text \<open>
  \<open>hmac_sha1\<close> returns for every key and message, the outer digest of the padded key over
  the inner one, where a key longer than a block is replaced by its own digest.
\<close>

theorem hmac_sha1_construction:
  "\<exists>k. length k = 64 \<and>
     (if length key \<le> 64 then k = key @ replicate (64 - length key) 0
      else \<exists>d. sha1 key = Some d \<and> k = d @ replicate 44 0) \<and>
     hmac_sha1 key msg =
       (do { inner \<leftarrow> sha1 (map (\<lambda>b. b XOR 0x36) k @ msg); sha1 (map (\<lambda>b. b XOR 0x5c) k @ inner) })"
  by (rule exI [of _ "hmac_key key"]) (simp add: hmac_sha1_eq sha1_eq hmac_sha1_spec_def hmac_key_def Let_def)

end
