(* ===== verification/C_Text.thy ===== *)
theory C_Text
  imports Complex_Main Prelude
begin

text \<open>
  The parts of the C library's text functions that the CC-CC control channel uses: strings as
  lists of characters without their terminator, the numeric conversions of \<open>printf\<close>, and
  \<open>strtoul\<close>, \<open>atoi\<close>, \<open>strstr\<close> and the \<open>%s\<close> and \<open>%d\<close> conversions of \<open>sscanf\<close>.
  \<open>long\<close> and \<open>unsigned long\<close> have 64 bits and \<open>int\<close> 32.
\<close>

section \<open>Characters and C strings\<close>

definition byte_char :: "u8 \<Rightarrow> char" where
  "byte_char b = char_of (unat b)"

definition char_byte :: "char \<Rightarrow> u8" where
  "char_byte c = of_nat (of_char c)"

text \<open>What a buffer holds as a C string: everything before its first NUL.\<close>

definition cstr :: "string \<Rightarrow> string" where
  "cstr s = takeWhile (\<lambda>c. c \<noteq> CHR 0x00) s"

definition is_space :: "char \<Rightarrow> bool" where
  "is_space c \<longleftrightarrow> c = CHR '' '' \<or> c \<in> {CHR 0x09, CHR 0x0A, CHR 0x0B, CHR 0x0C, CHR 0x0D}"

definition to_upper :: "char \<Rightarrow> char" where
  "to_upper c = (if 97 \<le> (of_char c :: nat) \<and> (of_char c :: nat) \<le> 122 then char_of (of_char c - 32 :: nat) else c)"

text \<open>\<open>strstr\<close>: the suffix of the first argument from the first occurrence of the second on.\<close>

fun strstr :: "string \<Rightarrow> string \<Rightarrow> string option" where
  "strstr [] pat = (if pat = [] then Some [] else None)"
| "strstr (c # s) pat = (if take (length pat) (c # s) = pat then Some (c # s) else strstr s pat)"

section \<open>Digits\<close>

definition digit_char :: "nat \<Rightarrow> char" where
  "digit_char d = char_of (if d < 10 then 48 + d else 87 + d)"

definition digit_value :: "char \<Rightarrow> nat option" where
  "digit_value c =
     (let k = of_char c in
      if 48 \<le> k \<and> k \<le> 57 then Some (k - 48)
      else if 97 \<le> k \<and> k \<le> 122 then Some (k - 87)
      else if 65 \<le> k \<and> k \<le> 90 then Some (k - 55)
      else None)"

definition is_digit :: "nat \<Rightarrow> char \<Rightarrow> bool" where
  "is_digit base c = (case digit_value c of Some d \<Rightarrow> d < base | None \<Rightarrow> False)"

definition digits_value :: "nat \<Rightarrow> string \<Rightarrow> nat" where
  "digits_value base ds = foldl (\<lambda>v c. base * v + (case digit_value c of Some d \<Rightarrow> d | None \<Rightarrow> 0)) 0 ds"

text \<open>The digits of a number, most significant first; the base is at least 2.\<close>

function show_nat :: "nat \<Rightarrow> nat \<Rightarrow> string" where
  "show_nat base n =
     (if n < base \<or> base < 2 then [digit_char n] else show_nat base (n div base) @ [digit_char (n mod base)])"
  by pat_completeness auto
termination by (relation "measure snd") auto

declare show_nat.simps [simp del]

section \<open>printf conversions\<close>

definition fmt_u :: "u32 \<Rightarrow> string" where
  "fmt_u v = show_nat 10 (unat v)"

definition fmt_x :: "u32 \<Rightarrow> string" where
  "fmt_x v = show_nat 16 (unat v)"

definition fmt_d :: "int \<Rightarrow> string" where
  "fmt_d i = (if i < 0 then CHR ''-'' # show_nat 10 (nat (- i)) else show_nat 10 (nat i))"

text \<open>\<open>%0wd\<close>: zeros after the sign up to a width of \<open>w\<close>.\<close>

definition fmt_0d :: "nat \<Rightarrow> int \<Rightarrow> string" where
  "fmt_0d w i =
     (let ds = show_nat 10 (nat \<bar>i\<bar>); sg = (if i < 0 then ''-'' else [])
      in sg @ replicate (w - length sg - length ds) (CHR ''0'') @ ds)"

text \<open>\<open>%.0f\<close>: rounded to the nearest integer, ties to the even one.\<close>

definition round_half_even :: "rat \<Rightarrow> int" where
  "round_half_even x =
     (let f = \<lfloor>x\<rfloor>; r = x - of_int f
      in if r < 1 / 2 then f else if r > 1 / 2 then f + 1 else if even f then f else f + 1)"

definition fmt_f0 :: "rat \<Rightarrow> string" where
  "fmt_f0 x = (if x < 0 then ''-'' else []) @ show_nat 10 (nat (round_half_even \<bar>x\<bar>))"

section \<open>strtoul and atoi\<close>

text \<open>An optional sign: whether it was a minus, and what follows.\<close>

definition take_sign :: "string \<Rightarrow> bool \<times> string" where
  "take_sign s =
     (case s of
        [] \<Rightarrow> (False, [])
      | c # r \<Rightarrow> if c = CHR ''-'' then (True, r) else if c = CHR ''+'' then (False, r) else (False, s))"

definition skip_0x :: "nat \<Rightarrow> string \<Rightarrow> string" where
  "skip_0x base s =
     (case s of
        a # x # d # r \<Rightarrow>
          if base = 16 \<and> a = CHR ''0'' \<and> (x = CHR ''x'' \<or> x = CHR ''X'') \<and> is_digit 16 d then d # r else s
      | _ \<Rightarrow> s)"

definition strtoul :: "nat \<Rightarrow> string \<Rightarrow> u64" where
  "strtoul base s =
     (let (neg, r) = take_sign (dropWhile is_space s);
          v = digits_value base (takeWhile (is_digit base) (skip_0x base r))
      in if v \<ge> 2 ^ 64 then - 1 else if neg then - of_nat v else of_nat v)"

text \<open>\<open>strtol\<close> with base 10: the value clamped to the range of \<open>long\<close>, and the rest.\<close>

definition strtol10 :: "string \<Rightarrow> int \<times> string" where
  "strtol10 s =
     (let (neg, r) = take_sign (dropWhile is_space s);
          ds = takeWhile (is_digit 10) r;
          v = int (digits_value 10 ds)
      in (if neg then max (- (2 ^ 63)) (- v) else min (2 ^ 63 - 1) v, drop (length ds) r))"

definition to_int32 :: "int \<Rightarrow> int" where
  "to_int32 i = (let m = i mod 2 ^ 32 in if m < 2 ^ 31 then m else m - 2 ^ 32)"

definition atoi :: "string \<Rightarrow> int" where
  "atoi s = to_int32 (fst (strtol10 s))"

section \<open>sscanf conversions\<close>

text \<open>\<open>%ns\<close>: a nonempty run of at most \<open>n\<close> characters that are not spaces.\<close>

definition scan_word :: "nat \<Rightarrow> string \<Rightarrow> (string \<times> string) option" where
  "scan_word n s =
     (let r = dropWhile is_space s;
          w = take n (takeWhile (\<lambda>c. \<not> is_space c) r)
      in if w = [] then None else Some (w, drop (length w) r))"

text \<open>\<open>%d\<close>: needs a digit after the optional sign.\<close>

definition scan_int :: "string \<Rightarrow> (int \<times> string) option" where
  "scan_int s =
     (let r = snd (take_sign (dropWhile is_space s))
      in case r of
           [] \<Rightarrow> None
         | c # _ \<Rightarrow> if is_digit 10 c then (let (v, r') = strtol10 s in Some (to_int32 v, r')) else None)"

section \<open>Printing and reading back\<close>

lemma digit_value_char: "d < 16 \<Longrightarrow> digit_value (digit_char d) = Some d"
  by (auto simp: digit_value_def digit_char_def Let_def)

lemma is_digit_char: "d < base \<Longrightarrow> base \<le> 16 \<Longrightarrow> is_digit base (digit_char d)"
  by (simp add: is_digit_def digit_value_char)

lemma digits_value_snoc:
  "digits_value base (ds @ [c]) = base * digits_value base ds + (case digit_value c of Some d \<Rightarrow> d | None \<Rightarrow> 0)"
  by (simp add: digits_value_def)


lemma digits_value_show:
  assumes "2 \<le> base" "base \<le> 16"
  shows "digits_value base (show_nat base n) = n"
proof (induction n rule: less_induct)
  case (less n)
  show ?case
  proof (cases "n < base")
    case True
    then show ?thesis
      using assms by (subst show_nat.simps) (simp add: digits_value_def digit_value_char)
  next
    case False
    have "digits_value base (show_nat base (n div base)) = n div base"
      using False assms by (intro less) simp
    moreover have "n mod base < 16" proof -
      have "n mod base < base" using assms by simp
      then show ?thesis using assms(2) by simp
    qed
    ultimately show ?thesis
      using False assms by (subst show_nat.simps) (simp add: digits_value_snoc digit_value_char)
  qed
qed

lemma all_digits_show:
  assumes "2 \<le> base" "base \<le> 16"
  shows "\<forall>c \<in> set (show_nat base n). is_digit base c"
proof (induction n rule: less_induct)
  case (less n)
  show ?case
  proof (cases "n < base")
    case True
    then show ?thesis using assms by (subst show_nat.simps) (simp add: is_digit_char)
  next
    case False
    have "\<forall>c \<in> set (show_nat base (n div base)). is_digit base c"
      using False assms by (intro less) simp
    moreover have "n mod base < base" using assms by simp
    ultimately show ?thesis
      using False assms by (subst show_nat.simps) (auto simp: is_digit_char)
  qed
qed

lemma show_nat_nonempty [simp]: "show_nat base n \<noteq> []"
  by (subst show_nat.simps) simp

lemma length_show_nat:
  assumes "2 \<le> base" "n < base ^ k" "0 < k"
  shows "length (show_nat base n) \<le> k"
  using assms(2,3)
proof (induction k arbitrary: n)
  case (Suc k)
  show ?case
  proof (cases "n < base")
    case True
    then show ?thesis by (subst show_nat.simps) simp
  next
    case False
    then have "0 < k" using Suc.prems by (cases k) simp_all
    moreover have "n div base < base ^ k" using Suc.prems assms(1) by (simp add: less_mult_imp_div_less mult.commute)
    ultimately show ?thesis using False assms(1) Suc.IH by (subst show_nat.simps) simp
  qed
qed simp

text \<open>A digit is neither a space, a sign nor an x.\<close>

lemma digit_not_space: "is_digit base c \<Longrightarrow> \<not> is_space c"
  by (auto simp: is_space_def is_digit_def digit_value_def Let_def)

lemma digit_not_sign: "is_digit base c \<Longrightarrow> c \<noteq> CHR ''-'' \<and> c \<noteq> CHR ''+''"
  by (auto simp: is_digit_def digit_value_def Let_def)

lemma not_digit_x: "is_digit 16 c \<Longrightarrow> c \<noteq> CHR ''x'' \<and> c \<noteq> CHR ''X''"
  by (auto simp: is_digit_def digit_value_def Let_def)

lemma takeWhile_stop: "\<forall>c \<in> set ds. P c \<Longrightarrow> rest = [] \<or> \<not> P (hd rest) \<Longrightarrow> takeWhile P (ds @ rest) = ds"
  by (induction ds; cases rest) simp_all

lemma skip_0x_digits:
  assumes "\<forall>c \<in> set ds. is_digit base c" "ds \<noteq> []" "base \<le> 16"
    and "rest = [] \<or> hd rest \<noteq> CHR ''x'' \<and> hd rest \<noteq> CHR ''X''"
  shows "skip_0x base (ds @ rest) = ds @ rest"
proof (cases ds)
  case (Cons a ds')
  show ?thesis
  proof (cases ds')
    case Nil
    then show ?thesis using Cons assms by (cases rest) (auto simp: skip_0x_def split: list.splits)
  next
    case (Cons b ds'')
    then have "base = 16 \<Longrightarrow> b \<noteq> CHR ''x'' \<and> b \<noteq> CHR ''X''" using assms(1) \<open>ds = a # ds'\<close> not_digit_x by simp
    then show ?thesis using Cons \<open>ds = a # ds'\<close> by (auto simp: skip_0x_def split: list.splits)
  qed
qed (use assms in simp)

lemma leading_digits:
  assumes "\<forall>c \<in> set ds. is_digit base c" "ds \<noteq> []"
  shows "dropWhile is_space (ds @ rest) = ds @ rest" "take_sign (ds @ rest) = (False, ds @ rest)"
  using assms digit_not_space digit_not_sign by (cases ds; fastforce simp: take_sign_def)+

lemma strtoul_show:
  assumes "base = 10 \<or> base = 16" "rest = [] \<or> is_space (hd rest)" "n < 2 ^ 64"
  shows "strtoul base (show_nat base n @ rest) = of_nat n"
proof -
  have b: "2 \<le> base" "base \<le> 16" using assms(1) by auto
  note ds = all_digits_show [OF b, of n]
  have "rest = [] \<or> \<not> is_digit base (hd rest)" using assms(2) digit_not_space by auto
  then have "takeWhile (is_digit base) (show_nat base n @ rest) = show_nat base n"
    using ds by (intro takeWhile_stop)
  moreover have "rest = [] \<or> hd rest \<noteq> CHR ''x'' \<and> hd rest \<noteq> CHR ''X''"
    using assms(2) by (auto simp: is_space_def)
  ultimately show ?thesis
    using assms(3) b
    by (simp add: strtoul_def Let_def leading_digits [OF ds] skip_0x_digits [OF ds] digits_value_show)
qed

lemma atoi_digits:
  assumes "\<forall>c \<in> set ds. is_digit 10 c" "ds \<noteq> []" "rest = [] \<or> \<not> is_digit 10 (hd rest)"
    and "digits_value 10 ds < 2 ^ 31"
  shows "atoi (ds @ rest) = int (digits_value 10 ds)"
proof -
  have "takeWhile (is_digit 10) (ds @ rest) = ds" using assms(1,3) by (rule takeWhile_stop)
  then show ?thesis
    using assms(4)
    by (simp add: atoi_def strtol10_def Let_def leading_digits [OF assms(1,2)] to_int32_def)
qed

lemma atoi_show: "n < 2 ^ 31 \<Longrightarrow> atoi (show_nat 10 n) = int n"
  using atoi_digits [of "show_nat 10 n" "[]"] all_digits_show [of 10 n] by (simp add: digits_value_show)

text \<open>Leading zeros change nothing.\<close>

lemma digits_value_zeros: "digits_value base (replicate k (CHR ''0'') @ ds) = digits_value base ds"
proof (induction k)
  case (Suc k)
  have "digits_value base (CHR ''0'' # xs) = digits_value base xs" for xs
    by (simp add: digits_value_def digit_value_def)
  then show ?case using Suc by simp
qed simp

lemma fmt_0d_digits:
  assumes "0 \<le> i"
  shows "\<forall>c \<in> set (fmt_0d w i). is_digit 10 c" "digits_value 10 (fmt_0d w i) = nat i" "fmt_0d w i \<noteq> []"
proof -
  have z: "is_digit 10 (CHR ''0'')" by (simp add: is_digit_def digit_value_def)
  show "\<forall>c \<in> set (fmt_0d w i). is_digit 10 c"
    using assms z all_digits_show [of 10 "nat i"] by (auto simp: fmt_0d_def Let_def)
  show "digits_value 10 (fmt_0d w i) = nat i"
    using assms by (simp add: fmt_0d_def Let_def digits_value_zeros digits_value_show)
  show "fmt_0d w i \<noteq> []" by (simp add: fmt_0d_def Let_def)
qed

lemma length_fmt_0d:
  assumes "0 \<le> i" "i < 10 ^ w" "0 < w"
  shows "length (fmt_0d w i) = w"
proof -
  have "nat i < 10 ^ w" using assms by (simp add: nat_less_iff)
  then have "length (show_nat 10 (nat i)) \<le> w" using assms(3) by (intro length_show_nat) simp_all
  then show ?thesis using assms(1) by (simp add: fmt_0d_def Let_def)
qed

lemma length_fmt_0d_le:
  assumes "\<bar>i\<bar> < 10 ^ k" "0 < k" "w \<le> k"
  shows "length (fmt_0d w i) \<le> Suc k"
proof -
  have "nat \<bar>i\<bar> < 10 ^ k" using assms(1) by (simp add: nat_less_iff)
  then have "length (show_nat 10 (nat \<bar>i\<bar>)) \<le> k" using assms(2) by (intro length_show_nat) simp_all
  then show ?thesis using assms(3) by (auto simp: fmt_0d_def Let_def)
qed

lemma length_fmt_u: "length (fmt_u v) \<le> 10"
  unfolding fmt_u_def using unat_u32_less [of v] by (intro length_show_nat) simp_all

lemma length_fmt_x: "length (fmt_x v) \<le> 8"
  unfolding fmt_x_def using unat_u32_less [of v] by (intro length_show_nat) simp_all

lemma fmt_u_digits: "\<forall>c \<in> set (fmt_u v). is_digit 10 c" "fmt_u v \<noteq> []"
  by (simp_all add: fmt_u_def all_digits_show)

section \<open>Scanning\<close>

lemma digit_not_letter: "is_digit 10 c \<Longrightarrow> c \<noteq> CHR ''B'' \<and> c \<noteq> CHR ''L'' \<and> c \<noteq> CHR 0x00"
  by (auto simp: is_digit_def digit_value_def Let_def)

lemma strstr_skip:
  "pat \<noteq> [] \<Longrightarrow> \<forall>c \<in> set pre. c \<noteq> hd pat \<Longrightarrow> strstr (pre @ s) pat = strstr s pat"
  by (induction pre) (auto simp: neq_Nil_conv)

lemma strstr_here: "take (length pat) s = pat \<Longrightarrow> strstr s pat = Some s"
  by (cases s) auto

lemma scan_word_here:
  assumes "\<forall>c \<in> set w. \<not> is_space c" "w \<noteq> []" "length w \<le> n" "r = [] \<or> is_space (hd r)"
  shows "scan_word n (w @ r) = Some (w, r)"
proof -
  have "dropWhile is_space (w @ r) = w @ r" using assms(1,2) by (cases w) simp_all
  moreover have "takeWhile (\<lambda>c. \<not> is_space c) (w @ r) = w"
    using assms(1,4) by (intro takeWhile_stop) auto
  moreover have "0 < n" using assms(2,3) by (cases w) simp_all
  ultimately show ?thesis using assms(2,3) by (simp add: scan_word_def Let_def)
qed

lemma scan_word_space: "is_space c \<Longrightarrow> scan_word n (c # s) = scan_word n s"
  by (simp add: scan_word_def)

lemma scan_int_digits:
  assumes "\<forall>c \<in> set ds. is_digit 10 c" "ds \<noteq> []" "rest = [] \<or> \<not> is_digit 10 (hd rest)"
    and "digits_value 10 ds < 2 ^ 31"
  shows "scan_int (ds @ rest) = Some (int (digits_value 10 ds), rest)"
proof -
  have "takeWhile (is_digit 10) (ds @ rest) = ds" using assms(1,3) by (rule takeWhile_stop)
  then have "strtol10 (ds @ rest) = (int (digits_value 10 ds), rest)"
    using assms(4) by (simp add: strtol10_def Let_def leading_digits [OF assms(1,2)])
  moreover obtain c ds' where "ds = c # ds'" "is_digit 10 c" using assms(1,2) by (cases ds) simp_all
  moreover have "snd (take_sign (dropWhile is_space (ds @ rest))) = ds @ rest"
    by (simp add: leading_digits [OF assms(1,2)])
  ultimately show ?thesis
    using assms(4) by (simp add: scan_int_def Let_def to_int32_def)
qed

end
