(* ===== verification/Log.thy ===== *)
theory Log
  imports C_Text
begin

text \<open>
  \<open>log.c\<close>: the levels and their order, the names they are read and written by, the hex dump, and
  which lines are written.  A message is given as the text that \<open>printf\<close> makes of it, the date as
  the text of \<open>strftime\<close>; a line that is not written is \<open>None\<close>.
\<close>

unbundle bit_operations_syntax

section \<open>Levels\<close>

datatype log_level = LOG_DEBUG | LOG_INFO | LOG_WARNING | LOG_ERROR

fun level_number :: "log_level \<Rightarrow> nat" where
  "level_number LOG_DEBUG = 0"
| "level_number LOG_INFO = 1"
| "level_number LOG_WARNING = 2"
| "level_number LOG_ERROR = 3"

instantiation log_level :: linorder
begin

definition less_eq_log_level :: "log_level \<Rightarrow> log_level \<Rightarrow> bool" where
  "a \<le> b \<longleftrightarrow> level_number a \<le> level_number b"

definition less_log_level :: "log_level \<Rightarrow> log_level \<Rightarrow> bool" where
  "a < b \<longleftrightarrow> level_number a < level_number b"

instance
proof
  fix a b :: log_level
  show "a \<le> b \<Longrightarrow> b \<le> a \<Longrightarrow> a = b" by (cases a; cases b) (simp_all add: less_eq_log_level_def)
qed (auto simp: less_eq_log_level_def less_log_level_def)

end

fun level_name :: "log_level \<Rightarrow> string" where
  "level_name LOG_DEBUG = ''DEBUG''"
| "level_name LOG_INFO = ''INFO''"
| "level_name LOG_WARNING = ''WARNING''"
| "level_name LOG_ERROR = ''ERROR''"

definition strcasecmp :: "string \<Rightarrow> string \<Rightarrow> bool" where
  "strcasecmp a b \<longleftrightarrow> List.map to_upper a = List.map to_upper b"

definition log_level_from_str :: "string \<Rightarrow> log_level option" where
  "log_level_from_str s =
     (if strcasecmp s ''DEBUG'' then Some LOG_DEBUG
      else if strcasecmp s ''INFO'' then Some LOG_INFO
      else if strcasecmp s ''WARNING'' then Some LOG_WARNING
      else if strcasecmp s ''ERROR'' then Some LOG_ERROR
      else None)"

section \<open>Lines\<close>

record log_state =
  g_level :: log_level
  g_wire :: bool

definition log_start :: log_state where
  "log_start = \<lparr>g_level = LOG_INFO, g_wire = False\<rparr>"

definition log_init :: "log_level \<Rightarrow> bool \<Rightarrow> log_state" where
  "log_init level wire_mode = \<lparr>g_level = level, g_wire = wire_mode\<rparr>"

definition log_hex :: "bytes \<Rightarrow> string" where
  "log_hex buf = concat (List.map (\<lambda>b. [digit_char (unat (drop_bit 4 b)), digit_char (unat (b AND 0xF))]) (take 1024 buf))"

definition log_timestamp :: "string \<Rightarrow> int \<Rightarrow> string" where
  "log_timestamp base usec = base @ '','' @ fmt_0d 3 (usec div 1000)"

definition log_msg :: "log_state \<Rightarrow> string \<Rightarrow> log_level \<Rightarrow> string \<Rightarrow> string \<Rightarrow> string option" where
  "log_msg g ts level name text =
     (let threshold = (if g_wire g then LOG_WARNING else g_level g)
      in if level < threshold then None
         else Some (ts @ '' '' @ level_name level @ '' ['' @ name @ ''] '' @ text @ [CHR 0x0A]))"

definition log_wire :: "log_state \<Rightarrow> string \<Rightarrow> string \<Rightarrow> string option" where
  "log_wire g ts text = (if \<not> g_wire g then None else Some (ts @ '' '' @ text @ [CHR 0x0A]))"

section \<open>What is written\<close>

lemma level_by_name: "log_level_from_str (level_name l) = Some l"
  by (cases l) (simp_all add: log_level_from_str_def strcasecmp_def to_upper_def)

text \<open>Raising the level only silences more; warnings are written in every mode up to their level.\<close>

lemma log_msg_mono:
  "g_level g \<le> g_level h \<Longrightarrow> g_wire g = g_wire h \<Longrightarrow> log_msg g ts l n x = None \<Longrightarrow> log_msg h ts l n x = None"
  by (auto simp: log_msg_def Let_def split: if_splits)

lemma wire_mode_silences: "g_wire g \<Longrightarrow> log_msg g ts l n x = None \<longleftrightarrow> l \<in> {LOG_DEBUG, LOG_INFO}"
  by (cases l) (simp_all add: log_msg_def less_log_level_def)

text \<open>The dump fits its buffer of 2050 characters and tells the bytes apart.\<close>

lemma length_log_hex: "length (log_hex buf) = 2 * min (length buf) 1024"
proof -
  have "length (concat (List.map (\<lambda>b. [digit_char (unat (drop_bit 4 b)), digit_char (unat (b AND 0xF))]) (bs :: bytes))) =
      2 * length bs" for bs
    by (induction bs) simp_all
  then show ?thesis by (simp add: log_hex_def min.commute)
qed

fun read_hex :: "string \<Rightarrow> bytes" where
  "read_hex (a # b # s) = of_nat (digits_value 16 [a, b]) # read_hex s"
| "read_hex _ = []"

lemma nibbles: "unat (b :: u8) = 16 * unat (drop_bit 4 b) + unat (b AND 0xF)" "unat (drop_bit 4 b) < 16" "unat (b AND 0xF) < 16"
proof -
  have m: "b AND 0xF = take_bit 4 b" by (simp only: take_bit_eq_mask) (simp add: mask_eq_exp_minus_1)
  have u: "unat (drop_bit 4 b) = unat b div 16" "unat (b AND 0xF) = unat b mod 16"
    unfolding m by (simp_all add: drop_bit_eq_div take_bit_eq_mod unat_div unat_mod)
  show "unat b = 16 * unat (drop_bit 4 b) + unat (b AND 0xF)" "unat (b AND 0xF) < 16" by (simp_all add: u)
  show "unat (drop_bit 4 b) < 16" using unat_u8_less [of b] by (simp add: u)
qed

lemma read_log_hex: "read_hex (log_hex buf) = take 1024 buf"
proof -
  have "read_hex (concat (List.map (\<lambda>b. [digit_char (unat (drop_bit 4 b)), digit_char (unat (b AND 0xF))]) bs)) = bs" for bs
  proof (induction bs)
    case (Cons b bs)
    have "digits_value 16 [digit_char (unat (drop_bit 4 b)), digit_char (unat (b AND 0xF))] = unat b"
      using nibbles [of b] by (simp add: digits_value_def digit_value_char)
    then show ?case using Cons by simp
  qed simp
  then show ?thesis by (simp add: log_hex_def)
qed

end
