(* ===== verification/Cccc_Signal.thy ===== *)
theory Cccc_Signal
  imports C_Text
begin

text \<open>
  The text of the CC-CC control channel (\<open>cccc/cccc_link.c\<close>, builders and parsers): the Question
  and Answer of the handshake, and the B-on and B-off lines.  What \<open>snprintf\<close> returns is the
  length of the whole text; that it fits its buffer is shown below.
\<close>

section \<open>Constants\<close>

definition CCCC_CONTROL_PORT :: int where "CCCC_CONTROL_PORT = 42421"
definition CCCC_VOICE_PORT :: int where "CCCC_VOICE_PORT = 42422"
definition CCCC_TRIAL_PORT :: int where "CCCC_TRIAL_PORT = 42420"
definition CCCC_QUESTION_NFIELDS :: nat where "CCCC_QUESTION_NFIELDS = 8"
definition CCCC_ANSWER_NFIELDS :: nat where "CCCC_ANSWER_NFIELDS = 7"
definition CCCC_CONNTYPE_SERVER_INBOUND :: string where "CCCC_CONNTYPE_SERVER_INBOUND = ''Server Inbound''"
definition CCCC_CODEC_AMBE :: string where "CCCC_CODEC_AMBE = ''AMBE''"
definition CCCC_MS_PER_FRAME :: int where "CCCC_MS_PER_FRAME = 60"
definition CCCC_CALL_TYPE_GROUP :: char where "CCCC_CALL_TYPE_GROUP = CHR ''G''"

abbreviation newline :: string where
  "newline \<equiv> [CHR 0x0A]"

section \<open>Builders\<close>

definition build_question ::
  "u32 \<Rightarrow> int \<Rightarrow> string \<Rightarrow> string \<Rightarrow> string \<Rightarrow> string \<Rightarrow> string \<Rightarrow> string" where
  "build_question sync_source lid channel sitename mac coderev os =
     fmt_x sync_source @ newline @ fmt_d lid @ '' '' @ newline @ channel @ newline @ sitename @ newline @
     CCCC_CONNTYPE_SERVER_INBOUND @ newline @ mac @ newline @ coderev @ newline @ os @ newline"

text \<open>The wall clock is given in seconds and microseconds.\<close>

definition build_answer :: "int \<times> int \<Rightarrow> string \<Rightarrow> string \<Rightarrow> string \<Rightarrow> string" where
  "build_answer clock sitename os version =
     CCCC_CODEC_AMBE @ newline @ fmt_d CCCC_MS_PER_FRAME @ newline @
     fmt_d (fst clock) @ '' '' @ fmt_d (snd clock) @ newline @ version @ newline @ sitename @ newline @
     ''0'' @ newline @ os @ newline"

definition build_bon :: "int \<Rightarrow> int \<Rightarrow> u32 \<Rightarrow> u32 \<Rightarrow> int \<Rightarrow> int \<Rightarrow> char \<Rightarrow> string" where
  "build_bon lid user radio peer src_lid tgid call_type =
     ''B01'' @ fmt_0d 2 lid @ fmt_0d 3 user @ '' '' @ fmt_u radio @ '' '' @ fmt_u peer @
     '' 0.0 radioid='' @ fmt_u radio @ '' peerid='' @ fmt_u peer @
     '' Bee=B01'' @ fmt_0d 2 src_lid @ fmt_0d 3 tgid @ [call_type] @ newline"

definition build_boff :: "int \<Rightarrow> int \<Rightarrow> int \<Rightarrow> rat \<Rightarrow> string" where
  "build_boff lid lost tot rssi =
     ''B'' @ fmt_0d 2 lid @ ''00000  LOSS='' @ fmt_d lost @ ''/'' @ fmt_d tot @ '' RSSI='' @ fmt_f0 rssi @ newline"

section \<open>Parsers\<close>

definition trim_end :: "string \<Rightarrow> string" where
  "trim_end p = rev (dropWhile (\<lambda>c. c = CHR 0x0D \<or> c = CHR 0x0A \<or> c = CHR '' '') (rev p))"

text \<open>radio, peer, source LID, TGID and call type.\<close>

definition parse_bon :: "string \<Rightarrow> (u32 \<times> u32 \<times> int \<times> int \<times> char) option" where
  "parse_bon line =
     (case strstr line ''Bee='' of
        None \<Rightarrow> None
      | Some bee \<Rightarrow>
          (case scan_word 63 line of
             None \<Rightarrow> None
           | Some (tok0, r0) \<Rightarrow>
               (case scan_word 31 r0 of
                  None \<Rightarrow> None
                | Some (tok1, r1) \<Rightarrow>
                    (case scan_word 31 r1 of
                       None \<Rightarrow> None
                     | Some (tok2, _) \<Rightarrow>
                         let radio = ucast (strtoul 10 tok1);
                             peer = ucast (strtoul 10 tok2);
                             p = drop 4 bee
                         in if take 3 p \<noteq> ''B01'' then None
                            else (let p = trim_end (drop 3 p) in
                              if length p < 3 then None
                              else Some (radio, peer, atoi (take 2 p),
                                         atoi (take 15 (take (length p - 3) (drop 2 p))), last p))))))"

definition parse_boff :: "string \<Rightarrow> (int \<times> int) option" where
  "parse_boff line =
     (case strstr line ''LOSS='' of
        None \<Rightarrow> None
      | Some loss \<Rightarrow>
          (case scan_int (drop 5 loss) of
             None \<Rightarrow> None
           | Some (lost, r) \<Rightarrow>
               (case r of
                  [] \<Rightarrow> None
                | c # r' \<Rightarrow>
                    if c = CHR ''/'' then (case scan_int r' of None \<Rightarrow> None | Some (tot, _) \<Rightarrow> Some (lost, tot))
                    else None)))"

section \<open>Round trips\<close>

lemma ucast_strtoul_fmt_u: "ucast (strtoul 10 (fmt_u v)) = v"
proof -
  have "unat v < 2 ^ 64" using unat_u32_less [of v] by simp
  then have "strtoul 10 (fmt_u v @ []) = of_nat (unat v)"
    unfolding fmt_u_def by (intro strtoul_show) simp_all
  moreover have "ucast (ucast v :: u64) = v" by (rule bit_word_eqI) (simp add: bit_simps)
  ultimately show ?thesis by simp
qed

lemma set_fmt_0d: "c \<in> set (fmt_0d w i) \<Longrightarrow> is_digit 10 c \<or> c = CHR ''-''"
proof -
  have z: "is_digit 10 (CHR ''0'')" by (simp add: is_digit_def digit_value_def)
  have d: "c \<in> set (show_nat 10 m) \<Longrightarrow> is_digit 10 c" for c m using all_digits_show [of 10 m] by simp
  show "c \<in> set (fmt_0d w i) \<Longrightarrow> is_digit 10 c \<or> c = CHR ''-''"
    unfolding fmt_0d_def Let_def by (cases "i < 0") (auto simp: z dest: d)
qed

lemma set_fmt_u: "c \<in> set (fmt_u v) \<Longrightarrow> is_digit 10 c"
  using fmt_u_digits(1) [of v] by blast

lemma num_char_clean:
  "is_digit 10 c \<or> c = CHR ''-'' \<Longrightarrow> c \<noteq> CHR ''B'' \<and> c \<noteq> CHR ''L'' \<and> c \<noteq> CHR 0x00 \<and> \<not> is_space c"
proof -
  have "\<not> is_space (CHR ''-'')" by (simp add: is_space_def)
  then show "is_digit 10 c \<or> c = CHR ''-'' \<Longrightarrow> ?thesis"
    using digit_not_letter [of c] digit_not_space [of 10 c] by auto
qed

lemma num_words:
  "\<forall>c \<in> set (fmt_0d w i). c \<noteq> CHR ''B''" "\<forall>c \<in> set (fmt_u v). c \<noteq> CHR ''B''"
  "\<forall>c \<in> set (fmt_0d w i). \<not> is_space c" "\<forall>c \<in> set (fmt_u v). \<not> is_space c"
  using set_fmt_0d set_fmt_u num_char_clean by blast+

lemma length_word0: "\<bar>lid\<bar> < 2 ^ 31 \<Longrightarrow> \<bar>user\<bar> < 2 ^ 31 \<Longrightarrow>
  length (''B01'' @ fmt_0d 2 lid @ fmt_0d 3 user) \<le> 25"
  using length_fmt_0d_le [of lid 10 2] length_fmt_0d_le [of user 10 3] by simp

lemma trim_end_snoc: "c \<noteq> CHR 0x0D \<Longrightarrow> c \<noteq> CHR 0x0A \<Longrightarrow> c \<noteq> CHR '' '' \<Longrightarrow> trim_end (p @ [c]) = p @ [c]"
  by (simp add: trim_end_def)

text \<open>The line as the other side's reader hands it over: without the newline.\<close>

lemma parse_bon_build:
  fixes lid user src_lid tgid :: int and radio peer :: u32 and t :: char
  defines "num \<equiv> fmt_0d 2 src_lid @ fmt_0d 3 tgid @ [t]"
  assumes "\<bar>lid\<bar> < 2 ^ 31" "\<bar>user\<bar> < 2 ^ 31" "t \<noteq> CHR 0x0D" "t \<noteq> CHR 0x0A" "t \<noteq> CHR '' ''"
  shows "parse_bon (butlast (build_bon lid user radio peer src_lid tgid t)) =
    (if length num < 3 then None
     else Some (radio, peer, atoi (take 2 num), atoi (take 15 (take (length num - 3) (drop 2 num))), t))"
proof -
  let ?w0 = "''B01'' @ fmt_0d 2 lid @ fmt_0d 3 user"
  let ?ids = "'' 0.0 radioid='' @ fmt_u radio @ '' peerid='' @ fmt_u peer @ '' ''"
  let ?bee = "''Bee='' @ ''B01'' @ num"
  let ?line = "?w0 @ '' '' @ fmt_u radio @ '' '' @ fmt_u peer @ ?ids @ ?bee"
  have line: "butlast (build_bon lid user radio peer src_lid tgid t) = ?line"
    by (simp add: build_bon_def butlast_append num_def)
  have clean: "\<forall>c \<in> set (fmt_0d 2 lid @ fmt_0d 3 user @ '' '' @ fmt_u radio @ '' '' @ fmt_u peer @ ?ids). c \<noteq> CHR ''B''"
    unfolding set_append ball_Un using num_words by (intro conjI) simp_all
  have "strstr ?line ''Bee='' = strstr (''01'' @ fmt_0d 2 lid @ fmt_0d 3 user @ '' '' @ fmt_u radio @
      '' '' @ fmt_u peer @ ?ids @ ?bee) ''Bee=''" by simp
  also have "\<dots> = strstr ((''01'' @ fmt_0d 2 lid @ fmt_0d 3 user @ '' '' @ fmt_u radio @ '' '' @ fmt_u peer @ ?ids) @
      ?bee) ''Bee=''" by simp
  also have "\<dots> = strstr ?bee ''Bee=''" by (rule strstr_skip) (use clean in auto)
  also have "\<dots> = Some ?bee" by (rule strstr_here) simp
  finally have bee: "strstr ?line ''Bee='' = Some ?bee" .
  have sp: "is_space (CHR '' '')" by (simp add: is_space_def)
  have w0: "scan_word 63 ?line = Some (?w0, '' '' @ fmt_u radio @ '' '' @ fmt_u peer @ ?ids @ ?bee)"
  proof -
    have "\<forall>c \<in> set ?w0. \<not> is_space c"
      unfolding set_append ball_Un using num_words by (intro conjI) (simp_all add: is_space_def)
    then show ?thesis
      using length_word0 [OF assms(2,3)] sp
      by (subst append_assoc [symmetric], subst append_assoc [symmetric]) (rule scan_word_here, simp_all)
  qed
  have word: "scan_word 31 ('' '' @ fmt_u v @ r) = Some (fmt_u v, r)" if "is_space (hd r)" for v r
    using that sp length_fmt_u [of v] num_words(4) [of v] fmt_u_digits(2) [of v]
    by (simp add: scan_word_space) (rule scan_word_here, auto)
  have w2: "scan_word 31 ('' '' @ fmt_u peer @ ?ids @ ?bee) = Some (fmt_u peer, ?ids @ ?bee)"
    by (rule word) (simp add: sp)
  have w1: "scan_word 31 ('' '' @ fmt_u radio @ '' '' @ fmt_u peer @ ?ids @ ?bee) =
      Some (fmt_u radio, '' '' @ fmt_u peer @ ?ids @ ?bee)"
    by (rule word) (simp add: sp)
  have trim: "trim_end num = num"
    using trim_end_snoc [OF assms(4-6), of "fmt_0d 2 src_lid @ fmt_0d 3 tgid"] by (simp add: num_def)
  have p: "drop 4 ?bee = ''B01'' @ num" "take 3 (''B01'' @ num) = ''B01''" "drop 3 (''B01'' @ num) = num" by simp_all
  have "last num = t" by (simp add: num_def)
  then show ?thesis
    by (simp only: line parse_bon_def bee option.case w0 prod.case w1 w2 p trim ucast_strtoul_fmt_u
        Let_def if_False not_True_eq_False simp_thms)
qed

lemma parse_build_bon:
  assumes "\<bar>lid\<bar> < 2 ^ 31" "\<bar>user\<bar> < 2 ^ 31" "0 \<le> src_lid" "src_lid < 100" "0 \<le> tgid" "tgid < 2 ^ 31"
    and "t \<noteq> CHR 0x0D" "t \<noteq> CHR 0x0A" "t \<noteq> CHR '' ''"
  shows "parse_bon (butlast (build_bon lid user radio peer src_lid tgid t)) =
    Some (radio, peer, src_lid, tgid, t)"
proof -
  let ?num = "fmt_0d 2 src_lid @ fmt_0d 3 tgid @ [t]"
  have l2: "length (fmt_0d 2 src_lid) = 2" using assms(3,4) by (intro length_fmt_0d) simp_all
  have l3: "length (fmt_0d 3 tgid) \<le> 11" using assms(5,6) by (intro length_fmt_0d_le [where k = 10, simplified]) simp_all
  have a2: "atoi (fmt_0d 2 src_lid) = src_lid"
    using atoi_digits [of "fmt_0d 2 src_lid" "[]"] fmt_0d_digits [OF assms(3), of 2] assms(3,4) by simp
  have a3: "atoi (fmt_0d 3 tgid) = tgid"
    using atoi_digits [of "fmt_0d 3 tgid" "[]"] fmt_0d_digits [OF assms(5), of 3] assms(5,6)
    by (simp add: nat_less_iff)
  have "\<not> length ?num < 3" "take 2 ?num = fmt_0d 2 src_lid"
      "take 15 (take (length ?num - 3) (drop 2 ?num)) = fmt_0d 3 tgid"
    using l2 l3 by simp_all
  then show ?thesis by (simp only: parse_bon_build [OF assms(1,2,7-9)] a2 a3 if_False)
qed

text \<open>Radio and peer are read whatever the LIDs and the TGID are; only they are used for delivery.\<close>

lemma parse_bon_ids:
  assumes "\<bar>lid\<bar> < 2 ^ 31" "\<bar>user\<bar> < 2 ^ 31" "t \<noteq> CHR 0x0D" "t \<noteq> CHR 0x0A" "t \<noteq> CHR '' ''"
  shows "\<exists>x y. parse_bon (butlast (build_bon lid user radio peer src_lid tgid t)) = Some (radio, peer, x, y, t)"
proof -
  have "w \<le> length (fmt_0d w i)" for w i
    by (simp add: fmt_0d_def Let_def)
  from this [of 2 src_lid] this [of 3 tgid] show ?thesis by (simp add: parse_bon_build [OF assms] not_less)
qed

text \<open>The parser takes the first two digits for the source LID.\<close>

lemma digits_value_append: "digits_value 10 (a @ b) = 10 ^ length b * digits_value 10 a + digits_value 10 b"
  by (induction b rule: rev_induct) (simp_all add: digits_value_def algebra_simps)

lemma digits_value_less: "\<forall>c \<in> set ds. is_digit 10 c \<Longrightarrow> digits_value 10 ds < 10 ^ length ds"
proof (induction ds rule: rev_induct)
  case (snoc c ds)
  then have "(case digit_value c of Some d \<Rightarrow> d | None \<Rightarrow> 0) < 10" by (auto simp: is_digit_def split: option.splits)
  then show ?case using snoc by (auto simp: digits_value_snoc)
qed (simp add: digits_value_def)

lemma leading_digits_value:
  assumes "\<forall>c \<in> set ds. is_digit 10 c" "k \<le> length ds"
  shows "digits_value 10 (take k ds) = digits_value 10 ds div 10 ^ (length ds - k)"
proof -
  have "\<forall>c \<in> set (drop k ds). is_digit 10 c" using assms(1) by (meson in_set_dropD)
  then have "digits_value 10 (drop k ds) < 10 ^ (length ds - k)" using digits_value_less [of "drop k ds"] by simp
  then show ?thesis using digits_value_append [of "take k ds" "drop k ds"] by simp
qed

lemma parse_bon_lid:
  assumes "\<bar>lid\<bar> < 2 ^ 31" "\<bar>user\<bar> < 2 ^ 31" "0 \<le> src_lid" "t \<noteq> CHR 0x0D" "t \<noteq> CHR 0x0A" "t \<noteq> CHR '' ''"
  shows "\<exists>y. parse_bon (butlast (build_bon lid user radio peer src_lid tgid t)) =
      Some (radio, peer, src_lid div 10 ^ (length (fmt_0d 2 src_lid) - 2), y, t)"
    and "src_lid div 10 ^ (length (fmt_0d 2 src_lid) - 2) < 100"
proof -
  let ?ds = "fmt_0d 2 src_lid"
  have w: "w \<le> length (fmt_0d w i)" for w i by (simp add: fmt_0d_def Let_def)
  note dg = fmt_0d_digits [OF assms(3), of 2]
  have v: "digits_value 10 (take 2 ?ds) = nat src_lid div 10 ^ (length ?ds - 2)"
    using leading_digits_value [OF dg(1) w [of 2]] dg(2) by simp
  have td: "\<forall>c \<in> set (take 2 ?ds). is_digit 10 c" using dg(1) by (meson in_set_takeD)
  then have lt: "digits_value 10 (take 2 ?ds) < 100" using digits_value_less [of "take 2 ?ds"] w [of 2 src_lid] by simp
  have i: "int (nat src_lid div 10 ^ k) = src_lid div 10 ^ k" for k using assms(3) by (simp add: zdiv_int)
  show "src_lid div 10 ^ (length ?ds - 2) < 100" using lt i [of "length ?ds - 2"] by (simp add: v)
  have "take 2 ?ds \<noteq> []" using w [of 2 src_lid] by auto
  then have "atoi (take 2 ?ds) = src_lid div 10 ^ (length ?ds - 2)"
    using atoi_digits [of "take 2 ?ds" "[]"] td lt v i by simp
  moreover have "take 2 (?ds @ r) = take 2 ?ds" for r using w [of 2 src_lid] by simp
  ultimately show "\<exists>y. parse_bon (butlast (build_bon lid user radio peer src_lid tgid t)) =
      Some (radio, peer, src_lid div 10 ^ (length ?ds - 2), y, t)"
    using w [of 2 src_lid] w [of 3 tgid] by (simp add: parse_bon_build [OF assms(1,2,4-6)] not_less del: take_append)
qed

lemma set_fmt_d: "c \<in> set (fmt_d i) \<Longrightarrow> is_digit 10 c \<or> c = CHR ''-''"
  unfolding fmt_d_def by (cases "i < 0") (auto dest: bspec [OF all_digits_show [of 10], rotated 2])

lemma length_fmt_d:
  assumes "\<bar>i\<bar> < 2 ^ 31"
  shows "length (fmt_d i) \<le> 11"
proof -
  have "nat \<bar>i\<bar> < 10 ^ 10" using assms by (simp add: nat_less_iff)
  then have "length (show_nat 10 (nat \<bar>i\<bar>)) \<le> 10" by (intro length_show_nat) simp_all
  then show ?thesis by (cases "i < 0") (simp_all add: fmt_d_def)
qed

lemma scan_int_fmt_d:
  assumes "0 \<le> i" "i < 2 ^ 31" "rest = [] \<or> \<not> is_digit 10 (hd rest)"
  shows "scan_int (fmt_d i @ rest) = Some (i, rest)"
proof -
  have "fmt_d i = show_nat 10 (nat i)" using assms(1) by (simp add: fmt_d_def)
  then show ?thesis
    using scan_int_digits [of "show_nat 10 (nat i)" rest] all_digits_show [of 10 "nat i"] assms
    by (simp add: digits_value_show nat_less_iff)
qed

lemma parse_build_boff:
  assumes "0 \<le> lost" "lost < 2 ^ 31" "0 \<le> tot" "tot < 2 ^ 31"
  shows "parse_boff (butlast (build_boff lid lost tot rssi)) = Some (lost, tot)"
proof -
  let ?tail = "'' RSSI='' @ fmt_f0 rssi"
  let ?loss = "''LOSS='' @ fmt_d lost @ ''/'' @ fmt_d tot @ ?tail"
  let ?pre = "''B'' @ fmt_0d 2 lid @ ''00000  ''"
  have nd: "\<not> is_digit 10 (CHR ''/'')" "\<not> is_digit 10 (CHR '' '')"
    by (simp_all add: is_digit_def digit_value_def)
  have "butlast (build_boff lid lost tot rssi) = ?pre @ ?loss"
    by (simp add: build_boff_def butlast_append)
  moreover have "\<forall>c \<in> set ?pre. c \<noteq> hd ''LOSS=''"
    using num_char_clean set_fmt_0d [of _ 2 lid] by auto
  then have "strstr (?pre @ ?loss) ''LOSS='' = strstr ?loss ''LOSS=''" by (intro strstr_skip) simp_all
  moreover have "strstr ?loss ''LOSS='' = Some ?loss" by (rule strstr_here) simp
  moreover have "scan_int (fmt_d lost @ ''/'' @ fmt_d tot @ ?tail) = Some (lost, ''/'' @ fmt_d tot @ ?tail)"
    using assms nd by (intro scan_int_fmt_d) simp_all
  moreover have "scan_int (fmt_d tot @ ?tail) = Some (tot, ?tail)"
    using assms nd by (intro scan_int_fmt_d) simp_all
  ultimately show ?thesis by (simp add: parse_boff_def)
qed

section \<open>The texts fit their buffers\<close>

lemma length_build_bon:
  assumes "\<bar>lid\<bar> < 2 ^ 31" "\<bar>user\<bar> < 2 ^ 31" "\<bar>src_lid\<bar> < 2 ^ 31" "\<bar>tgid\<bar> < 2 ^ 31"
  shows "length (build_bon lid user radio peer src_lid tgid t) < 256"
  using length_fmt_0d_le [of lid 10 2] length_fmt_0d_le [of user 10 3] length_fmt_0d_le [of src_lid 10 2]
    length_fmt_0d_le [of tgid 10 3] length_fmt_u [of radio] length_fmt_u [of peer] assms
  by (simp add: build_bon_def)

lemma length_build_question:
  assumes "\<bar>lid\<bar> < 2 ^ 31" "length channel < 128" "length sitename < 128" "length mac < 32"
    "length coderev < 32" "length os < 128"
  shows "length (build_question ssrc lid channel sitename mac coderev os) < 512"
  using assms length_fmt_x [of ssrc] length_fmt_d [of lid]
  by (simp add: build_question_def CCCC_CONNTYPE_SERVER_INBOUND_def)

lemma length_fmt_d_long:
  assumes "\<bar>i\<bar> < 2 ^ 63"
  shows "length (fmt_d i) \<le> 20"
proof -
  have "nat \<bar>i\<bar> < 10 ^ 19" using assms by (simp add: nat_less_iff)
  then have "length (show_nat 10 (nat \<bar>i\<bar>)) \<le> 19" by (intro length_show_nat) simp_all
  then show ?thesis by (cases "i < 0") (simp_all add: fmt_d_def)
qed

lemma length_build_answer:
  assumes "\<bar>fst clock\<bar> < 2 ^ 63" "\<bar>snd clock\<bar> < 2 ^ 63" "length sitename < 128" "length os < 128" "length version < 128"
  shows "length (build_answer clock sitename os version) < 512"
  using assms length_fmt_d_long [of "fst clock"] length_fmt_d_long [of "snd clock"] length_fmt_d [of 60]
  by (simp add: build_answer_def CCCC_CODEC_AMBE_def CCCC_MS_PER_FRAME_def)

section \<open>Properties\<close>

text \<open>
  C39: what the bridge's own parsers read from the B-on and B-off lines that it writes.  Radio, peer
  and call type, and the two loss counters, come back intact in any case.  A source LID up to 99
  comes back with its TGID; of a larger one, which the loader accepts, the first two digits are read,
  so it is never read right.
\<close>

theorem signal_roundtrip:
  assumes "\<bar>lid\<bar> < 2 ^ 31" "\<bar>user\<bar> < 2 ^ 31" "0 \<le> src_lid" "0 \<le> tgid" "tgid < 2 ^ 31"
    and "t \<noteq> CHR 0x0D" "t \<noteq> CHR 0x0A" "t \<noteq> CHR '' ''"
    and "0 \<le> lost" "lost < 2 ^ 31" "0 \<le> tot" "tot < 2 ^ 31"
  shows "(\<exists>x y. parse_bon (butlast (build_bon lid user radio peer src_lid tgid t)) = Some (radio, peer, x, y, t) \<and>
      (src_lid < 100 \<longrightarrow> x = src_lid \<and> y = tgid) \<and>
      (100 \<le> src_lid \<longrightarrow> x = src_lid div 10 ^ (length (fmt_0d 2 src_lid) - 2) \<and> x \<noteq> src_lid)) \<and>
    parse_boff (butlast (build_boff lid lost tot rssi)) = Some (lost, tot)"
proof
  show "\<exists>x y. parse_bon (butlast (build_bon lid user radio peer src_lid tgid t)) = Some (radio, peer, x, y, t) \<and>
      (src_lid < 100 \<longrightarrow> x = src_lid \<and> y = tgid) \<and>
      (100 \<le> src_lid \<longrightarrow> x = src_lid div 10 ^ (length (fmt_0d 2 src_lid) - 2) \<and> x \<noteq> src_lid)"
  proof (cases "src_lid < 100")
    case True
    then show ?thesis using parse_build_bon [OF assms(1-3) _ assms(4-8)] by simp
  next
    case False
    then show ?thesis using parse_bon_lid [OF assms(1-3,6-8)] by fastforce
  qed
qed (use assms in \<open>simp add: parse_build_boff\<close>)

lemma signal_roundtrip_witness:
  "\<exists>x y. parse_bon (butlast (build_bon 12 7 3120001 312345 12 3120 (CHR ''G''))) = Some (3120001, 312345, x, y, CHR ''G'') \<and>
     x = 12 \<and> y = 3120"
  using signal_roundtrip [of 12 7 12 3120 "CHR ''G''" 0 10 3120001 312345 0] by simp

text \<open>
  No message of the control channel is truncated by its buffer: 256 bytes hold every B-on,
  512 every Question and Answer whose fields fit the configuration.
\<close>

lemma signal_buffers_suffice:
  assumes "\<bar>lid\<bar> < 2 ^ 31" "\<bar>user\<bar> < 2 ^ 31" "\<bar>src_lid\<bar> < 2 ^ 31" "\<bar>tgid\<bar> < 2 ^ 31"
    and "length channel < 128" "length sitename < 128" "length mac < 32" "length coderev < 32"
    and "length os < 128" "length version < 128" "\<bar>fst clock\<bar> < 2 ^ 63" "\<bar>snd clock\<bar> < 2 ^ 63"
  shows "length (build_bon lid user radio peer src_lid tgid t) < 256 \<and>
    length (build_question ssrc lid channel sitename mac coderev os) < 512 \<and>
    length (build_answer clock sitename os version) < 512"
  using assms by (simp add: length_build_bon length_build_question length_build_answer)

lemma signal_buffers_suffice_witness:
  "length (build_bon 12 7 3120001 312345 12 3120 (CHR ''G'')) < 256"
  using signal_buffers_suffice [of 12 7 12 3120 "''C''" "''S''" "''M''" "''R''" "''O''" "''V''" "(0, 0)" 3120001 312345 "CHR ''G''"]
  by simp

end
