(* ===== verification/Eventloop.thy ===== *)
theory Eventloop
  imports Complex_Main Prelude "HOL-Library.Monad_Syntax"
begin

text \<open>
  \<open>eventloop.c\<close>: the tables of file descriptors registered for reading and for writing, the
  one-shot timers, and the passes of \<open>ev_run\<close>.  Callbacks with their user data are values of
  a type parameter.  A timer handle is a number never given out twice, so a handle held after its
  timer was freed refers to nothing, and times are rational seconds.
\<close>

section \<open>State\<close>

definition MAX_FDS :: nat where
  "MAX_FDS = 256"

record 't ev_timer =
  t_id :: nat
  t_when :: rat
  t_cb :: 't
  t_active :: bool

record ('f, 't) ev_loop =
  ev_fds :: "(int \<times> 'f) list"
  ev_wfds :: "(int \<times> 'f) list"
  ev_timers :: "'t ev_timer list"
  ev_next_id :: nat
  ev_running :: bool

definition ev_new :: "('f, 't) ev_loop" where
  "ev_new = \<lparr>ev_fds = [], ev_wfds = [], ev_timers = [], ev_next_id = 0, ev_running = False\<rparr>"

section \<open>Descriptor tables\<close>

text \<open>
  \<open>ev_add_fd\<close> and \<open>ev_add_fd_write\<close>: overwrite the callback of a registered descriptor, or
  append a new entry when there is room; a full table drops the request.
\<close>

fun tab_add :: "(int \<times> 'f) list \<Rightarrow> int \<Rightarrow> 'f \<Rightarrow> (int \<times> 'f) list option" where
  "tab_add [] fd cb = None"
| "tab_add (e # es) fd cb =
     (if fst e = fd then Some ((fd, cb) # es) else map_option (Cons e) (tab_add es fd cb))"

definition tab_register :: "(int \<times> 'f) list \<Rightarrow> int \<Rightarrow> 'f \<Rightarrow> (int \<times> 'f) list" where
  "tab_register es fd cb =
     (case tab_add es fd cb of
        Some es' \<Rightarrow> es'
      | None \<Rightarrow> if length es < MAX_FDS then es @ [(fd, cb)] else es)"

text \<open>\<open>ev_del_fd\<close> and \<open>ev_del_fd_write\<close>: the last entry takes the place of the deleted one.\<close>

definition tab_delete :: "(int \<times> 'f) list \<Rightarrow> int \<Rightarrow> (int \<times> 'f) list" where
  "tab_delete es fd =
     (case find (\<lambda>i. fst (es ! i) = fd) [0..<length es] of
        Some i \<Rightarrow> butlast (es[i := last es])
      | None \<Rightarrow> es)"

definition ev_add_fd :: "int \<Rightarrow> 'f \<Rightarrow> ('f, 't) ev_loop \<Rightarrow> ('f, 't) ev_loop" where
  "ev_add_fd fd cb l = l\<lparr>ev_fds := tab_register (ev_fds l) fd cb\<rparr>"

definition ev_del_fd :: "int \<Rightarrow> ('f, 't) ev_loop \<Rightarrow> ('f, 't) ev_loop" where
  "ev_del_fd fd l = l\<lparr>ev_fds := tab_delete (ev_fds l) fd\<rparr>"

definition ev_add_fd_write :: "int \<Rightarrow> 'f \<Rightarrow> ('f, 't) ev_loop \<Rightarrow> ('f, 't) ev_loop" where
  "ev_add_fd_write fd cb l = l\<lparr>ev_wfds := tab_register (ev_wfds l) fd cb\<rparr>"

definition ev_del_fd_write :: "int \<Rightarrow> ('f, 't) ev_loop \<Rightarrow> ('f, 't) ev_loop" where
  "ev_del_fd_write fd l = l\<lparr>ev_wfds := tab_delete (ev_wfds l) fd\<rparr>"

section \<open>Timers\<close>

definition ev_timer_at :: "rat \<Rightarrow> 't \<Rightarrow> ('f, 't) ev_loop \<Rightarrow> nat \<times> ('f, 't) ev_loop" where
  "ev_timer_at when cb l =
     (let t = \<lparr>t_id = ev_next_id l, t_when = when, t_cb = cb, t_active = True\<rparr>
      in (ev_next_id l, l\<lparr>ev_timers := t # ev_timers l, ev_next_id := Suc (ev_next_id l)\<rparr>))"

definition ev_timer_after :: "rat \<Rightarrow> rat \<Rightarrow> 't \<Rightarrow> ('f, 't) ev_loop \<Rightarrow> nat \<times> ('f, 't) ev_loop" where
  "ev_timer_after now delay cb l = ev_timer_at (now + delay) cb l"

definition deactivate :: "nat \<Rightarrow> 't ev_timer list \<Rightarrow> 't ev_timer list" where
  "deactivate i ts = map (\<lambda>t. if t_id t = i then t\<lparr>t_active := False\<rparr> else t) ts"

definition ev_timer_cancel :: "nat option \<Rightarrow> ('f, 't) ev_loop \<Rightarrow> ('f, 't) ev_loop" where
  "ev_timer_cancel h l = (case h of None \<Rightarrow> l | Some i \<Rightarrow> l\<lparr>ev_timers := deactivate i (ev_timers l)\<rparr>)"

definition reap_inactive :: "('f, 't) ev_loop \<Rightarrow> ('f, 't) ev_loop" where
  "reap_inactive l = l\<lparr>ev_timers := filter t_active (ev_timers l)\<rparr>"

definition ev_stop :: "('f, 't) ev_loop \<Rightarrow> ('f, 't) ev_loop" where
  "ev_stop l = l\<lparr>ev_running := False\<rparr>"

section \<open>A pass of the loop\<close>

text \<open>The soonest active timer, with the start value \<open>-1\<close> of the C code for none.\<close>

definition next_fire :: "('f, 't) ev_loop \<Rightarrow> rat" where
  "next_fire l =
     foldl (\<lambda>next t. if t_active t \<and> (next < 0 \<or> t_when t < next) then t_when t else next)
       (- 1) (ev_timers l)"

definition poll_timeout_ms :: "rat \<Rightarrow> ('f, 't) ev_loop \<Rightarrow> int" where
  "poll_timeout_ms now l =
     (let next = next_fire l in
      if next \<ge> 0 then (let d = (next - now) * 1000 in if d \<le> 0 then 0 else \<lfloor>d\<rfloor>) else - 1)"

text \<open>The timer to fire: of the active ones that are due the earliest, the first among equals.\<close>

definition pick_due :: "rat \<Rightarrow> 't ev_timer list \<Rightarrow> 't ev_timer option" where
  "pick_due now ts =
     foldl (\<lambda>fire t.
        if t_active t \<and> t_when t \<le> now
        then (case fire of None \<Rightarrow> Some t | Some f \<Rightarrow> if t_when t < t_when f then Some t else fire)
        else fire) None ts"

text \<open>
  The callbacks run on a state that contains the loop.  They may add timers that are due at once,
  so firing the due timers need not end; a callback may itself fail to return (\<open>None\<close>).
\<close>

record ('f, 't, 'd, 's) ev_env =
  get_loop :: "'s \<Rightarrow> ('f, 't) ev_loop"
  put_loop :: "('f, 't) ev_loop \<Rightarrow> 's \<Rightarrow> 's"
  run_timer :: "'t \<Rightarrow> 's \<Rightarrow> 's option"
  run_fd :: "'f \<Rightarrow> int \<Rightarrow> 'd \<Rightarrow> 's \<Rightarrow> 's option"

definition map_loop :: "('f, 't, 'd, 's) ev_env \<Rightarrow> (('f, 't) ev_loop \<Rightarrow> ('f, 't) ev_loop) \<Rightarrow> 's \<Rightarrow> 's" where
  "map_loop e f s = put_loop e (f (get_loop e s)) s"

partial_function (option) fire_expired :: "('f, 't, 'd, 's) ev_env \<Rightarrow> rat \<Rightarrow> 's \<Rightarrow> 's option" where
  "fire_expired e now s =
     (case pick_due now (ev_timers (get_loop e s)) of
        None \<Rightarrow> Some s
      | Some t \<Rightarrow>
          do { s' \<leftarrow> run_timer e (t_cb t) (map_loop e (ev_timer_cancel (Some (t_id t))) s);
               if ev_running (get_loop e s') then fire_expired e now s' else Some s' })"

text \<open>
  The poll set: the registered descriptors, readers first.  An entry is its place in its table
  and its descriptor; \<open>ready\<close> gives what is to be read for the entries poll reports.
\<close>

definition pollset :: "('f, 't) ev_loop \<Rightarrow> (bool \<times> nat \<times> int) list" where
  "pollset l =
     map (\<lambda>i. (False, i, fst (ev_fds l ! i))) [0..<length (ev_fds l)] @
     map (\<lambda>i. (True, i, fst (ev_wfds l ! i))) [0..<length (ev_wfds l)]"

definition run_ready :: "('f, 't, 'd, 's) ev_env \<Rightarrow> (bool \<times> nat \<times> int) \<Rightarrow> 'd \<Rightarrow> 's \<Rightarrow> 's option" where
  "run_ready e = (\<lambda>(wr, idx, fd) d s.
     let tab = (if wr then ev_wfds (get_loop e s) else ev_fds (get_loop e s))
     in if idx < length tab \<and> fst (tab ! idx) = fd then run_fd e (snd (tab ! idx)) fd d s else Some s)"

fun run_all_ready ::
  "('f, 't, 'd, 's) ev_env \<Rightarrow> ((bool \<times> nat \<times> int) \<times> 'd option) list \<Rightarrow> 's \<Rightarrow> 's option" where
  "run_all_ready e [] s = Some s"
| "run_all_ready e ((p, r) # ps) s =
     (if \<not> ev_running (get_loop e s) then Some s
      else (case r of
          None \<Rightarrow> run_all_ready e ps s
        | Some d \<Rightarrow> do { s' \<leftarrow> run_ready e p d s; run_all_ready e ps s' }))"

text \<open>
  One pass of \<open>ev_run\<close> after a successful poll: \<open>ready\<close> is its result, and \<open>set_now\<close> moves
  the clock to the time it returned.  The loop around the passes is \<open>ev_run\<close> in \<open>Main_Run\<close>.
\<close>

definition ev_pass ::
  "('f, 't, 'd, 's) ev_env \<Rightarrow> ('s \<Rightarrow> 's) \<Rightarrow> rat \<Rightarrow> 'd option list \<Rightarrow> 's \<Rightarrow> 's option" where
  "ev_pass e set_now now ready s =
     (let s = map_loop e reap_inactive s;
          ps = pollset (get_loop e s)
      in do {
        s \<leftarrow> fire_expired e now (set_now s);
        let s = map_loop e reap_inactive s;
        run_all_ready e (zip ps ready) s })"

section \<open>The tables as maps\<close>

text \<open>What the components rely on when they register and remove descriptors.\<close>

locale fd_registry =
  fixes add :: "'l \<Rightarrow> int \<Rightarrow> 'f \<Rightarrow> 'l"
    and del :: "'l \<Rightarrow> int \<Rightarrow> 'l"
    and look :: "'l \<Rightarrow> int \<Rightarrow> 'f option"
    and room :: "'l \<Rightarrow> nat"
    and ok :: "'l \<Rightarrow> bool"
  assumes ok_add: "ok l \<Longrightarrow> ok (add l fd cb)"
    and ok_del: "ok l \<Longrightarrow> ok (del l fd)"
    and look_add: "ok l \<Longrightarrow> 0 < room l \<or> look l fd \<noteq> None \<Longrightarrow> look (add l fd cb) = (look l)(fd \<mapsto> cb)"
    and look_full: "ok l \<Longrightarrow> room l = 0 \<Longrightarrow> look l fd = None \<Longrightarrow> look (add l fd cb) = look l"
    and look_del: "ok l \<Longrightarrow> look (del l fd) = (look l)(fd := None)"
    and room_del: "ok l \<Longrightarrow> look l fd \<noteq> None \<Longrightarrow> room (del l fd) = Suc (room l)"
begin

text \<open>A descriptor that has been removed calls nothing until it is added again.\<close>

lemma look_del_self: "ok l \<Longrightarrow> look (del l fd) fd = None"
  by (simp add: look_del)

lemma look_del_other: "ok l \<Longrightarrow> fd \<noteq> fd' \<Longrightarrow> look (del l fd) fd' = look l fd'"
  by (simp add: look_del)

lemma look_add_cases:
  "ok l \<Longrightarrow> look (add l fd cb) fd' = Some c \<Longrightarrow> (fd' = fd \<and> c = cb) \<or> look l fd' = Some c"
  by (cases "0 < room l \<or> look l fd \<noteq> None") (auto simp: look_add look_full split: if_splits)

lemma del_then_add:
  assumes "ok l" "look l fd \<noteq> None"
  shows "look (add (del l fd) fd' cb) = (look l)(fd := None, fd' \<mapsto> cb)"
  using assms by (simp add: look_add ok_del room_del look_del)

end

definition tab_ok :: "(int \<times> 'f) list \<Rightarrow> bool" where
  "tab_ok es \<longleftrightarrow> distinct (map fst es) \<and> length es \<le> MAX_FDS"

lemma tab_add_Some: "tab_add es fd cb = Some es' \<Longrightarrow>
  fd \<in> fst ` set es \<and> map fst es' = map fst es \<and> map_of es' = (map_of es)(fd \<mapsto> cb)"
  by (induction es arbitrary: es') (auto split: if_splits intro!: ext)

lemma tab_add_None: "tab_add es fd cb = None \<longleftrightarrow> fd \<notin> fst ` set es"
  by (induction es) auto

text \<open>Moving the last entry into the hole: the entries but one, in another order.\<close>

lemma swap_delete:
  assumes "i < length es"
  obtains a e b where "es = a @ e # b" "length a = i"
    "butlast (es[i := last es]) = a @ (if b = [] then [] else last b # butlast b)"
proof -
  define a b where "a = take i es" and "b = drop (Suc i) es"
  have es: "es = a @ es ! i # b" and i: "length a = i"
    using assms id_take_nth_drop [OF assms] by (simp_all add: a_def b_def)
  have "butlast ((a @ x # b)[length a := last (a @ x # b)]) = a @ (if b = [] then [] else last b # butlast b)" for x
    by (cases b rule: rev_cases) (simp_all add: butlast_append)
  then show thesis using that es i by metis
qed

lemma tab_delete_present:
  assumes "distinct (map fst es)" "fd \<in> fst ` set es"
  shows "map_of (tab_delete es fd) = (map_of es)(fd := None)"
    and "distinct (map fst (tab_delete es fd))" and "Suc (length (tab_delete es fd)) = length es"
proof -
  from assms(2) obtain k where k: "k < length es" "fst (es ! k) = fd" by (auto simp: in_set_conv_nth)
  then obtain i where f: "find (\<lambda>i. fst (es ! i) = fd) [0..<length es] = Some i"
    by (cases "find (\<lambda>i. fst (es ! i) = fd) [0..<length es]") (auto simp: find_None_iff)
  then have i: "i < length es" "fst (es ! i) = fd" by (auto simp: find_Some_iff)
  obtain a e b where es: "es = a @ e # b" "length a = i"
    and d: "butlast (es[i := last es]) = a @ (if b = [] then [] else last b # butlast b)"
    using swap_delete [OF i(1)] .
  have e: "fst e = fd" using i es by (auto simp: nth_append)
  have t: "tab_delete es fd = a @ (if b = [] then [] else last b # butlast b)"
    using f d by (simp add: tab_delete_def)
  show "Suc (length (tab_delete es fd)) = length es" unfolding t unfolding es by simp
  show "distinct (map fst (tab_delete es fd))"
    using assms(1) unfolding t unfolding es by (cases b rule: rev_cases) auto
  have none: "map_of a fd = None" "map_of b fd = None"
    using assms(1) e unfolding es by (auto simp: map_of_eq_None_iff)
  show "map_of (tab_delete es fd) = (map_of es)(fd := None)"
  proof (cases b rule: rev_cases)
    case Nil
    then show ?thesis using none e unfolding t unfolding es by (cases e) (auto simp: map_add_def split: option.splits)
  next
    case (snoc b' z)
    have "fst z \<notin> fst ` set b'" using assms(1) unfolding es snoc by auto
    then have "map_of (z # b') = map_of (b' @ [z])"
      using map_of_eq_None_iff [of b' "fst z"]
      by (cases z) (auto simp: map_add_def fun_eq_iff split: option.splits)
    then show ?thesis
      using none e unfolding t unfolding es snoc by (cases e) (auto simp: map_add_def fun_eq_iff split: option.splits)
  qed
qed

lemma tab_delete_absent: "fd \<notin> fst ` set es \<Longrightarrow> tab_delete es fd = es"
proof -
  assume "fd \<notin> fst ` set es"
  then have "find (\<lambda>i. fst (es ! i) = fd) [0..<length es] = None"
    by (auto simp: find_None_iff)
  then show ?thesis by (simp add: tab_delete_def)
qed

lemma map_of_delete: "tab_ok es \<Longrightarrow> map_of (tab_delete es fd) = (map_of es)(fd := None)"
  by (cases "fd \<in> fst ` set es")
     (auto simp: tab_ok_def tab_delete_present(1) tab_delete_absent map_of_eq_None_iff fun_upd_idem_iff)

lemma tab_ok_delete: "tab_ok es \<Longrightarrow> tab_ok (tab_delete es fd)"
  using tab_delete_present(2,3) [of es fd]
  by (cases "fd \<in> fst ` set es") (auto simp: tab_ok_def tab_delete_absent)

lemma tab_register_new:
  "fd \<notin> fst ` set es \<Longrightarrow> tab_register es fd cb = (if length es < MAX_FDS then es @ [(fd, cb)] else es)"
  by (simp add: tab_register_def tab_add_None [THEN iffD2])

lemma tab_register_old:
  assumes "fd \<in> fst ` set es"
  shows "map fst (tab_register es fd cb) = map fst es" "map_of (tab_register es fd cb) = (map_of es)(fd \<mapsto> cb)"
proof -
  from assms obtain es' where "tab_add es fd cb = Some es'"
    using tab_add_None [of es fd cb] by (cases "tab_add es fd cb") auto
  then show "map fst (tab_register es fd cb) = map fst es" "map_of (tab_register es fd cb) = (map_of es)(fd \<mapsto> cb)"
    using tab_add_Some [of es fd cb es'] by (simp_all add: tab_register_def)
qed

lemma tab_ok_register:
  assumes "tab_ok es"
  shows "tab_ok (tab_register es fd cb)"
proof (cases "fd \<in> fst ` set es")
  case True
  then show ?thesis
    using assms tab_register_old(1) [OF True, of cb] by (simp add: tab_ok_def) (metis length_map)
next
  case False
  then show ?thesis using assms by (auto simp: tab_ok_def tab_register_new)
qed

lemma map_of_register:
  "map_of (tab_register es fd cb) =
    (if length es < MAX_FDS \<or> map_of es fd \<noteq> None then (map_of es)(fd \<mapsto> cb) else map_of es)"
proof (cases "fd \<in> fst ` set es")
  case True
  then show ?thesis using tab_register_old(2) [OF True, of cb] by (simp add: map_of_eq_None_iff)
next
  case False
  then have "map_of es fd = None" by (simp add: map_of_eq_None_iff)
  then show ?thesis using False by (auto simp: tab_register_new map_add_def fun_eq_iff split: option.splits)
qed

interpretation fd_tab: fd_registry tab_register tab_delete map_of "\<lambda>es. MAX_FDS - length es" tab_ok
proof unfold_locales
  fix l :: "(int \<times> 'a) list" and fd cb
  show "tab_ok l \<Longrightarrow> tab_ok (tab_register l fd cb)" by (rule tab_ok_register)
  show "tab_ok l \<Longrightarrow> tab_ok (tab_delete l fd)" by (rule tab_ok_delete)
  show "tab_ok l \<Longrightarrow> 0 < MAX_FDS - length l \<or> map_of l fd \<noteq> None \<Longrightarrow>
      map_of (tab_register l fd cb) = (map_of l)(fd \<mapsto> cb)" by (auto simp: map_of_register)
  show "tab_ok l \<Longrightarrow> MAX_FDS - length l = 0 \<Longrightarrow> map_of l fd = None \<Longrightarrow>
      map_of (tab_register l fd cb) = map_of l" by (simp add: map_of_register)
  show "tab_ok l \<Longrightarrow> map_of (tab_delete l fd) = (map_of l)(fd := None)" by (rule map_of_delete)
  show "tab_ok l \<Longrightarrow> map_of l fd \<noteq> None \<Longrightarrow> MAX_FDS - length (tab_delete l fd) = Suc (MAX_FDS - length l)"
    using tab_delete_present(3) [of l fd] by (auto simp: tab_ok_def map_of_eq_None_iff)
qed

definition ev_ok :: "('f, 't) ev_loop \<Rightarrow> bool" where
  "ev_ok l \<longleftrightarrow> tab_ok (ev_fds l) \<and> tab_ok (ev_wfds l) \<and>
     distinct (map t_id (ev_timers l)) \<and> (\<forall>t \<in> set (ev_timers l). t_id t < ev_next_id l)"

lemma ev_ok_new: "ev_ok ev_new"
  by (simp add: ev_ok_def ev_new_def tab_ok_def)

lemma ev_ok_ops:
  assumes "ev_ok l"
  shows "ev_ok (ev_add_fd fd cb l)" "ev_ok (ev_del_fd fd l)" "ev_ok (ev_add_fd_write fd cb l)"
    "ev_ok (ev_del_fd_write fd l)" "ev_ok (snd (ev_timer_at w tc l))" "ev_ok (ev_timer_cancel h l)"
    "ev_ok (reap_inactive l)" "ev_ok (ev_stop l)"
proof -
  have ids: "map t_id (deactivate i ts) = map t_id ts" for i and ts :: "'b ev_timer list"
    by (simp add: deactivate_def)
  have mem: "t \<in> set (deactivate i ts) \<Longrightarrow> t_id t \<in> t_id ` set ts" for i t and ts :: "'b ev_timer list"
    by (auto simp: deactivate_def)
  show "ev_ok (ev_add_fd fd cb l)" "ev_ok (ev_del_fd fd l)" "ev_ok (ev_add_fd_write fd cb l)"
    "ev_ok (ev_del_fd_write fd l)" "ev_ok (ev_stop l)"
    using assms by (simp_all add: ev_ok_def ev_add_fd_def ev_del_fd_def ev_add_fd_write_def
        ev_del_fd_write_def ev_stop_def fd_tab.ok_add fd_tab.ok_del)
  show "ev_ok (snd (ev_timer_at w tc l))"
    using assms by (auto simp: ev_ok_def ev_timer_at_def Let_def)
  show "ev_ok (ev_timer_cancel h l)"
    using assms ids mem by (cases h) (fastforce simp: ev_ok_def ev_timer_cancel_def)+
  show "ev_ok (reap_inactive l)"
    using assms by (auto simp: ev_ok_def reap_inactive_def distinct_map inj_on_def)
qed

section \<open>Which timer fires\<close>

lemma pick_due_fold:
  "foldl (\<lambda>fire t.
        if t_active t \<and> t_when t \<le> now
        then (case fire of None \<Rightarrow> Some t | Some f \<Rightarrow> if t_when t < t_when f then Some t else fire)
        else fire) (Some f) ts = Some g \<Longrightarrow>
   (g = f \<or> g \<in> set ts \<and> t_active g \<and> t_when g \<le> now) \<and> t_when g \<le> t_when f \<and>
   (\<forall>t \<in> set ts. t_active t \<and> t_when t \<le> now \<longrightarrow> t_when g \<le> t_when t)"
proof (induction ts arbitrary: f)
  case (Cons t ts)
  show ?case
  proof (cases "t_active t \<and> t_when t \<le> now \<and> t_when t < t_when f")
    case True
    then show ?thesis using Cons.prems Cons.IH [of t] by auto
  next
    case False
    then show ?thesis using Cons.prems Cons.IH [of f] by (auto split: if_splits)
  qed
qed simp

lemma pick_due_Some_fold: "\<exists>g. foldl (\<lambda>fire t.
        if t_active t \<and> t_when t \<le> now
        then (case fire of None \<Rightarrow> Some t | Some f \<Rightarrow> if t_when t < t_when f then Some t else fire)
        else fire) (Some f) ts = Some g"
  by (induction ts arbitrary: f) auto

lemma pick_due_Cons:
  "pick_due now (t # ts) = (if t_active t \<and> t_when t \<le> now then
     foldl (\<lambda>fire t.
        if t_active t \<and> t_when t \<le> now
        then (case fire of None \<Rightarrow> Some t | Some f \<Rightarrow> if t_when t < t_when f then Some t else fire)
        else fire) (Some t) ts else pick_due now ts)"
  by (simp add: pick_due_def)

lemma pick_due_SomeD:
  "pick_due now ts = Some g \<Longrightarrow> g \<in> set ts \<and> t_active g \<and> t_when g \<le> now \<and>
     (\<forall>t \<in> set ts. t_active t \<and> t_when t \<le> now \<longrightarrow> t_when g \<le> t_when t)"
proof (induction ts)
  case (Cons t ts)
  then show ?case using pick_due_fold [of now t ts g] by (auto simp: pick_due_Cons split: if_splits)
qed (simp add: pick_due_def)

lemma pick_due_None: "pick_due now ts = None \<longleftrightarrow> (\<forall>t \<in> set ts. t_active t \<longrightarrow> now < t_when t)"
proof (induction ts)
  case (Cons t ts)
  then show ?case using pick_due_Some_fold [of now t ts] by (auto simp: pick_due_Cons not_le)
qed (simp add: pick_due_def)

section \<open>Firing the due timers\<close>

text \<open>When the loop over the due timers ends with the event loop running, none is due any more.\<close>

lemma fire_expired_done:
  assumes "fire_expired e now s = Some s'"
  shows "ev_running (get_loop e s') \<longrightarrow> pick_due now (ev_timers (get_loop e s')) = None"
  using assms
proof (rule fire_expired.raw_induct [rotated, where P = "\<lambda>e now s s'. ev_running (get_loop e s') \<longrightarrow>
    pick_due now (ev_timers (get_loop e s')) = None"], goal_cases)
  case (1 fire e now s s')
  from 1(2) show ?case
    by (auto split: option.splits bind_splits if_splits dest!: 1(1))
qed

text \<open>It ends when no callback adds a timer that is already due.\<close>

definition due_count :: "rat \<Rightarrow> 't ev_timer list \<Rightarrow> nat" where
  "due_count now ts = length (filter (\<lambda>t. t_active t \<and> t_when t \<le> now) ts)"

lemma due_count_cancel:
  assumes "t \<in> set ts" "t_active t" "t_when t \<le> now"
  shows "due_count now (deactivate (t_id t) ts) < due_count now ts"
proof -
  have le: "due_count now (deactivate i us) \<le> due_count now us" for i us
    by (induction us) (auto simp: due_count_def deactivate_def)
  from assms show ?thesis
  proof (induction ts)
    case (Cons u ts)
    then show ?case using le [of "t_id t" ts]
      by (cases "t = u") (auto simp: due_count_def deactivate_def)
  qed simp
qed

lemma fire_expired_returns:
  assumes get_put: "\<And>l s. get_loop e (put_loop e l s) = l"
    and callbacks: "\<And>c s. ok s \<Longrightarrow> \<exists>s'. run_timer e c s = Some s' \<and> ok s' \<and>
      due_count now (ev_timers (get_loop e s')) \<le> due_count now (ev_timers (get_loop e s))"
    and keep: "\<And>h s. ok s \<Longrightarrow> ok (map_loop e (ev_timer_cancel h) s)"
    and "ok s"
  shows "\<exists>s'. fire_expired e now s = Some s' \<and> ok s'"
  using \<open>ok s\<close>
proof (induction "due_count now (ev_timers (get_loop e s))" arbitrary: s rule: less_induct)
  case less
  show ?case
  proof (cases "pick_due now (ev_timers (get_loop e s))")
    case None
    then show ?thesis using less.prems by (subst fire_expired.simps) simp
  next
    case (Some t)
    let ?s = "map_loop e (ev_timer_cancel (Some (t_id t))) s"
    obtain s' where s': "run_timer e (t_cb t) ?s = Some s'" "ok s'"
        "due_count now (ev_timers (get_loop e s')) \<le> due_count now (ev_timers (get_loop e ?s))"
      using callbacks [of ?s "t_cb t"] keep [OF less.prems] by blast
    have "due_count now (ev_timers (get_loop e ?s)) < due_count now (ev_timers (get_loop e s))"
      using pick_due_SomeD [OF Some] due_count_cancel [of t]
      by (simp add: map_loop_def get_put ev_timer_cancel_def)
    then show ?thesis
      using less.hyps [of s'] s' Some by (subst fire_expired.simps) auto
  qed
qed

section \<open>Properties\<close>

text \<open>
  Registering and removing a descriptor keep both tables free of duplicates and within their
  256 entries, and act on them as maps from descriptors to callbacks: an addition to a full table
  is dropped, a removal forgets exactly that descriptor.
\<close>

theorem fd_tables_are_maps:
  assumes "ev_ok l"
  shows "ev_ok (ev_add_fd fd cb l) \<and> ev_ok (ev_del_fd fd l) \<and>
    ev_ok (ev_add_fd_write fd cb l) \<and> ev_ok (ev_del_fd_write fd l) \<and>
    map_of (ev_fds (ev_add_fd fd cb l)) =
      (if length (ev_fds l) < MAX_FDS \<or> map_of (ev_fds l) fd \<noteq> None
       then (map_of (ev_fds l))(fd \<mapsto> cb) else map_of (ev_fds l)) \<and>
    map_of (ev_fds (ev_del_fd fd l)) = (map_of (ev_fds l))(fd := None) \<and>
    map_of (ev_wfds (ev_del_fd_write fd l)) = (map_of (ev_wfds l))(fd := None) \<and>
    ev_fds (ev_del_fd_write fd l) = ev_fds l"
  using assms
  by (simp add: ev_ok_ops map_of_register)
     (simp add: ev_ok_def ev_add_fd_def ev_del_fd_def ev_del_fd_write_def map_of_register fd_tab.look_del)

lemma fd_tables_are_maps_witness:
  "map_of (ev_fds (ev_del_fd 5 (ev_add_fd 5 True (ev_new :: (bool, bool) ev_loop)))) 5 = None"
  using fd_tables_are_maps [of "ev_add_fd 5 True (ev_new :: (bool, bool) ev_loop)" 5 True,
    OF ev_ok_ops(1) [OF ev_ok_new]] by simp

text \<open>
  The timer that fires next is an active one that is due, the earliest of those; when the
  firing loop ends and the event loop was not stopped, no active timer is due.
\<close>

lemma due_timers_fire_in_order:
  assumes "fire_expired e now s = Some s'" "ev_running (get_loop e s')"
    and "pick_due now ts = Some t"
  shows "t \<in> set ts \<and> t_active t \<and> t_when t \<le> now \<and>
     (\<forall>u \<in> set ts. t_active u \<and> t_when u \<le> now \<longrightarrow> t_when t \<le> t_when u) \<and>
     (\<forall>u \<in> set (ev_timers (get_loop e s')). t_active u \<longrightarrow> now < t_when u)"
  using fire_expired_done [OF assms(1)] assms(2) pick_due_SomeD [OF assms(3)] by (simp add: pick_due_None)

text \<open>A loop whose callbacks do nothing, with one timer due at 1 and one at 5.\<close>

definition demo_env :: "(bool, bool, bool, (bool, bool) ev_loop) ev_env" where
  "demo_env = \<lparr>get_loop = id, put_loop = (\<lambda>l _. l), run_timer = (\<lambda>_. Some), run_fd = (\<lambda>_ _ _. Some)\<rparr>"

definition demo_loop :: "(bool, bool) ev_loop" where
  "demo_loop = (snd (ev_timer_at 1 True (snd (ev_timer_at 5 False ev_new))))\<lparr>ev_running := True\<rparr>"

lemma due_timers_fire_in_order_witness:
  "\<exists>s'. fire_expired demo_env 2 demo_loop = Some s' \<and>
     (\<forall>u \<in> set (ev_timers s'). t_active u \<longrightarrow> 2 < t_when u)"
proof -
  let ?s' = "ev_timer_cancel (Some 1) demo_loop"
  have p: "pick_due 2 (ev_timers demo_loop) = Some \<lparr>t_id = 1, t_when = 1, t_cb = True, t_active = True\<rparr>"
    by (simp add: demo_loop_def ev_timer_at_def ev_new_def pick_due_def)
  have "pick_due 2 (ev_timers ?s') = None"
    by (simp add: demo_loop_def ev_timer_at_def ev_new_def pick_due_def ev_timer_cancel_def deactivate_def)
  then have "fire_expired demo_env 2 ?s' = Some ?s'"
    by (subst fire_expired.simps) (simp add: demo_env_def)
  moreover have "ev_running ?s'" by (simp add: demo_loop_def ev_timer_cancel_def)
  ultimately have f: "fire_expired demo_env 2 demo_loop = Some ?s'"
    using p by (subst fire_expired.simps) (simp add: demo_env_def map_loop_def)
  show ?thesis
    using due_timers_fire_in_order [OF f _ p] f \<open>ev_running ?s'\<close> by (auto simp: demo_env_def)
qed

end
