(* ===== verification/Config_Types.thy ===== *)
theory Config_Types
  imports Complex_Main Log
begin

text \<open>
  The validated configuration of \<open>config.h\<close>: the OpenBridge peers, the CC-CC links and the
  global identity fields.  Character arrays are strings, the two arrays with their counts lists.
\<close>

definition CFG_MAX_OPENBRIDGE :: nat where
  "CFG_MAX_OPENBRIDGE = 32"

definition CFG_MAX_LINKS :: nat where
  "CFG_MAX_LINKS = 128"

datatype cc_role = CC_ROLE_OUTBOUND | CC_ROLE_INBOUND

record obp_peer_config =
  o_name :: string
  o_enabled :: bool
  o_peer_ip :: string
  o_peer_port :: int
  o_bind_port :: int
  o_network_id :: u32
  o_passphrase :: string
  o_preserve_source_peer :: bool

record link_config =
  l_name :: string
  l_enabled :: bool
  l_cross_connect_active :: bool
  l_tgid :: int
  l_openbridge_system :: string
  l_openbridge_idx :: int
  l_cc_role :: cc_role
  l_cc_lid :: int
  l_cc_remote_ip :: string
  l_cc_remote_port :: int
  l_cc_remote_voice_port :: int
  l_cc_channel_name :: string

record config =
  c_log_level :: log_level
  c_site_name :: string
  c_mac_address :: string
  c_code_revision :: string
  c_version :: string
  c_os_version :: string
  c_keepalive_interval :: rat
  c_link_timeout :: rat
  c_openbridge :: "obp_peer_config list"
  c_link :: "link_config list"

definition n_openbridge :: "config \<Rightarrow> nat" where
  "n_openbridge c = length (c_openbridge c)"

definition n_link :: "config \<Rightarrow> nat" where
  "n_link c = length (c_link c)"

text \<open>The bytes of the passphrase, \<open>passphrase_len\<close> of them, as the MAC key.\<close>

definition passphrase_key :: "obp_peer_config \<Rightarrow> bytes" where
  "passphrase_key p = map char_byte (o_passphrase p)"

text \<open>A field that fits its character array, terminator included, and holds no NUL.\<close>

definition fits :: "nat \<Rightarrow> string \<Rightarrow> bool" where
  "fits cap s \<longleftrightarrow> length s < cap \<and> CHR 0x00 \<notin> set s"

text \<open>What the loader guarantees of the fields that the protocol sends.\<close>

definition config_fits :: "config \<Rightarrow> bool" where
  "config_fits c \<longleftrightarrow>
     fits 128 (c_site_name c) \<and> fits 32 (c_mac_address c) \<and> fits 32 (c_code_revision c) \<and>
     fits 128 (c_version c) \<and> fits 128 (c_os_version c) \<and>
     n_openbridge c \<le> CFG_MAX_OPENBRIDGE \<and> n_link c \<le> CFG_MAX_LINKS \<and>
     list_all (\<lambda>l. fits 64 (l_name l) \<and> fits 64 (l_cc_remote_ip l) \<and> fits 128 (l_cc_channel_name l)) (c_link c) \<and>
     list_all (\<lambda>p. fits 64 (o_name p) \<and> fits 64 (o_peer_ip p) \<and> fits 256 (o_passphrase p)) (c_openbridge c)"

end
