(* ===== verification/State.thy ===== *)
theory State
  imports Config_Types Eventloop
begin

text \<open>
  The state that the handlers share: the running configuration, the event loop, the OpenBridge
  sockets (\<open>obp_mux\<close>), the CC-CC links and pending connections (\<open>cccc_mux\<close>), the calls
  (\<open>translator\<close>), and what the program asks of the system.

  The operating system is an input: \<open>s_sock\<close> gives the results of the calls that create a
  socket in the order they are made, \<open>s_rand\<close> those of \<open>getrandom\<close>, \<open>s_now\<close> and \<open>s_wall\<close> the
  two clocks, which stand still while one handler runs; what a read returns is an argument of the
  handler.  What the program does to the outside is recorded in \<open>s_out\<close>, oldest first.  Log
  lines are left out, except the one that is rate-limited by state.
\<close>

section \<open>Callbacks\<close>

text \<open>A registered callback with its user data, by the index the user data points at.\<close>

datatype fd_cb =
    On_obp_readable nat
  | On_link_tcp_readable nat
  | On_connect_writable nat
  | On_pending_readable nat
  | On_listen_readable
  | On_voice_readable
  | On_trial_readable

datatype timer_cb =
    Reconnect_cb nat
  | Keepalive_cb nat
  | Pending_timeout_cb nat
  | Tick_cb

section \<open>CC-CC links\<close>

datatype link_state = LST_DOWN | LST_CONNECTING | LST_HANDSHAKING | LST_UP

text \<open>\<open>rxbuf\<close> with \<open>rxlen\<close>, and \<open>hslines\<close> with \<open>hsnlines\<close>, are the lists of their valid entries.\<close>

record cc_link =
  lk_state :: link_state
  lk_active :: bool
  lk_fd :: int
  lk_reconnect_timer :: "nat option"
  lk_keepalive_timer :: "nat option"
  lk_sync_source :: u32
  lk_has_sync_source :: bool
  lk_last_keepalive_recv :: rat
  lk_rxbuf :: string
  lk_hslines :: "string list"

record pending_conn =
  p_in_use :: bool
  p_fd :: int
  p_src_ip :: string
  p_rxbuf :: string
  p_qlines :: "string list"
  p_timeout_timer :: "nat option"

definition MAX_PENDING :: nat where
  "MAX_PENDING = 32"

section \<open>Calls\<close>

datatype call_origin = CALL_ORIGIN_NONE | CALL_ORIGIN_CC | CALL_ORIGIN_OBP

record call_state =
  cs_origin :: call_origin
  cs_rf_src :: u32
  cs_peer_id :: u32
  cs_cc_peer_id :: u32
  cs_stream_id :: bytes
  cs_lc :: bytes
  cs_emb :: "bytes list"
  cs_call_start_time :: rat
  cs_last_activity :: rat
  cs_cc_sent_first :: bool
  cs_cc_seq :: int
  cs_obp_seq_pos :: nat

definition zero_call :: call_state where
  "zero_call = \<lparr>cs_origin = CALL_ORIGIN_NONE, cs_rf_src = 0, cs_peer_id = 0, cs_cc_peer_id = 0,
     cs_stream_id = replicate 4 0, cs_lc = replicate 9 0, cs_emb = replicate 4 (replicate 4 0),
     cs_call_start_time = 0, cs_last_activity = 0, cs_cc_sent_first = False, cs_cc_seq = 0,
     cs_obp_seq_pos = 0\<rparr>"

record link_runtime =
  lr_has_call :: bool
  lr_call :: call_state
  lr_cx_drop_logged :: bool

section \<open>The system\<close>

text \<open>
  What the read of a handler returns: a datagram with its source, bytes of a stream, its end, no
  data yet, an error, the pending error of a connecting socket, or the connections to accept.
\<close>

datatype input =
    In_datagram bytes string int
  | In_bytes bytes
  | In_eof
  | In_again
  | In_error
  | In_sockerr int
  | In_accept "(int \<times> string) list"

datatype effect =
    Udp_send int bytes string int
  | Tcp_send int string
  | Close int
  | Log_cx_drop nat

record sys =
  s_cfg :: config
  s_loop :: "(fd_cb, timer_cb) ev_loop"
  s_now :: rat
  s_wall :: "int \<times> int"
  s_sock :: "nat \<Rightarrow> int"
  s_nsock :: nat
  s_rand :: "nat \<Rightarrow> u32"
  s_nrand :: nat
  s_obp_fd :: "nat \<Rightarrow> int"
  s_obp_active :: "nat \<Rightarrow> bool"
  s_voice_fd :: int
  s_trial_fd :: int
  s_listen_fd :: int
  s_links :: "nat \<Rightarrow> cc_link"
  s_pending :: "nat \<Rightarrow> pending_conn"
  s_user_ctr :: "nat \<Rightarrow> int"
  s_runtime :: "nat \<Rightarrow> link_runtime"
  s_obp_seq_ctr :: "nat \<Rightarrow> nat"
  s_reload_requested :: bool
  s_shutdown_requested :: bool
  s_out :: "effect list"

abbreviation link_cfg :: "sys \<Rightarrow> nat \<Rightarrow> link_config" where
  "link_cfg s i \<equiv> c_link (s_cfg s) ! i"

abbreviation peer_cfg :: "sys \<Rightarrow> nat \<Rightarrow> obp_peer_config" where
  "peer_cfg s i \<equiv> c_openbridge (s_cfg s) ! i"

section \<open>Before the components start\<close>

definition zero_link :: cc_link where
  "zero_link = \<lparr>lk_state = LST_DOWN, lk_active = False, lk_fd = - 1, lk_reconnect_timer = None,
     lk_keepalive_timer = None, lk_sync_source = 0, lk_has_sync_source = False,
     lk_last_keepalive_recv = 0, lk_rxbuf = [], lk_hslines = []\<rparr>"

definition zero_pending :: pending_conn where
  "zero_pending = \<lparr>p_in_use = False, p_fd = 0, p_src_ip = [], p_rxbuf = [], p_qlines = [],
     p_timeout_timer = None\<rparr>"

definition zero_runtime :: link_runtime where
  "zero_runtime = \<lparr>lr_has_call = False, lr_call = zero_call, lr_cx_drop_logged = False\<rparr>"

text \<open>The state after the four \<open>_new\<close> functions: everything empty and nothing connected.\<close>

definition blank_sys :: "config \<Rightarrow> (nat \<Rightarrow> int) \<Rightarrow> (nat \<Rightarrow> u32) \<Rightarrow> sys" where
  "blank_sys c sock rnd =
     \<lparr>s_cfg = c, s_loop = ev_new, s_now = 0, s_wall = (0, 0), s_sock = sock, s_nsock = 0,
      s_rand = rnd, s_nrand = 0, s_obp_fd = (\<lambda>_. - 1), s_obp_active = (\<lambda>_. False),
      s_voice_fd = - 1, s_trial_fd = - 1, s_listen_fd = - 1, s_links = (\<lambda>_. zero_link),
      s_pending = (\<lambda>_. zero_pending), s_user_ctr = (\<lambda>_. 0), s_runtime = (\<lambda>_. zero_runtime),
      s_obp_seq_ctr = (\<lambda>_. 0), s_reload_requested = False, s_shutdown_requested = False, s_out = []\<rparr>"

text \<open>A small configuration for concrete runs: one peer, one outbound and one inbound link.\<close>

definition demo_peer :: obp_peer_config where
  "demo_peer = \<lparr>o_name = ''HBL'', o_enabled = True, o_peer_ip = ''10.0.0.2'', o_peer_port = 62001,
     o_bind_port = 62002, o_network_id = 3112345, o_passphrase = ''secret'', o_preserve_source_peer = False\<rparr>"

definition demo_link :: link_config where
  "demo_link = \<lparr>l_name = ''STATE'', l_enabled = True, l_cross_connect_active = True, l_tgid = 3120,
     l_openbridge_system = ''HBL'', l_openbridge_idx = 0, l_cc_role = CC_ROLE_OUTBOUND, l_cc_lid = 12,
     l_cc_remote_ip = ''10.0.0.3'', l_cc_remote_port = 42421, l_cc_remote_voice_port = 42422,
     l_cc_channel_name = ''CHAN''\<rparr>"

definition demo_config :: config where
  "demo_config = \<lparr>c_log_level = LOG_INFO, c_site_name = ''SITE'', c_mac_address = ''001122334455'',
     c_code_revision = ''1'', c_version = ''1'', c_os_version = ''L'', c_keepalive_interval = 10,
     c_link_timeout = 35, c_openbridge = [demo_peer],
     c_link = [demo_link, demo_link\<lparr>l_name := ''LOCAL'', l_tgid := 8, l_cc_role := CC_ROLE_INBOUND, l_cc_lid := 3\<rparr>]\<rparr>"

definition demo_sys :: sys where
  "demo_sys = blank_sys demo_config (\<lambda>k. 10 + int k) (\<lambda>k. of_nat (k + 1))"

lemmas demo_defs = demo_sys_def blank_sys_def demo_config_def demo_peer_def demo_link_def
  zero_link_def zero_pending_def zero_runtime_def zero_call_def

section \<open>Access\<close>

definition emit :: "effect \<Rightarrow> sys \<Rightarrow> sys" where
  "emit e s = s\<lparr>s_out := s_out s @ [e]\<rparr>"

definition on_loop :: "((fd_cb, timer_cb) ev_loop \<Rightarrow> (fd_cb, timer_cb) ev_loop) \<Rightarrow> sys \<Rightarrow> sys" where
  "on_loop f s = s\<lparr>s_loop := f (s_loop s)\<rparr>"

definition on_link :: "nat \<Rightarrow> (cc_link \<Rightarrow> cc_link) \<Rightarrow> sys \<Rightarrow> sys" where
  "on_link i f s = s\<lparr>s_links := (s_links s)(i := f (s_links s i))\<rparr>"

definition on_pending :: "nat \<Rightarrow> (pending_conn \<Rightarrow> pending_conn) \<Rightarrow> sys \<Rightarrow> sys" where
  "on_pending i f s = s\<lparr>s_pending := (s_pending s)(i := f (s_pending s i))\<rparr>"

definition on_runtime :: "nat \<Rightarrow> (link_runtime \<Rightarrow> link_runtime) \<Rightarrow> sys \<Rightarrow> sys" where
  "on_runtime i f s = s\<lparr>s_runtime := (s_runtime s)(i := f (s_runtime s i))\<rparr>"

definition on_call :: "nat \<Rightarrow> (call_state \<Rightarrow> call_state) \<Rightarrow> sys \<Rightarrow> sys" where
  "on_call i f s = on_runtime i (\<lambda>lr. lr\<lparr>lr_call := f (lr_call lr)\<rparr>) s"

text \<open>The next socket the system creates, and the next random word.\<close>

definition next_sock :: "sys \<Rightarrow> int \<times> sys" where
  "next_sock s = (s_sock s (s_nsock s), s\<lparr>s_nsock := Suc (s_nsock s)\<rparr>)"

definition next_rand :: "sys \<Rightarrow> u32 \<times> sys" where
  "next_rand s = (s_rand s (s_nrand s), s\<lparr>s_nrand := Suc (s_nrand s)\<rparr>)"

text \<open>A timer that fires \<open>delay\<close> seconds from now; the handle comes first.\<close>

definition timer_after :: "rat \<Rightarrow> timer_cb \<Rightarrow> sys \<Rightarrow> nat \<times> sys" where
  "timer_after delay cb s =
     (let (h, l) = ev_timer_after (s_now s) delay cb (s_loop s) in (h, s\<lparr>s_loop := l\<rparr>))"

lemmas access_defs = emit_def on_loop_def on_link_def on_pending_def on_runtime_def on_call_def
  next_sock_def next_rand_def timer_after_def

section \<open>Big-endian fields\<close>

unbundle bit_operations_syntax

definition rd24 :: "bytes \<Rightarrow> nat \<Rightarrow> u32" where
  "rd24 p k = push_bit 16 (ucast (p ! k)) OR push_bit 8 (ucast (p ! (k+1))) OR ucast (p ! (k+2))"

definition rd32 :: "bytes \<Rightarrow> nat \<Rightarrow> u32" where
  "rd32 p k = push_bit 24 (ucast (p ! k)) OR push_bit 16 (ucast (p ! (k+1))) OR
     push_bit 8 (ucast (p ! (k+2))) OR ucast (p ! (k+3))"

definition rd16 :: "bytes \<Rightarrow> nat \<Rightarrow> u16" where
  "rd16 p k = push_bit 8 (ucast (p ! k)) OR ucast (p ! (k+1))"

definition wr24 :: "u32 \<Rightarrow> bytes" where
  "wr24 v = [ucast (drop_bit 16 v), ucast (drop_bit 8 v), ucast v]"

definition wr32 :: "u32 \<Rightarrow> bytes" where
  "wr32 v = [ucast (drop_bit 24 v), ucast (drop_bit 16 v), ucast (drop_bit 8 v), ucast v]"

definition wr16 :: "u16 \<Rightarrow> bytes" where
  "wr16 v = [ucast (drop_bit 8 v), ucast v]"

lemma length_wr [simp, array_len]: "length (wr24 v) = 3" "length (wr32 v) = 4" "length (wr16 w) = 2"
  by (simp_all add: wr24_def wr32_def wr16_def)

lemma nth_append_offset: "length a = k \<Longrightarrow> (a @ b) ! (k + i) = b ! i"
  by (simp add: nth_append)

lemma rd32_wr32: "rd32 (wr32 v) 0 = v"
proof (rule bit_word_eqI)
  fix n :: nat
  consider "n < 8" | "8 \<le> n" "n < 16" | "16 \<le> n" "n < 24" | "24 \<le> n" by linarith
  then show "n < LENGTH(32) \<Longrightarrow> bit (rd32 (wr32 v) 0) n = bit v n"
    by cases (auto simp: rd32_def wr32_def bit_simps)
qed

lemma rd16_wr16: "rd16 (wr16 v) 0 = v"
  by (rule bit_word_eqI) (auto simp: rd16_def wr16_def bit_simps)

lemma rd24_wr24: "rd24 (wr24 v) 0 = take_bit 24 v"
proof (rule bit_word_eqI)
  fix n :: nat
  consider "n < 8" | "8 \<le> n" "n < 16" | "16 \<le> n" "n < 24" | "24 \<le> n" by linarith
  then show "n < LENGTH(32) \<Longrightarrow> bit (rd24 (wr24 v) 0) n = bit (take_bit 24 v) n"
    by cases (auto simp: rd24_def wr24_def bit_simps)
qed

lemma rd_at:
  assumes "length a = k"
  shows "rd32 (a @ b) k = rd32 b 0" "rd24 (a @ b) k = rd24 b 0" "rd16 (a @ b) k = rd16 b 0"
  using assms by (simp_all add: rd32_def rd24_def rd16_def nth_append numeral_2_eq_2)

lemma rd_front:
  "4 \<le> length a \<Longrightarrow> rd32 (a @ b) 0 = rd32 a 0"
  "3 \<le> length a \<Longrightarrow> rd24 (a @ b) 0 = rd24 a 0"
  "2 \<le> length a \<Longrightarrow> rd16 (a @ b) 0 = rd16 a 0"
  by (auto simp: rd32_def rd24_def rd16_def nth_append)

end
