(* ===== verification/Obp_Link.thy ===== *)
theory Obp_Link
  imports State Crypto
begin

text \<open>
  \<open>openbridge/obp_link.c\<close>: the socket of each enabled OpenBridge peer, the framing of a DMRD
  body with its HMAC, and the checks a received datagram has to pass.  The handler that hands an
  accepted body to the translator is in the theory of the established links.
\<close>

unbundle bit_operations_syntax

section \<open>Constants\<close>

definition OBP_DMRD_BODY_LEN :: nat where "OBP_DMRD_BODY_LEN = 53"
definition OBP_HMAC_LEN :: nat where "OBP_HMAC_LEN = 20"
definition OBP_DMRD_PKT_LEN :: nat where "OBP_DMRD_PKT_LEN = OBP_DMRD_BODY_LEN + OBP_HMAC_LEN"
definition OBP_SRC_OFF :: nat where "OBP_SRC_OFF = 5"
definition OBP_DST_OFF :: nat where "OBP_DST_OFF = 8"
definition OBP_NETID_OFF :: nat where "OBP_NETID_OFF = 11"
definition OBP_FLAGS_OFF :: nat where "OBP_FLAGS_OFF = 15"
definition OBP_STREAM_OFF :: nat where "OBP_STREAM_OFF = 16"
definition OBP_PAYLOAD_OFF :: nat where "OBP_PAYLOAD_OFF = 20"

definition OBPF_SLOT2 :: u8 where "OBPF_SLOT2 = 0x80"
definition OBPF_CALL_UNIT :: u8 where "OBPF_CALL_UNIT = 0x40"
definition OBPF_FRAMETYPE_MASK :: u8 where "OBPF_FRAMETYPE_MASK = 0x30"
definition OBPF_FRAMETYPE_VOICE :: u8 where "OBPF_FRAMETYPE_VOICE = 0x00"
definition OBPF_FRAMETYPE_VOICESYNC :: u8 where "OBPF_FRAMETYPE_VOICESYNC = 0x10"
definition OBPF_FRAMETYPE_DATASYNC :: u8 where "OBPF_FRAMETYPE_DATASYNC = 0x20"
definition OBPF_DTYPE_MASK :: u8 where "OBPF_DTYPE_MASK = 0x0F"
definition OBPF_SLT_VHEAD :: u8 where "OBPF_SLT_VHEAD = 0x01"
definition OBPF_SLT_VTERM :: u8 where "OBPF_SLT_VTERM = 0x02"
definition OBPF_VCSBK_MASK :: u8 where "OBPF_VCSBK_MASK = 0x23"

lemmas obp_consts = OBP_DMRD_BODY_LEN_def OBP_HMAC_LEN_def OBP_DMRD_PKT_LEN_def OBP_SRC_OFF_def
  OBP_DST_OFF_def OBP_NETID_OFF_def OBP_FLAGS_OFF_def OBP_STREAM_OFF_def OBP_PAYLOAD_OFF_def

lemmas obp_flags = OBPF_SLOT2_def OBPF_CALL_UNIT_def OBPF_FRAMETYPE_MASK_def OBPF_FRAMETYPE_VOICE_def
  OBPF_FRAMETYPE_VOICESYNC_def OBPF_FRAMETYPE_DATASYNC_def OBPF_DTYPE_MASK_def OBPF_SLT_VHEAD_def
  OBPF_SLT_VTERM_def OBPF_VCSBK_MASK_def

definition DMRD :: bytes where
  "DMRD = map char_byte ''DMRD''"

lemma length_DMRD [simp]: "length DMRD = 4"
  by (simp add: DMRD_def)

section \<open>Digests\<close>

definition ct_eq :: "bytes \<Rightarrow> bytes \<Rightarrow> nat \<Rightarrow> bool" where
  "ct_eq a b k = (foldl (\<lambda>diff i. diff OR (a ! i XOR b ! i)) 0 [0..<k] = 0)"

text \<open>The digest as the callers see it; \<open>hmac_sha1\<close> returns for every key and message.\<close>

definition obp_mac :: "bytes \<Rightarrow> bytes \<Rightarrow> bytes" where
  "obp_mac key msg = (case hmac_sha1 key msg of Some d \<Rightarrow> d | None \<Rightarrow> [])"

section \<open>Receiving\<close>

datatype verdict = Not_dmrd | Bad_length | Bad_source | Bad_hmac | Bad_slot | Accepted

text \<open>The checks of \<open>on_obp_readable\<close> in their order; \<open>data\<close> is cut to the 128 byte buffer.\<close>

definition obp_verdict :: "obp_peer_config \<Rightarrow> bytes \<Rightarrow> string \<Rightarrow> int \<Rightarrow> verdict" where
  "obp_verdict p data src_ip src_port =
     (let buf = take 128 data; k = length buf in
      if k < 4 \<or> take 4 buf \<noteq> DMRD then Not_dmrd
      else if k \<noteq> OBP_DMRD_PKT_LEN then Bad_length
      else if src_ip \<noteq> o_peer_ip p \<or> src_port \<noteq> o_peer_port p then Bad_source
      else if \<not> ct_eq (obp_mac (passphrase_key p) (take OBP_DMRD_BODY_LEN buf))
                  (drop OBP_DMRD_BODY_LEN buf) OBP_HMAC_LEN then Bad_hmac
      else if buf ! OBP_FLAGS_OFF AND OBPF_SLOT2 \<noteq> 0 then Bad_slot
      else Accepted)"

section \<open>Sending\<close>

text \<open>Bytes 11 to 14 become the peer's own network id unless the source peer is preserved.\<close>

definition obp_body :: "obp_peer_config \<Rightarrow> bytes \<Rightarrow> bytes" where
  "obp_body p body =
     (if o_preserve_source_peer p then body
      else take OBP_NETID_OFF body @ wr32 (o_network_id p) @ drop (OBP_NETID_OFF + 4) body)"

definition obp_packet :: "obp_peer_config \<Rightarrow> bytes \<Rightarrow> bytes" where
  "obp_packet p body =
     (let b = obp_body p body in b @ obp_mac (passphrase_key p) (take OBP_DMRD_BODY_LEN b))"

definition obp_send_dmrd :: "nat \<Rightarrow> bytes \<Rightarrow> sys \<Rightarrow> sys" where
  "obp_send_dmrd peer_idx body s =
     (if peer_idx \<ge> n_openbridge (s_cfg s) \<or> s_obp_fd s peer_idx < 0 then s
      else let p = peer_cfg s peer_idx
           in emit (Udp_send (s_obp_fd s peer_idx) (obp_packet p body) (o_peer_ip p) (o_peer_port p)) s)"

section \<open>Sockets\<close>

definition bind_peer :: "nat \<Rightarrow> sys \<Rightarrow> sys" where
  "bind_peer idx s =
     (let (fd, s) = next_sock s;
          s = s\<lparr>s_obp_fd := (s_obp_fd s)(idx := fd)\<rparr>
      in if fd < 0 then s
         else (on_loop (ev_add_fd fd (On_obp_readable idx)) s)\<lparr>s_obp_active := (s_obp_active s)(idx := True)\<rparr>)"

definition unbind_peer :: "nat \<Rightarrow> sys \<Rightarrow> sys" where
  "unbind_peer idx s =
     (let fd = s_obp_fd s idx;
          s = (if fd \<ge> 0
               then (emit (Close fd) (on_loop (ev_del_fd fd) s))\<lparr>s_obp_fd := (s_obp_fd s)(idx := - 1)\<rparr>
               else s)
      in s\<lparr>s_obp_active := (s_obp_active s)(idx := False)\<rparr>)"

definition obp_peer_is_enabled :: "sys \<Rightarrow> int \<Rightarrow> bool" where
  "obp_peer_is_enabled s peer_idx =
     (if peer_idx < 0 \<or> peer_idx \<ge> int (n_openbridge (s_cfg s)) then False
      else s_obp_active s (nat peer_idx))"

definition obp_mux_start :: "sys \<Rightarrow> sys" where
  "obp_mux_start s =
     foldl (\<lambda>s i. if o_enabled (peer_cfg s i) then bind_peer i s else s) s [0..<n_openbridge (s_cfg s)]"

definition obp_reconcile_peer :: "sys \<Rightarrow> nat \<Rightarrow> sys" where
  "obp_reconcile_peer s i =
     (let enabled = o_enabled (peer_cfg s i) in
      if enabled \<and> \<not> s_obp_active s i then bind_peer i s
      else if \<not> enabled \<and> s_obp_active s i then unbind_peer i s
      else s)"

definition obp_mux_reconcile :: "sys \<Rightarrow> sys" where
  "obp_mux_reconcile s = foldl obp_reconcile_peer s [0..<n_openbridge (s_cfg s)]"

definition obp_mux_stop :: "sys \<Rightarrow> sys" where
  "obp_mux_stop s =
     foldl (\<lambda>s i. if s_obp_active s i then unbind_peer i s else s) s [0..<n_openbridge (s_cfg s)]"

section \<open>The digest check\<close>

lemma or_eq_0: "a OR b = 0 \<longleftrightarrow> a = 0 \<and> b = (0 :: 'a::len word)"
  by (auto simp: bit_eq_iff bit_simps)

lemma xor_eq_0: "a XOR b = 0 \<longleftrightarrow> a = (b :: 'a::len word)"
  by (auto simp: bit_eq_iff bit_simps)

lemma ct_eq_iff: "length a = k \<Longrightarrow> length b = k \<Longrightarrow> ct_eq a b k \<longleftrightarrow> a = b"
proof -
  assume l: "length a = k" "length b = k"
  have "foldl (\<lambda>diff i. diff OR (a ! i XOR b ! i)) d is = 0 \<longleftrightarrow> d = 0 \<and> (\<forall>i \<in> set is. a ! i = b ! i)"
    for d and "is" :: "nat list"
    by (induction "is" arbitrary: d) (auto simp: or_eq_0 xor_eq_0)
  then have "ct_eq a b k \<longleftrightarrow> (\<forall>i \<in> set [0..<k]. a ! i = b ! i)" unfolding ct_eq_def by simp
  also have "\<dots> \<longleftrightarrow> a = b" using l by (auto intro: nth_equalityI)
  finally show ?thesis .
qed

section \<open>Authenticated packets\<close>

text \<open>What the framing relies on: a tag of fixed length for every key and message.\<close>

locale packet_auth =
  fixes mac :: "bytes \<Rightarrow> bytes \<Rightarrow> bytes"
    and tag_len :: nat
  assumes mac_len: "length (mac key msg) = tag_len"
begin

definition signed :: "bytes \<Rightarrow> nat \<Rightarrow> bytes \<Rightarrow> bool" where
  "signed key body_len pkt \<longleftrightarrow> length pkt = body_len + tag_len \<and>
     ct_eq (mac key (take body_len pkt)) (drop body_len pkt) tag_len"

lemma signed_iff: "signed key l pkt \<longleftrightarrow> (\<exists>body. length body = l \<and> pkt = body @ mac key body)"
proof
  assume s: "signed key l pkt"
  then have "length (drop l pkt) = tag_len" by (simp add: signed_def)
  with s have "mac key (take l pkt) = drop l pkt"
    using ct_eq_iff [OF mac_len, of "drop l pkt"] by (simp add: signed_def)
  then have "pkt = take l pkt @ mac key (take l pkt)" by simp
  moreover have "length (take l pkt) = l" using s by (simp add: signed_def)
  ultimately show "\<exists>body. length body = l \<and> pkt = body @ mac key body" by blast
next
  assume "\<exists>body. length body = l \<and> pkt = body @ mac key body"
  then obtain body where b: "length body = l" "pkt = body @ mac key body" by blast
  then show "signed key l pkt"
    using ct_eq_iff [OF mac_len mac_len, of key body key body] by (simp add: signed_def mac_len)
qed

text \<open>A packet signed under one key is signed under another only if the tags of its body agree.\<close>

lemma signed_other_key:
  "signed key l pkt \<Longrightarrow> signed key' l pkt \<longleftrightarrow> mac key' (take l pkt) = mac key (take l pkt)"
proof -
  assume s: "signed key l pkt"
  then have l: "length pkt = l + tag_len" and d: "drop l pkt = mac key (take l pkt)"
    by (auto simp: signed_iff mac_len)
  show ?thesis
    using ct_eq_iff [OF mac_len mac_len, of key' "take l pkt" key "take l pkt"] l
    by (simp add: signed_def d)
qed

end

lemma obp_mac_eq: "obp_mac key msg = hmac_sha1_spec key msg"
  by (simp add: obp_mac_def hmac_sha1_eq)

interpretation obp_auth: packet_auth obp_mac 20
  by unfold_locales (simp add: obp_mac_eq)

lemma verdict_Accepted_iff:
  "obp_verdict p data ip port = Accepted \<longleftrightarrow>
     (\<exists>body. length body = 53 \<and> data = body @ obp_mac (passphrase_key p) body \<and> take 4 body = DMRD \<and>
        ip = o_peer_ip p \<and> port = o_peer_port p \<and> \<not> bit (body ! 15) 7)"
    (is "?l \<longleftrightarrow> ?r")
proof -
  have slot: "w AND OBPF_SLOT2 \<noteq> 0 \<longleftrightarrow> bit w 7" for w :: u8
    by (simp add: OBPF_SLOT2_def and_exp_eq_0_iff_not_bit [of w 7, simplified])
  have len: "length (take 128 data) = 73 \<longleftrightarrow> length data = 73" by auto
  have "?l \<longleftrightarrow> length data = 73 \<and> take 4 data = DMRD \<and> ip = o_peer_ip p \<and> port = o_peer_port p \<and>
      obp_auth.signed (passphrase_key p) 53 data \<and> \<not> bit (data ! 15) 7"
    using len by (auto simp: obp_verdict_def Let_def obp_auth.signed_def slot obp_consts)
  also have "\<dots> \<longleftrightarrow> ?r"
    by (auto simp: obp_auth.signed_iff nth_append obp_auth.mac_len)
  finally show ?thesis .
qed

lemma length_obp_body: "length body = 53 \<Longrightarrow> length (obp_body p body) = 53"
  by (simp add: obp_body_def obp_consts)

lemma obp_packet_eq:
  "length body = 53 \<Longrightarrow> obp_packet p body = obp_body p body @ obp_mac (passphrase_key p) (obp_body p body)"
  by (simp add: obp_packet_def Let_def length_obp_body OBP_DMRD_BODY_LEN_def)

lemma length_obp_packet: "length body = 53 \<Longrightarrow> length (obp_packet p body) = 73"
  by (simp add: obp_packet_eq length_obp_body obp_auth.mac_len)

lemma obp_body_nth:
  "length body = 53 \<Longrightarrow> i < 53 \<Longrightarrow> i \<notin> {11..<15} \<Longrightarrow> obp_body p body ! i = body ! i"
  by (auto simp: obp_body_def obp_consts nth_append)

lemma obp_body_head: "length body = 53 \<Longrightarrow> take 4 (obp_body p body) = take 4 body"
  by (simp add: obp_body_def obp_consts)

section \<open>Socket bookkeeping\<close>

text \<open>A peer is active exactly when it has a socket.\<close>

definition obp_ok :: "sys \<Rightarrow> bool" where
  "obp_ok s \<longleftrightarrow> (\<forall>i. s_obp_active s i \<longleftrightarrow> 0 \<le> s_obp_fd s i)"

lemma bind_peer_fields [frame]:
  "s_cfg (bind_peer i s) = s_cfg s" "s_runtime (bind_peer i s) = s_runtime s"
  "s_links (bind_peer i s) = s_links s" "s_out (bind_peer i s) = s_out s"
  "s_obp_fd (bind_peer i s) = (s_obp_fd s)(i := s_sock s (s_nsock s))"
  "s_obp_active (bind_peer i s) = (if s_sock s (s_nsock s) < 0 then s_obp_active s else (s_obp_active s)(i := True))"
  by (simp_all add: bind_peer_def next_sock_def on_loop_def Let_def)

lemma unbind_peer_fields [frame]:
  "s_cfg (unbind_peer i s) = s_cfg s" "s_runtime (unbind_peer i s) = s_runtime s"
  "s_links (unbind_peer i s) = s_links s"
  "s_obp_fd (unbind_peer i s) = (if 0 \<le> s_obp_fd s i then (s_obp_fd s)(i := - 1) else s_obp_fd s)"
  "s_obp_active (unbind_peer i s) = (s_obp_active s)(i := False)"
  by (simp_all add: unbind_peer_def emit_def on_loop_def Let_def)

lemma obp_ok_bind: "obp_ok s \<Longrightarrow> \<not> s_obp_active s i \<Longrightarrow> obp_ok (bind_peer i s)"
  by (auto simp: obp_ok_def bind_peer_fields)

lemma obp_ok_unbind: "obp_ok s \<Longrightarrow> obp_ok (unbind_peer i s)"
  by (auto simp: obp_ok_def unbind_peer_fields)

lemma reconcile_peer_cases:
  obtains (bind) "o_enabled (peer_cfg s i)" "\<not> s_obp_active s i" "obp_reconcile_peer s i = bind_peer i s"
  | (unbind) "\<not> o_enabled (peer_cfg s i)" "s_obp_active s i" "obp_reconcile_peer s i = unbind_peer i s"
  | (same) "o_enabled (peer_cfg s i) = s_obp_active s i" "obp_reconcile_peer s i = s"
  by (cases "o_enabled (peer_cfg s i)"; cases "s_obp_active s i")
     (auto simp: obp_reconcile_peer_def intro: that)

lemma reconcile_peer_ok: "obp_ok s \<Longrightarrow> obp_ok (obp_reconcile_peer s i)"
  by (cases rule: reconcile_peer_cases [where s = "s" and i = i]) (simp_all add: obp_ok_bind obp_ok_unbind)

lemma reconcile_peer_cfg [frame]: "s_cfg (obp_reconcile_peer s i) = s_cfg s"
  by (cases rule: reconcile_peer_cases [where s = "s" and i = i]) (simp_all add: frame)

lemma reconcile_peer_other:
  "i \<noteq> j \<Longrightarrow> s_obp_fd (obp_reconcile_peer s j) i = s_obp_fd s i \<and>
     s_obp_active (obp_reconcile_peer s j) i = s_obp_active s i"
  by (cases rule: reconcile_peer_cases [where s = "s" and i = j]) (auto simp: frame)

text \<open>What one step establishes for its own peer.\<close>

definition reconciled :: "sys \<Rightarrow> nat \<Rightarrow> sys \<Rightarrow> bool" where
  "reconciled s0 i s \<longleftrightarrow>
     (s_obp_active s i \<longrightarrow> o_enabled (peer_cfg s0 i)) \<and>
     (o_enabled (peer_cfg s0 i) \<and> s_obp_active s0 i \<longrightarrow> s_obp_fd s i = s_obp_fd s0 i) \<and>
     (o_enabled (peer_cfg s0 i) \<and> \<not> s_obp_active s i \<longrightarrow> (\<exists>k. s_sock s0 k < 0))"

lemma reconcile_steps:
  assumes "obp_ok s0"
  shows "let s = foldl obp_reconcile_peer s0 [0..<k] in
     obp_ok s \<and> s_cfg s = s_cfg s0 \<and> s_sock s = s_sock s0 \<and> (\<forall>i < k. reconciled s0 i s) \<and>
     (\<forall>i \<ge> k. s_obp_fd s i = s_obp_fd s0 i \<and> s_obp_active s i = s_obp_active s0 i)"
proof (induction k)
  case 0
  then show ?case using assms by simp
next
  case (Suc k)
  let ?s = "foldl obp_reconcile_peer s0 [0..<k]"
  have ok: "obp_ok ?s" "s_cfg ?s = s_cfg s0" "s_sock ?s = s_sock s0" "\<And>i. i < k \<Longrightarrow> reconciled s0 i ?s"
    "\<And>i. k \<le> i \<Longrightarrow> s_obp_fd ?s i = s_obp_fd s0 i \<and> s_obp_active ?s i = s_obp_active s0 i"
    using Suc.IH by (auto simp: Let_def)
  let ?t = "obp_reconcile_peer ?s k"
  have sock: "s_sock ?t = s_sock s0"
    using ok(3) by (cases rule: reconcile_peer_cases [where s = "?s" and i = k])
      (simp_all add: bind_peer_def unbind_peer_def next_sock_def on_loop_def emit_def Let_def)
  have own: "reconciled s0 k ?t"
    using ok(1-3) ok(5) [of k]
    by (cases rule: reconcile_peer_cases [where s = "?s" and i = k]) (auto simp: reconciled_def frame)
  have "reconciled s0 i ?t" if "i < k" for i
    using ok(4) [OF that] reconcile_peer_other [of i k ?s] that by (simp add: reconciled_def)
  with own have "\<forall>i < Suc k. reconciled s0 i ?t" by (simp add: all_lt_Suc)
  moreover have "\<forall>i \<ge> Suc k. s_obp_fd ?t i = s_obp_fd s0 i \<and> s_obp_active ?t i = s_obp_active s0 i"
    using ok(5) reconcile_peer_other by simp
  ultimately show ?case using ok sock by (simp add: Let_def reconcile_peer_ok reconcile_peer_cfg)
qed

section \<open>Properties\<close>

text \<open>
  C19: a datagram passes the checks exactly when it is a 53-byte DMRD body followed by its HMAC
  under the peer's passphrase, comes from the configured address and port, and is on slot 1.
\<close>

theorem obp_accepts_iff:
  "obp_verdict p data ip port = Accepted \<longleftrightarrow>
     (\<exists>body mac. hmac_sha1 (passphrase_key p) body = Some mac \<and> data = body @ mac \<and>
        length body = OBP_DMRD_BODY_LEN \<and> take 4 body = DMRD \<and>
        ip = o_peer_ip p \<and> port = o_peer_port p \<and> \<not> bit (body ! OBP_FLAGS_OFF) 7)"
  by (auto simp: verdict_Accepted_iff obp_mac_eq hmac_sha1_eq OBP_DMRD_BODY_LEN_def OBP_FLAGS_OFF_def)

text \<open>
  C27: sending a slot 1 DMRD body to a bound peer emits one datagram to that peer's address; it
  carries the body with bytes 11 to 14 replaced by the network id unless the source peer is
  preserved, and every receiver that shares the passphrase and expects that source accepts it.
\<close>

theorem obp_send_is_accepted:
  assumes "i < n_openbridge (s_cfg s)" "0 \<le> s_obp_fd s i" "length body = 53" "take 4 body = DMRD"
    and "\<not> bit (body ! 15) 7" "o_passphrase q = o_passphrase (peer_cfg s i)"
  shows "\<exists>pkt. obp_send_dmrd i body s =
      s\<lparr>s_out := s_out s @ [Udp_send (s_obp_fd s i) pkt (o_peer_ip (peer_cfg s i)) (o_peer_port (peer_cfg s i))]\<rparr> \<and>
    obp_verdict q pkt (o_peer_ip q) (o_peer_port q) = Accepted \<and>
    take 11 pkt = take 11 body \<and> drop 15 (take 53 pkt) = drop 15 body \<and>
    (if o_preserve_source_peer (peer_cfg s i) then take 53 pkt = body
     else rd32 pkt 11 = o_network_id (peer_cfg s i))"
proof -
  let ?p = "peer_cfg s i"
  let ?b = "obp_body ?p body" and ?pkt = "obp_packet ?p body"
  have b: "length ?b = 53" "take 4 ?b = DMRD" "\<not> bit (?b ! 15) 7"
    using assms obp_body_nth [of body 15 ?p] by (simp_all add: length_obp_body obp_body_head)
  have pkt: "?pkt = ?b @ obp_mac (passphrase_key ?p) ?b" using assms(3) by (rule obp_packet_eq)
  have "obp_verdict q ?pkt (o_peer_ip q) (o_peer_port q) = Accepted"
    using b assms(6) by (auto simp: verdict_Accepted_iff pkt passphrase_key_def)
  moreover have "obp_send_dmrd i body s =
      s\<lparr>s_out := s_out s @ [Udp_send (s_obp_fd s i) ?pkt (o_peer_ip ?p) (o_peer_port ?p)]\<rparr>"
    using assms(1,2) by (simp add: obp_send_dmrd_def Let_def emit_def)
  moreover have "take 11 ?pkt = take 11 body" "drop 15 (take 53 ?pkt) = drop 15 body"
    using assms(3) b(1) by (simp_all add: pkt obp_body_def OBP_NETID_OFF_def)
  moreover have "if o_preserve_source_peer ?p then take 53 ?pkt = body else rd32 ?pkt 11 = o_network_id ?p"
    using assms(3) b(1) by (simp add: pkt obp_body_def OBP_NETID_OFF_def rd_at rd_front rd32_wr32)
  ultimately show ?thesis by blast
qed

definition demo_body :: bytes where
  "demo_body = DMRD @ [0] @ wr24 3120001 @ wr24 3120 @ replicate 4 0 @ [0x21] @ replicate 4 7 @ replicate 33 0"

lemma obp_send_is_accepted_witness:
  "\<exists>pkt. obp_send_dmrd 0 demo_body (bind_peer 0 demo_sys) =
      (bind_peer 0 demo_sys)\<lparr>s_out := [Udp_send 10 pkt ''10.0.0.2'' 62001]\<rparr> \<and>
     obp_verdict demo_peer pkt ''10.0.0.2'' 62001 = Accepted"
proof -
  let ?s = "bind_peer 0 demo_sys"
  have "s_obp_fd ?s 0 = 10" "s_cfg ?s = demo_config" "s_out ?s = []"
    by (simp_all add: frame) (simp_all add: demo_defs)
  moreover have "length demo_body = 53" "take 4 demo_body = DMRD"
    by (simp_all add: demo_body_def DMRD_def wr24_def)
  moreover have "\<not> bit (demo_body ! 15) 7" by code_simp
  ultimately show ?thesis
    using obp_send_is_accepted [of 0 ?s demo_body demo_peer]
    by (auto simp: demo_config_def n_openbridge_def) (auto simp: demo_peer_def)
qed

text \<open>
  After a reload, a peer is active only if it is enabled and exactly when it has a socket, a
  peer that stays enabled keeps its socket, and an enabled one is left without only if the system
  refused a socket.
\<close>

theorem obp_reconcile_follows_config:
  assumes "obp_ok s" "i < n_openbridge (s_cfg s)"
  shows "let t = obp_mux_reconcile s; en = o_enabled (peer_cfg s i) in
    (s_obp_active t i \<longleftrightarrow> 0 \<le> s_obp_fd t i) \<and> (s_obp_active t i \<longrightarrow> en) \<and>
    (en \<and> s_obp_active s i \<longrightarrow> s_obp_fd t i = s_obp_fd s i) \<and>
    (en \<and> \<not> s_obp_active t i \<longrightarrow> (\<exists>k. s_sock s k < 0))"
  using reconcile_steps [OF assms(1), of "n_openbridge (s_cfg s)"] assms(2)
  by (auto simp: obp_mux_reconcile_def Let_def reconciled_def obp_ok_def)

lemma obp_reconcile_follows_config_witness:
  "s_obp_active (obp_mux_reconcile demo_sys) 0 \<longleftrightarrow> 0 \<le> s_obp_fd (obp_mux_reconcile demo_sys) 0"
proof -
  have "obp_ok demo_sys" "0 < n_openbridge (s_cfg demo_sys)"
    by (simp_all add: obp_ok_def demo_defs n_openbridge_def)
  then show ?thesis using obp_reconcile_follows_config [of demo_sys 0] by (simp add: Let_def)
qed

end
