(* ===== verification/Cccc_Send.thy ===== *)
theory Cccc_Send
  imports State Cccc_Signal
begin

text \<open>
  \<open>cccc/cccc_link.c\<close>, the outbound primitives: what the translator and the handshake write to a
  CC-CC peer, as control lines on the link's TCP connection and as RTP datagrams on the shared
  voice socket.
\<close>

unbundle bit_operations_syntax

section \<open>Constants\<close>

definition CCCC_RTP_HDR_LEN :: nat where "CCCC_RTP_HDR_LEN = 12"
definition CCCC_RTP_PAYLOAD_LEN :: nat where "CCCC_RTP_PAYLOAD_LEN = 21"
definition CCCC_RTP_PKT_LEN :: nat where "CCCC_RTP_PKT_LEN = CCCC_RTP_HDR_LEN + CCCC_RTP_PAYLOAD_LEN"
definition CCCC_RTP_VPXCC :: u8 where "CCCC_RTP_VPXCC = 0x80"
definition CCCC_RTP_PT_VOICE :: u8 where "CCCC_RTP_PT_VOICE = 94"
definition CCCC_RTP_MARKER_BIT :: u8 where "CCCC_RTP_MARKER_BIT = 0x80"
definition CCCC_RTP_TS_STEP :: u32 where "CCCC_RTP_TS_STEP = 480"
definition CCCC_SLOT_MS :: rat where "CCCC_SLOT_MS = 60 / 1000"
definition CCCC_KEEPALIVE_LEN :: nat where "CCCC_KEEPALIVE_LEN = 16"
definition CCCC_RTP_PT_KEEPALIVE :: u8 where "CCCC_RTP_PT_KEEPALIVE = 127"
definition CCCC_KEEPALIVE_PAYLOAD :: u32 where "CCCC_KEEPALIVE_PAYLOAD = 0x00000064"

lemmas rtp_consts = CCCC_RTP_HDR_LEN_def CCCC_RTP_PAYLOAD_LEN_def CCCC_RTP_PKT_LEN_def
  CCCC_RTP_VPXCC_def CCCC_RTP_PT_VOICE_def CCCC_RTP_MARKER_BIT_def CCCC_KEEPALIVE_LEN_def
  CCCC_RTP_PT_KEEPALIVE_def CCCC_KEEPALIVE_PAYLOAD_def

section \<open>Writes\<close>

definition udp_send_to_link :: "nat \<Rightarrow> bytes \<Rightarrow> sys \<Rightarrow> sys" where
  "udp_send_to_link idx data s =
     emit (Udp_send (s_voice_fd s) data (l_cc_remote_ip (link_cfg s idx)) (l_cc_remote_voice_port (link_cfg s idx))) s"

definition tcp_send :: "nat \<Rightarrow> string \<Rightarrow> sys \<Rightarrow> sys" where
  "tcp_send idx text s = emit (Tcp_send (lk_fd (s_links s idx)) text) s"

section \<open>Datagrams\<close>

definition build_keepalive :: "u32 \<Rightarrow> bytes" where
  "build_keepalive ssrc =
     [CCCC_RTP_VPXCC, CCCC_RTP_PT_KEEPALIVE] @ wr16 0 @ wr32 0 @ wr32 ssrc @ wr32 CCCC_KEEPALIVE_PAYLOAD"

definition build_voice :: "u32 \<Rightarrow> u16 \<Rightarrow> u32 \<Rightarrow> bool \<Rightarrow> bytes \<Rightarrow> bytes" where
  "build_voice ssrc seq timestamp marker ambe21 =
     [CCCC_RTP_VPXCC, CCCC_RTP_PT_VOICE OR (if marker then CCCC_RTP_MARKER_BIT else 0)] @
     wr16 seq @ wr32 timestamp @ wr32 ssrc @ take CCCC_RTP_PAYLOAD_LEN ambe21"

section \<open>Sends by link\<close>

definition cccc_link_is_up :: "sys \<Rightarrow> nat \<Rightarrow> bool" where
  "cccc_link_is_up s idx = (if idx \<ge> n_link (s_cfg s) then False else lk_state (s_links s idx) = LST_UP)"

definition cccc_send_bon :: "nat \<Rightarrow> u32 \<Rightarrow> u32 \<Rightarrow> int \<Rightarrow> int \<Rightarrow> char \<Rightarrow> sys \<Rightarrow> sys" where
  "cccc_send_bon idx radio_id peer_id src_lid tgid call_type s =
     (if lk_state (s_links s idx) \<noteq> LST_UP then s
      else let user = (s_user_ctr s idx + 1) mod 1000;
               s = s\<lparr>s_user_ctr := (s_user_ctr s)(idx := user)\<rparr>
           in tcp_send idx (build_bon (l_cc_lid (link_cfg s idx)) user radio_id peer_id src_lid tgid call_type) s)"

definition cccc_send_boff :: "nat \<Rightarrow> int \<Rightarrow> int \<Rightarrow> rat \<Rightarrow> sys \<Rightarrow> sys" where
  "cccc_send_boff idx lost tot rssi s =
     (if lk_state (s_links s idx) \<noteq> LST_UP then s
      else tcp_send idx (build_boff (l_cc_lid (link_cfg s idx)) lost tot rssi) s)"

definition cccc_send_voice :: "nat \<Rightarrow> u16 \<Rightarrow> u32 \<Rightarrow> bool \<Rightarrow> bytes \<Rightarrow> sys \<Rightarrow> sys" where
  "cccc_send_voice idx seq timestamp marker ambe21 s =
     (if lk_state (s_links s idx) \<noteq> LST_UP then s
      else udp_send_to_link idx (build_voice (lk_sync_source (s_links s idx)) seq timestamp marker ambe21) s)"

section \<open>What the sends leave alone\<close>

text \<open>A send appends to the output and may move the B-on and DMRD counters; everything else stays.\<close>

definition only_sends :: "sys \<Rightarrow> sys \<Rightarrow> bool" where
  "only_sends s t \<longleftrightarrow>
     (\<exists>es ctr seq. t = s\<lparr>s_out := s_out s @ es, s_user_ctr := ctr, s_obp_seq_ctr := seq\<rparr>)"

lemma only_sendsI: "t = s\<lparr>s_out := s_out s @ es, s_user_ctr := ctr, s_obp_seq_ctr := seq\<rparr> \<Longrightarrow> only_sends s t"
  unfolding only_sends_def by blast

lemma only_sends_refl: "only_sends s s"
  by (rule only_sendsI [where es = "[]" and ctr = "s_user_ctr s" and seq = "s_obp_seq_ctr s"]) simp

lemma only_sends_trans: "only_sends s t \<Longrightarrow> only_sends t u \<Longrightarrow> only_sends s u"
  by (auto simp: only_sends_def) (intro exI, rule refl)

lemma only_sends_emit: "only_sends s (emit e s)"
  by (rule only_sendsI [where es = "[e]" and ctr = "s_user_ctr s" and seq = "s_obp_seq_ctr s"])
     (simp add: emit_def)

lemma only_sends_ctr: "only_sends s (s\<lparr>s_user_ctr := f\<rparr>)" "only_sends s (s\<lparr>s_obp_seq_ctr := g\<rparr>)"
  by (rule only_sendsI [where es = "[]" and ctr = f and seq = "s_obp_seq_ctr s"], simp)
     (rule only_sendsI [where es = "[]" and ctr = "s_user_ctr s" and seq = g], simp)

lemma cccc_sends:
  "only_sends s (cccc_send_bon i r p l t c s)"
  "only_sends s (cccc_send_boff i lo tt rs s)"
  "only_sends s (cccc_send_voice i sq ts m a s)"
proof -
  show "only_sends s (cccc_send_bon i r p l t c s)"
    unfolding cccc_send_bon_def Let_def tcp_send_def
    by (auto intro: only_sends_refl only_sends_trans [OF only_sends_ctr(1) only_sends_emit])
  show "only_sends s (cccc_send_boff i lo tt rs s)" "only_sends s (cccc_send_voice i sq ts m a s)"
    by (simp_all add: cccc_send_boff_def cccc_send_voice_def tcp_send_def udp_send_to_link_def
        only_sends_refl only_sends_emit)
qed

lemma only_sends_fields:
  assumes "only_sends s t"
  shows "s_cfg t = s_cfg s" "s_loop t = s_loop s" "s_now t = s_now s" "s_links t = s_links s"
    "s_pending t = s_pending s" "s_runtime t = s_runtime s" "s_obp_fd t = s_obp_fd s"
    "s_obp_active t = s_obp_active s" "s_rand t = s_rand s" "s_nrand t = s_nrand s"
    "s_sock t = s_sock s" "s_nsock t = s_nsock s" "s_voice_fd t = s_voice_fd s"
  using assms by (auto simp: only_sends_def)

lemmas cccc_send_fields [frame] =
  cccc_sends(1) [THEN only_sends_fields(1)] cccc_sends(1) [THEN only_sends_fields(3)]
  cccc_sends(1) [THEN only_sends_fields(4)] cccc_sends(1) [THEN only_sends_fields(6)]
  cccc_sends(2) [THEN only_sends_fields(1)] cccc_sends(2) [THEN only_sends_fields(3)]
  cccc_sends(2) [THEN only_sends_fields(4)] cccc_sends(2) [THEN only_sends_fields(6)]
  cccc_sends(3) [THEN only_sends_fields(1)] cccc_sends(3) [THEN only_sends_fields(3)]
  cccc_sends(3) [THEN only_sends_fields(4)] cccc_sends(3) [THEN only_sends_fields(6)]

section \<open>Reading a voice datagram back\<close>

lemma length_build_voice: "length ambe21 = 21 \<Longrightarrow> length (build_voice ssrc seq ts m ambe21) = 33"
  by (simp add: build_voice_def rtp_consts)

lemma length_build_keepalive: "length (build_keepalive ssrc) = 16"
  by (simp add: build_keepalive_def)

lemma voice_fields:
  assumes "length ambe21 = 21" and "pkt = build_voice ssrc seq ts m ambe21"
  shows "pkt ! 1 AND 0x7F = 94" "pkt ! 1 AND 0x80 \<noteq> 0 \<longleftrightarrow> m" "rd16 pkt 2 = seq" "rd32 pkt 4 = ts"
    "rd32 pkt 8 = ssrc" "drop 12 pkt = ambe21"
proof -
  let ?b1 = "CCCC_RTP_PT_VOICE OR (if m then CCCC_RTP_MARKER_BIT else 0)"
  have pkt: "pkt = [CCCC_RTP_VPXCC, ?b1] @ wr16 seq @ wr32 ts @ wr32 ssrc @ ambe21"
    using assms by (simp add: build_voice_def CCCC_RTP_PAYLOAD_LEN_def)
  show "pkt ! 1 AND 0x7F = 94" "pkt ! 1 AND 0x80 \<noteq> 0 \<longleftrightarrow> m"
    by (cases m; simp add: pkt rtp_consts)+
  show "rd16 pkt 2 = seq" unfolding pkt by (subst rd_at) (simp_all add: rd_front rd16_wr16)
  have "pkt = ([CCCC_RTP_VPXCC, ?b1] @ wr16 seq) @ wr32 ts @ wr32 ssrc @ ambe21" by (simp add: pkt)
  then show "rd32 pkt 4 = ts" by (simp add: rd_at(1) [where k = 4] rd_front rd32_wr32 del: append_assoc append.simps)
  have "pkt = ([CCCC_RTP_VPXCC, ?b1] @ wr16 seq @ wr32 ts) @ wr32 ssrc @ ambe21" by (simp add: pkt)
  then show "rd32 pkt 8 = ssrc" by (simp add: rd_at(1) [where k = 8] rd_front rd32_wr32 del: append_assoc append.simps)
  show "drop 12 pkt = ambe21" by (simp add: pkt)
qed

text \<open>
  A voice datagram that the bridge sends on an up link is addressed to the link's voice port
  and carries payload type, marker, sequence number, timestamp, the link's SSRC and the 21 voice
  bytes at the places where the receiving side reads them; a link that is not up sends nothing.
\<close>

theorem voice_datagram_layout:
  assumes "length ambe21 = 21"
  shows "cccc_send_voice i seq ts m ambe21 s =
    (if lk_state (s_links s i) = LST_UP
     then s\<lparr>s_out := s_out s @ [Udp_send (s_voice_fd s) (build_voice (lk_sync_source (s_links s i)) seq ts m ambe21)
            (l_cc_remote_ip (link_cfg s i)) (l_cc_remote_voice_port (link_cfg s i))]\<rparr>
     else s) \<and>
    (let pkt = build_voice (lk_sync_source (s_links s i)) seq ts m ambe21 in
      length pkt = CCCC_RTP_PKT_LEN \<and> pkt ! 1 AND 0x7F = CCCC_RTP_PT_VOICE \<and> (pkt ! 1 AND 0x80 \<noteq> 0 \<longleftrightarrow> m) \<and>
      rd16 pkt 2 = seq \<and> rd32 pkt 4 = ts \<and> rd32 pkt 8 = lk_sync_source (s_links s i) \<and>
      drop CCCC_RTP_HDR_LEN pkt = ambe21)"
  using assms length_build_voice [OF assms] voice_fields [OF assms refl]
  by (simp add: cccc_send_voice_def udp_send_to_link_def emit_def Let_def rtp_consts)

definition demo_up :: sys where
  "demo_up = on_link 0 (\<lambda>l. l\<lparr>lk_state := LST_UP, lk_fd := 11, lk_sync_source := 0xABCD, lk_has_sync_source := True\<rparr>) demo_sys"

lemma voice_datagram_layout_witness:
  "s_out (cccc_send_voice 0 1 480 True (replicate 21 0) demo_up) =
     [Udp_send (- 1) (build_voice 0xABCD 1 480 True (replicate 21 0)) ''10.0.0.3'' 42422]"
  using voice_datagram_layout [of "replicate 21 0" 0 1 480 True demo_up]
  by (simp add: demo_up_def on_link_def) (simp add: demo_defs)

end
