(* ===== verification/Translate.thy ===== *)
theory Translate
  imports Obp_Link Cccc_Send Dmr_Bptc Dmr_Ambe Cccc_Ambe
begin

text \<open>
  \<open>translate.c\<close>: the calls of the links and the two directions of traffic.  The state of a call
  is \<open>s_runtime\<close>, one entry per link; every callback of the translator is a function on the
  system state.
\<close>

unbundle bit_operations_syntax

definition CALL_IDLE_TIMEOUT_S :: rat where
  "CALL_IDLE_TIMEOUT_S = 5"

section \<open>Small helpers\<close>

definition rand4 :: "sys \<Rightarrow> bytes \<times> sys" where
  "rand4 s = (let (v, s) = next_rand s in (wr32 v, s))"

definition obp_gate_open :: "nat \<Rightarrow> sys \<Rightarrow> bool \<times> sys" where
  "obp_gate_open i s =
     (let l = link_cfg s i;
          peer_ok = (l_openbridge_idx l \<ge> 0 \<and> obp_peer_is_enabled s (l_openbridge_idx l))
      in if l_cross_connect_active l \<and> peer_ok then (True, s)
         else if \<not> lr_cx_drop_logged (s_runtime s i)
         then (False, on_runtime i (\<lambda>lr. lr\<lparr>lr_cx_drop_logged := True\<rparr>) (emit (Log_cx_drop i) s))
         else (False, s))"

section \<open>Burst assembly\<close>

definition build_head_term_payload :: "bytes \<Rightarrow> bool \<Rightarrow> bytes" where
  "build_head_term_payload lc is_term =
     (let full_lc = dmr_bptc_encode_lc lc is_term;
          slot_type = (if is_term then DMR_SLOT_TYPE_VTERM else DMR_SLOT_TYPE_VHEAD);
          fb = take 98 full_lc @ take 10 slot_type @ DMR_BS_DATA_SYNC @ drop 10 slot_type @ drop 98 full_lc
      in dmr_bits_to_bytes fb)"

definition build_embed :: "call_state \<Rightarrow> nat \<Rightarrow> bits" where
  "build_embed c pos =
     (if pos = 0 then DMR_BS_VOICE_SYNC
      else let eidx = pos - 1
           in take 8 (DMR_EMB ! eidx) @
              (if pos \<le> 4 then dmr_bytes_to_bits (cs_emb c ! (pos - 1)) else replicate 32 False) @
              drop 8 (DMR_EMB ! eidx))"

definition extract_ambe :: "bytes \<Rightarrow> bits list" where
  "extract_ambe payload33 =
     (let burst = dmr_bytes_to_bits payload33;
          a1 = take 72 burst;
          a2 = take 36 (drop 72 burst) @ take 36 (drop 156 burst);
          a3 = take 72 (drop 192 burst)
      in [dmr_ambe_72_to_49 a1, dmr_ambe_72_to_49 a2, dmr_ambe_72_to_49 a3])"

text \<open>The voice burst that \<open>translator_cccc_voice\<close> assembles from the 21 bytes of a datagram.\<close>

definition build_voice_payload :: "call_state \<Rightarrow> nat \<Rightarrow> bytes \<Rightarrow> bytes" where
  "build_voice_payload c pos ambe21 =
     (let ambe49 = cccc_ambe_unpack21 ambe21;
          a1 = dmr_ambe_49_to_72 (ambe49 ! 0);
          a2 = dmr_ambe_49_to_72 (ambe49 ! 1);
          a3 = dmr_ambe_49_to_72 (ambe49 ! 2);
          fb = a1 @ take 36 a2 @ build_embed c pos @ drop 36 a2 @ a3
      in dmr_bits_to_bytes fb)"

section \<open>DMRD frames to OpenBridge\<close>

definition dmrd_body :: "nat \<Rightarrow> u32 \<Rightarrow> int \<Rightarrow> u32 \<Rightarrow> u8 \<Rightarrow> bytes \<Rightarrow> bytes \<Rightarrow> bytes" where
  "dmrd_body seq rf_src tgid cc_peer flags stream payload33 =
     DMRD @ [of_nat seq] @ wr24 rf_src @ wr24 (of_int tgid) @ wr32 cc_peer @ [flags] @ stream @ payload33"

definition send_dmrd :: "nat \<Rightarrow> u8 \<Rightarrow> bytes \<Rightarrow> sys \<Rightarrow> sys" where
  "send_dmrd i flags payload33 s =
     (let l = link_cfg s i; c = lr_call (s_runtime s i); peer_idx = l_openbridge_idx l in
      if peer_idx < 0 then s
      else let p = nat peer_idx;
               body = dmrd_body (s_obp_seq_ctr s p) (cs_rf_src c) (l_tgid l) (cs_cc_peer_id c) flags
                        (cs_stream_id c) payload33;
               s = s\<lparr>s_obp_seq_ctr := (s_obp_seq_ctr s)(p := Suc (s_obp_seq_ctr s p))\<rparr>
           in obp_send_dmrd p body s)"

definition send_obp_voice_head :: "nat \<Rightarrow> sys \<Rightarrow> sys" where
  "send_obp_voice_head i s =
     send_dmrd i (OBPF_FRAMETYPE_DATASYNC OR OBPF_SLT_VHEAD)
       (build_head_term_payload (cs_lc (lr_call (s_runtime s i))) False) s"

definition send_obp_voice_term :: "nat \<Rightarrow> sys \<Rightarrow> sys" where
  "send_obp_voice_term i s =
     send_dmrd i (OBPF_FRAMETYPE_DATASYNC OR OBPF_SLT_VTERM)
       (build_head_term_payload (cs_lc (lr_call (s_runtime s i))) True) s"

section \<open>Call lifecycle\<close>

abbreviation call_from :: "call_origin \<Rightarrow> link_runtime \<Rightarrow> bool" where
  "call_from orig lr \<equiv> lr_has_call lr \<and> cs_origin (lr_call lr) = orig"

definition drop_call :: "nat \<Rightarrow> sys \<Rightarrow> sys" where
  "drop_call i s = on_runtime i (\<lambda>lr. lr\<lparr>lr_has_call := False\<rparr>) s"

definition end_obp_origin_call :: "nat \<Rightarrow> sys \<Rightarrow> sys" where
  "end_obp_origin_call i s =
     (let lr = s_runtime s i in
      if \<not> call_from CALL_ORIGIN_OBP lr then s
      else let tot = (if cs_cc_sent_first (lr_call lr) then cs_cc_seq (lr_call lr) + 1 else 0)
           in drop_call i (cccc_send_boff i 0 tot 0 s))"

definition end_cc_origin_call :: "nat \<Rightarrow> sys \<Rightarrow> sys" where
  "end_cc_origin_call i s =
     (if \<not> call_from CALL_ORIGIN_CC (s_runtime s i) then s
      else drop_call i (send_obp_voice_term i s))"

section \<open>OpenBridge to CC-CC\<close>

definition handle_obp_voice_head :: "nat \<Rightarrow> u32 \<Rightarrow> u32 \<Rightarrow> bytes \<Rightarrow> sys \<Rightarrow> sys" where
  "handle_obp_voice_head i peer_id rf_src stream s =
     (let lr = s_runtime s i in
      if call_from CALL_ORIGIN_OBP lr \<and> stream = cs_stream_id (lr_call lr) then s
      else if \<not> call_from CALL_ORIGIN_OBP lr \<and> call_from CALL_ORIGIN_CC lr then s
      else let s = (if call_from CALL_ORIGIN_OBP lr then end_obp_origin_call i s else s);
               s = on_runtime i (\<lambda>lr. lr\<lparr>
                     lr_call := zero_call\<lparr>cs_origin := CALL_ORIGIN_OBP, cs_rf_src := rf_src,
                       cs_peer_id := peer_id, cs_stream_id := stream,
                       cs_call_start_time := s_now s, cs_last_activity := s_now s\<rparr>,
                     lr_has_call := True\<rparr>) s
           in cccc_send_bon i rf_src peer_id (l_cc_lid (link_cfg s i)) (l_tgid (link_cfg s i))
                CCCC_CALL_TYPE_GROUP s)"

text \<open>\<open>(int)x\<close>: towards zero.\<close>

definition trunc_int :: "rat \<Rightarrow> int" where
  "trunc_int x = (if x < 0 then \<lceil>x\<rceil> else \<lfloor>x\<rfloor>)"

definition slot_index :: "rat \<Rightarrow> rat \<Rightarrow> int" where
  "slot_index now start = trunc_int ((now - start) / CCCC_SLOT_MS + 1 / 2)"

definition handle_obp_voice_burst :: "nat \<Rightarrow> bytes \<Rightarrow> bytes \<Rightarrow> sys \<Rightarrow> sys" where
  "handle_obp_voice_burst i payload33 stream s =
     (let lr = s_runtime s i; c = lr_call lr in
      if \<not> call_from CALL_ORIGIN_OBP lr then s
      else if stream \<noteq> cs_stream_id c then s
      else let payload21 = cccc_ambe_pack21 (extract_ambe payload33);
               slot = slot_index (s_now s) (cs_call_start_time c);
               seq = of_int slot;
               timestamp = CCCC_RTP_TS_STEP * of_int slot;
               marker = (\<not> cs_cc_sent_first c);
               s = on_call i (\<lambda>c. c\<lparr>cs_last_activity := s_now s, cs_cc_sent_first := True,
                                    cs_cc_seq := slot\<rparr>) s
           in cccc_send_voice i seq timestamp marker payload21 s)"

definition handle_obp_voice_term :: "nat \<Rightarrow> bytes \<Rightarrow> sys \<Rightarrow> sys" where
  "handle_obp_voice_term i stream s =
     (let lr = s_runtime s i in
      if \<not> call_from CALL_ORIGIN_OBP lr then s
      else if stream \<noteq> cs_stream_id (lr_call lr) then s
      else end_obp_origin_call i s)"

definition find_obp_link :: "config \<Rightarrow> nat \<Rightarrow> u32 \<Rightarrow> nat option" where
  "find_obp_link c peer_idx dst_id =
     find (\<lambda>i. l_openbridge_idx (c_link c ! i) = int peer_idx \<and> of_int (l_tgid (c_link c ! i)) = dst_id)
       [0..<n_link c]"

datatype frame_class = Fr_head | Fr_term | Fr_burst

definition frame_class_of :: "u8 \<Rightarrow> frame_class" where
  "frame_class_of flags =
     (let frame_type = flags AND OBPF_FRAMETYPE_MASK;
          dtype = flags AND OBPF_DTYPE_MASK
      in if frame_type = OBPF_FRAMETYPE_DATASYNC \<and> dtype = OBPF_SLT_VHEAD then Fr_head
         else if frame_type = OBPF_FRAMETYPE_DATASYNC \<and> dtype = OBPF_SLT_VTERM then Fr_term
         else Fr_burst)"

text \<open>The last part of the handler, once the link is found and enabled.\<close>

definition obp_frame_for_link :: "nat \<Rightarrow> frame_class \<Rightarrow> u32 \<Rightarrow> u32 \<Rightarrow> bytes \<Rightarrow> bytes \<Rightarrow> sys \<Rightarrow> sys" where
  "obp_frame_for_link i cls peer_id rf_src stream payload33 s =
     (let s = (if cls = Fr_head then on_runtime i (\<lambda>lr. lr\<lparr>lr_cx_drop_logged := False\<rparr>) s else s);
          (opn, s) = obp_gate_open i s
      in if \<not> opn then s
         else case cls of
             Fr_head \<Rightarrow> handle_obp_voice_head i peer_id rf_src stream s
           | Fr_term \<Rightarrow> handle_obp_voice_term i stream s
           | Fr_burst \<Rightarrow> handle_obp_voice_burst i payload33 stream s)"

definition translator_obp_dmrd_received :: "nat \<Rightarrow> bytes \<Rightarrow> sys \<Rightarrow> sys" where
  "translator_obp_dmrd_received peer_idx body s =
     (let peer_id = rd32 body OBP_NETID_OFF;
          rf_src = rd24 body OBP_SRC_OFF;
          dst_id = rd24 body OBP_DST_OFF;
          flags = body ! OBP_FLAGS_OFF;
          stream = take 4 (drop OBP_STREAM_OFF body);
          payload33 = take 33 (drop OBP_PAYLOAD_OFF body)
      in if flags AND OBPF_CALL_UNIT \<noteq> 0 then s
         else if flags AND OBPF_VCSBK_MASK = OBPF_VCSBK_MASK then s
         else case find_obp_link (s_cfg s) peer_idx dst_id of
           None \<Rightarrow> s
         | Some i \<Rightarrow>
             if \<not> l_enabled (link_cfg s i) then s
             else obp_frame_for_link i (frame_class_of flags) peer_id rf_src stream payload33 s)"

section \<open>CC-CC to OpenBridge\<close>

definition new_cc_call :: "u32 \<Rightarrow> u32 \<Rightarrow> bytes \<Rightarrow> int \<Rightarrow> rat \<Rightarrow> call_state" where
  "new_cc_call radio_id peer_id stream tgid t =
     (let lc = DMR_LC_OPT @ wr24 (of_int tgid) @ wr24 radio_id
      in zero_call\<lparr>cs_origin := CALL_ORIGIN_CC, cs_rf_src := radio_id, cs_cc_peer_id := peer_id,
           cs_stream_id := stream, cs_call_start_time := t, cs_last_activity := t,
           cs_obp_seq_pos := 0, cs_lc := lc, cs_emb := dmr_encode_emblc lc\<rparr>)"

definition translator_cccc_bon :: "nat \<Rightarrow> u32 \<Rightarrow> u32 \<Rightarrow> sys \<Rightarrow> sys" where
  "translator_cccc_bon i radio_id peer_id s =
     (if \<not> l_enabled (link_cfg s i) then s
      else let s = on_runtime i (\<lambda>lr. lr\<lparr>lr_cx_drop_logged := False\<rparr>) s;
               (opn, s) = obp_gate_open i s
           in if \<not> opn then s
              else if call_from CALL_ORIGIN_CC (s_runtime s i) then s
              else if call_from CALL_ORIGIN_OBP (s_runtime s i) then s
              else let (stream, s) = rand4 s;
                       c = new_cc_call radio_id peer_id stream (l_tgid (link_cfg s i)) (s_now s);
                       s = on_runtime i (\<lambda>lr. lr\<lparr>lr_call := c, lr_has_call := True\<rparr>) s
                   in send_obp_voice_head i s)"

definition translator_cccc_voice :: "nat \<Rightarrow> bytes \<Rightarrow> sys \<Rightarrow> sys" where
  "translator_cccc_voice i ambe21 s =
     (if \<not> call_from CALL_ORIGIN_CC (s_runtime s i) then s
      else if \<not> l_cross_connect_active (link_cfg s i) then s
      else let s = on_call i (\<lambda>c. c\<lparr>cs_last_activity := s_now s\<rparr>) s;
               c = lr_call (s_runtime s i);
               pos = cs_obp_seq_pos c mod 6;
               flags = (if pos = 0 then OBPF_FRAMETYPE_VOICESYNC else OBPF_FRAMETYPE_VOICE OR of_nat pos);
               s = send_dmrd i flags (build_voice_payload c pos ambe21) s
           in on_call i (\<lambda>c. c\<lparr>cs_obp_seq_pos := Suc (cs_obp_seq_pos c)\<rparr>) s)"

definition translator_cccc_boff :: "nat \<Rightarrow> sys \<Rightarrow> sys" where
  "translator_cccc_boff i s = end_cc_origin_call i s"

definition translator_cccc_link_up :: "nat \<Rightarrow> sys \<Rightarrow> sys" where
  "translator_cccc_link_up i s = on_runtime i (\<lambda>lr. lr\<lparr>lr_cx_drop_logged := False\<rparr>) s"

definition translator_cccc_link_down :: "nat \<Rightarrow> sys \<Rightarrow> sys" where
  "translator_cccc_link_down i s =
     (let s = (if call_from CALL_ORIGIN_CC (s_runtime s i) then send_obp_voice_term i s else s)
      in on_runtime i (\<lambda>lr. lr\<lparr>lr_has_call := False, lr_cx_drop_logged := False\<rparr>) s)"

section \<open>Housekeeping\<close>

definition tick_link :: "sys \<Rightarrow> nat \<Rightarrow> sys" where
  "tick_link s i =
     (let lr = s_runtime s i in
      if \<not> lr_has_call lr then s
      else if s_now s - cs_last_activity (lr_call lr) > CALL_IDLE_TIMEOUT_S
      then (if cs_origin (lr_call lr) = CALL_ORIGIN_OBP then end_obp_origin_call i s
            else end_cc_origin_call i s)
      else s)"

definition translator_tick :: "sys \<Rightarrow> sys" where
  "translator_tick s = foldl tick_link s [0..<n_link (s_cfg s)]"

section \<open>What a translator step touches\<close>

lemma obp_send_only_sends: "only_sends s (obp_send_dmrd p body s)"
  by (simp add: obp_send_dmrd_def Let_def only_sends_refl only_sends_emit)

lemma send_dmrd_only_sends: "only_sends s (send_dmrd i flags payload s)"
  unfolding send_dmrd_def Let_def
  by (auto intro: only_sends_refl only_sends_trans [OF only_sends_ctr(2) obp_send_only_sends])

lemma head_term_only_sends: "only_sends s (send_obp_voice_head i s)" "only_sends s (send_obp_voice_term i s)"
  by (simp_all add: send_obp_voice_head_def send_obp_voice_term_def send_dmrd_only_sends)

lemmas send_runtime [frame] =
  send_dmrd_only_sends [THEN only_sends_fields(6)]
  head_term_only_sends(1) [THEN only_sends_fields(6)] head_term_only_sends(2) [THEN only_sends_fields(6)]
  send_dmrd_only_sends [THEN only_sends_fields(1)]
  head_term_only_sends(1) [THEN only_sends_fields(1)] head_term_only_sends(2) [THEN only_sends_fields(1)]

text \<open>
  A step of the translator for link \<open>i\<close> sends, draws random words, and changes the call record
  of that link: the configuration, the sockets, the CC-CC links, the event loop and every other
  link's call stay as they are.
\<close>

definition call_step :: "nat \<Rightarrow> sys \<Rightarrow> sys \<Rightarrow> bool" where
  "call_step i s t \<longleftrightarrow>
     (\<exists>u k lr. only_sends s u \<and> t = u\<lparr>s_nrand := k, s_runtime := (s_runtime s)(i := lr)\<rparr>)"

lemma call_stepI:
  "only_sends s u \<Longrightarrow> t = u\<lparr>s_nrand := k, s_runtime := (s_runtime s)(i := lr)\<rparr> \<Longrightarrow> call_step i s t"
  unfolding call_step_def by blast

lemma call_step_send: "only_sends s t \<Longrightarrow> call_step i s t"
  using only_sends_fields(6,10) [of s t]
  by (intro call_stepI [where u = t and k = "s_nrand t" and lr = "s_runtime s i"]) auto

lemma call_step_refl: "call_step i s s"
  by (rule call_step_send [OF only_sends_refl])

lemma call_step_trans:
  assumes "call_step i s t" "call_step i t u"
  shows "call_step i s u"
proof -
  obtain es ctr seq k lr where t: "t = s\<lparr>s_out := s_out s @ es, s_user_ctr := ctr, s_obp_seq_ctr := seq,
      s_nrand := k, s_runtime := (s_runtime s)(i := lr)\<rparr>"
    using assms(1) by (auto simp: call_step_def only_sends_def)
  obtain es' ctr' seq' k' lr' where u: "u = t\<lparr>s_out := s_out t @ es', s_user_ctr := ctr', s_obp_seq_ctr := seq',
      s_nrand := k', s_runtime := (s_runtime t)(i := lr')\<rparr>"
    using assms(2) by (auto simp: call_step_def only_sends_def)
  let ?v = "s\<lparr>s_out := s_out s @ es @ es', s_user_ctr := ctr', s_obp_seq_ctr := seq'\<rparr>"
  have "only_sends s ?v" by (rule only_sendsI [OF refl])
  moreover have "u = ?v\<lparr>s_nrand := k', s_runtime := (s_runtime s)(i := lr')\<rparr>" by (simp add: u t)
  ultimately show ?thesis by (rule call_stepI)
qed

lemma call_step_runtime: "call_step i s (on_runtime i f s)" "call_step i s (on_call i g s)"
  by (rule call_stepI [OF only_sends_refl, where k = "s_nrand s"]; simp add: on_runtime_def on_call_def)+

lemma call_step_rand: "call_step i s (snd (rand4 s))"
  by (rule call_stepI [OF only_sends_refl, where k = "Suc (s_nrand s)" and lr = "s_runtime s i"])
     (simp add: rand4_def next_rand_def)

lemma call_step_drop: "only_sends s t \<Longrightarrow> call_step i s (drop_call i t)"
  unfolding drop_call_def by (rule call_step_trans [OF call_step_send call_step_runtime(1)])

lemma call_step_end:
  "call_step i s (end_obp_origin_call i s)" "call_step i s (end_cc_origin_call i s)"
  by (simp_all add: end_obp_origin_call_def end_cc_origin_call_def Let_def call_step_refl call_step_drop
      cccc_sends head_term_only_sends)

lemma call_step_gate: "call_step i s (snd (obp_gate_open i s))"
  by (auto simp: obp_gate_open_def Let_def call_step_refl
      intro: call_step_trans [OF call_step_send [OF only_sends_emit] call_step_runtime(1)])

lemma call_step_head: "call_step i s (handle_obp_voice_head i p r st s)"
  unfolding handle_obp_voice_head_def Let_def
  by (auto intro!: call_step_refl call_step_trans [OF call_step_trans [OF _ call_step_runtime(1)]
        call_step_send [OF cccc_sends(1)]] call_step_end(1))

lemma call_step_burst: "call_step i s (handle_obp_voice_burst i pl st s)"
  unfolding handle_obp_voice_burst_def Let_def
  by (auto intro!: call_step_refl call_step_trans [OF call_step_runtime(2) call_step_send [OF cccc_sends(3)]])

lemma call_step_term: "call_step i s (handle_obp_voice_term i st s)"
  by (simp add: handle_obp_voice_term_def Let_def call_step_refl call_step_end)

lemma call_step_bon: "call_step i s (translator_cccc_bon i r p s)"
proof -
  let ?g = "obp_gate_open i (on_runtime i (\<lambda>lr. lr\<lparr>lr_cx_drop_logged := False\<rparr>) s)"
  let ?r = "rand4 (snd ?g)"
  have g: "call_step i s (snd ?g)" by (rule call_step_trans [OF call_step_runtime(1) call_step_gate])
  then have "call_step i s (snd ?r)" by (rule call_step_trans [OF _ call_step_rand])
  then have "call_step i s (send_obp_voice_head i (on_runtime i f (snd ?r)))" for f
    by (rule call_step_trans [OF call_step_trans [OF _ call_step_runtime(1)] call_step_send [OF head_term_only_sends(1)]])
  with g show ?thesis
    unfolding translator_cccc_bon_def Let_def case_prod_beta by (simp add: call_step_refl)
qed

lemma call_step_voice: "call_step i s (translator_cccc_voice i a s)"
  unfolding translator_cccc_voice_def Let_def
  by (auto intro!: call_step_refl
      call_step_trans [OF call_step_trans [OF call_step_runtime(2) call_step_send [OF send_dmrd_only_sends]]
        call_step_runtime(2)])

lemma call_step_up_down:
  "call_step i s (translator_cccc_link_up i s)" "call_step i s (translator_cccc_link_down i s)"
  unfolding translator_cccc_link_up_def translator_cccc_link_down_def Let_def
  by (auto intro: call_step_runtime(1) call_step_trans [OF call_step_send [OF head_term_only_sends(2)] call_step_runtime(1)])

lemma call_step_frame: "call_step i s (obp_frame_for_link i cls p r st pl s)"
proof -
  have g: "call_step i s (snd (obp_gate_open i (if b then on_runtime i f s else s)))" for b f
    by (cases b) (auto intro: call_step_gate call_step_trans [OF call_step_runtime(1) call_step_gate])
  have "call_step i s (if \<not> opn then t else case cls of
             Fr_head \<Rightarrow> handle_obp_voice_head i p r st t
           | Fr_term \<Rightarrow> handle_obp_voice_term i st t
           | Fr_burst \<Rightarrow> handle_obp_voice_burst i pl st t)" if "call_step i s t" for opn t
    using call_step_trans [OF that call_step_head] call_step_trans [OF that call_step_term]
      call_step_trans [OF that call_step_burst] that by (cases cls) simp_all
  then show ?thesis
    unfolding obp_frame_for_link_def Let_def case_prod_beta using g by blast
qed

lemma call_step_dmrd:
  "translator_obp_dmrd_received p body s = s \<or>
   (\<exists>i. find_obp_link (s_cfg s) p (rd24 body OBP_DST_OFF) = Some i \<and>
        call_step i s (translator_obp_dmrd_received p body s))"
  by (auto simp: translator_obp_dmrd_received_def Let_def call_step_frame call_step_refl split: option.split)

end
