(* ===== verification/Calls.thy ===== *)
theory Calls
  imports Translate
begin

text \<open>
  The life of a call on a link as an abstract machine with three kinds of states, and the proof
  that every handler of \<open>Translate\<close> implements a transition of it.  The machine is what keeps
  the two directions apart: a call from one side is never replaced by one from the other.
\<close>

section \<open>The abstract machine\<close>

datatype call_abs = Idle | From_cc | From_obp bytes

fun abs_bon :: "call_abs \<Rightarrow> call_abs" where
  "abs_bon Idle = From_cc"
| "abs_bon c = c"

fun abs_boff :: "call_abs \<Rightarrow> call_abs" where
  "abs_boff From_cc = Idle"
| "abs_boff c = c"

fun abs_head :: "bytes \<Rightarrow> call_abs \<Rightarrow> call_abs" where
  "abs_head st From_cc = From_cc"
| "abs_head st _ = From_obp st"

definition abs_term :: "bytes \<Rightarrow> call_abs \<Rightarrow> call_abs" where
  "abs_term st c = (if c = From_obp st then Idle else c)"

definition abs_frame :: "frame_class \<Rightarrow> bytes \<Rightarrow> call_abs \<Rightarrow> call_abs" where
  "abs_frame cls st = (case cls of Fr_head \<Rightarrow> abs_head st | Fr_term \<Rightarrow> abs_term st | Fr_burst \<Rightarrow> id)"

section \<open>Abstraction of the call record\<close>

definition abs_call :: "link_runtime \<Rightarrow> call_abs" where
  "abs_call lr =
     (if \<not> lr_has_call lr then Idle
      else if cs_origin (lr_call lr) = CALL_ORIGIN_CC then From_cc
      else if cs_origin (lr_call lr) = CALL_ORIGIN_OBP then From_obp (cs_stream_id (lr_call lr))
      else Idle)"

text \<open>An active call has an origin, a stream of four bytes and a link control of nine.\<close>

definition runtime_ok :: "link_runtime \<Rightarrow> bool" where
  "runtime_ok lr \<longleftrightarrow>
     (lr_has_call lr \<longrightarrow> cs_origin (lr_call lr) \<noteq> CALL_ORIGIN_NONE) \<and>
     length (cs_stream_id (lr_call lr)) = 4 \<and> length (cs_lc (lr_call lr)) = 9 \<and>
     length (cs_emb (lr_call lr)) = 4 \<and> (\<forall>f \<in> set (cs_emb (lr_call lr)). length f = 4)"

lemma runtime_ok_zero: "runtime_ok zero_runtime"
  by (simp add: runtime_ok_def zero_runtime_def zero_call_def)

lemma abs_call_iff:
  "abs_call lr = From_cc \<longleftrightarrow> call_from CALL_ORIGIN_CC lr"
  "abs_call lr = From_obp st \<longleftrightarrow> call_from CALL_ORIGIN_OBP lr \<and> cs_stream_id (lr_call lr) = st"
  "runtime_ok lr \<Longrightarrow> abs_call lr = Idle \<longleftrightarrow> \<not> lr_has_call lr"
  by (cases "cs_origin (lr_call lr)"; auto simp: abs_call_def runtime_ok_def)+

lemma abs_call_cases:
  obtains (Idle) "abs_call lr = Idle" "\<not> call_from CALL_ORIGIN_CC lr" "\<not> call_from CALL_ORIGIN_OBP lr"
  | (Cc) "abs_call lr = From_cc" "call_from CALL_ORIGIN_CC lr" "\<not> call_from CALL_ORIGIN_OBP lr"
  | (Obp) "abs_call lr = From_obp (cs_stream_id (lr_call lr))" "\<not> call_from CALL_ORIGIN_CC lr"
      "call_from CALL_ORIGIN_OBP lr"
  by (cases "lr_has_call lr"; cases "cs_origin (lr_call lr)") (auto simp: abs_call_def intro: that)

text \<open>The flag that rate-limits the log does not matter, dropping the call makes it idle.\<close>

lemma abs_call_simps [simp]:
  "abs_call (lr\<lparr>lr_cx_drop_logged := b\<rparr>) = abs_call lr"
  "abs_call (lr\<lparr>lr_has_call := False\<rparr>) = Idle"
  "runtime_ok (lr\<lparr>lr_cx_drop_logged := b\<rparr>) = runtime_ok lr"
  by (simp_all add: abs_call_def runtime_ok_def)

lemma runtime_ok_drop: "runtime_ok lr \<Longrightarrow> runtime_ok (lr\<lparr>lr_has_call := False\<rparr>)"
  by (simp add: runtime_ok_def)

section \<open>The gate\<close>

definition gate_open :: "sys \<Rightarrow> nat \<Rightarrow> bool" where
  "gate_open s i \<longleftrightarrow> l_cross_connect_active (link_cfg s i) \<and> 0 \<le> l_openbridge_idx (link_cfg s i) \<and>
     obp_peer_is_enabled s (l_openbridge_idx (link_cfg s i))"

lemma fst_gate: "fst (obp_gate_open i s) = gate_open s i"
  by (auto simp: obp_gate_open_def Let_def gate_open_def)

lemma snd_gate:
  "snd (obp_gate_open i s) =
     (if gate_open s i \<or> lr_cx_drop_logged (s_runtime s i) then s
      else on_runtime i (\<lambda>lr. lr\<lparr>lr_cx_drop_logged := True\<rparr>) (emit (Log_cx_drop i) s))"
  by (auto simp: obp_gate_open_def Let_def gate_open_def)

lemma gate_runtime [simp]: "gate_open (on_runtime j f s) i = gate_open s i"
  by (simp add: gate_open_def on_runtime_def obp_peer_is_enabled_def)

section \<open>The call record after each handler\<close>

lemma runtime_on_runtime [simp]: "s_runtime (on_runtime i f s) = (s_runtime s)(i := f (s_runtime s i))"
  by (simp add: on_runtime_def)

lemma runtime_on_call [simp]:
  "s_runtime (on_call i f s) = (s_runtime s)(i := (s_runtime s i)\<lparr>lr_call := f (lr_call (s_runtime s i))\<rparr>)"
  by (simp add: on_call_def)

lemma runtime_emit [simp]: "s_runtime (emit e s) = s_runtime s"
  by (simp add: emit_def)

lemma cfg_on_runtime [simp]: "s_cfg (on_runtime i f s) = s_cfg s" "s_cfg (on_call i g s) = s_cfg s"
  "s_cfg (emit e s) = s_cfg s"
  by (simp_all add: on_runtime_def on_call_def emit_def)

lemma runtime_rand4 [simp]: "s_runtime (snd (rand4 s)) = s_runtime s" "s_cfg (snd (rand4 s)) = s_cfg s"
  "length (fst (rand4 s)) = 4"
  by (simp_all add: rand4_def next_rand_def)

lemma abs_end_obp:
  "abs_call (s_runtime (end_obp_origin_call i s) i) =
     (if call_from CALL_ORIGIN_OBP (s_runtime s i) then Idle else abs_call (s_runtime s i))"
  "runtime_ok (s_runtime s i) \<Longrightarrow> runtime_ok (s_runtime (end_obp_origin_call i s) i)"
  by (simp_all add: end_obp_origin_call_def Let_def drop_call_def frame runtime_ok_drop)

lemma abs_end_cc:
  "abs_call (s_runtime (end_cc_origin_call i s) i) = abs_boff (abs_call (s_runtime s i))"
  "runtime_ok (s_runtime s i) \<Longrightarrow> runtime_ok (s_runtime (end_cc_origin_call i s) i)"
  by (cases rule: abs_call_cases [where lr = "s_runtime s i"])
     (simp_all add: end_cc_origin_call_def Let_def drop_call_def frame runtime_ok_drop)

lemma abs_voice_head:
  "abs_call (s_runtime (handle_obp_voice_head i p r st s) i) = abs_head st (abs_call (s_runtime s i))"
  by (cases rule: abs_call_cases [where lr = "s_runtime s i"])
     (auto simp: handle_obp_voice_head_def Let_def frame abs_call_def zero_call_def)

lemma ok_voice_head:
  "runtime_ok (s_runtime s i) \<Longrightarrow> length st = 4 \<Longrightarrow> runtime_ok (s_runtime (handle_obp_voice_head i p r st s) i)"
  by (simp add: handle_obp_voice_head_def Let_def frame) (simp add: runtime_ok_def zero_call_def)

lemma abs_voice_term:
  "abs_call (s_runtime (handle_obp_voice_term i st s) i) = abs_term st (abs_call (s_runtime s i))"
  by (cases rule: abs_call_cases [where lr = "s_runtime s i"])
     (auto simp: handle_obp_voice_term_def Let_def abs_term_def abs_end_obp)

lemma ok_voice_term:
  "runtime_ok (s_runtime s i) \<Longrightarrow> runtime_ok (s_runtime (handle_obp_voice_term i st s) i)"
  by (simp add: handle_obp_voice_term_def Let_def abs_end_obp)

lemma abs_voice_burst:
  "abs_call (s_runtime (handle_obp_voice_burst i pl st s) i) = abs_call (s_runtime s i)"
  "runtime_ok (s_runtime s i) \<Longrightarrow> runtime_ok (s_runtime (handle_obp_voice_burst i pl st s) i)"
  by (simp_all add: handle_obp_voice_burst_def Let_def frame) (simp_all add: abs_call_def runtime_ok_def)

lemma abs_gate [simp]:
  "abs_call (s_runtime (snd (obp_gate_open i s)) i) = abs_call (s_runtime s i)"
  "runtime_ok (s_runtime (snd (obp_gate_open i s)) i) = runtime_ok (s_runtime s i)"
  by (simp_all add: snd_gate)

lemma abs_obp_frame:
  "abs_call (s_runtime (obp_frame_for_link i cls p r st pl s) i) =
     (if gate_open s i then abs_frame cls st (abs_call (s_runtime s i)) else abs_call (s_runtime s i))"
  by (cases cls) (simp_all add: obp_frame_for_link_def Let_def case_prod_beta fst_gate abs_frame_def
      abs_voice_head abs_voice_term abs_voice_burst)

lemma ok_obp_frame:
  "runtime_ok (s_runtime s i) \<Longrightarrow> length st = 4 \<Longrightarrow>
     runtime_ok (s_runtime (obp_frame_for_link i cls p r st pl s) i)"
  by (cases cls) (simp_all add: obp_frame_for_link_def Let_def case_prod_beta fst_gate
      ok_voice_head ok_voice_term abs_voice_burst)

lemma new_cc_call_ok: "length st = 4 \<Longrightarrow> runtime_ok (lr\<lparr>lr_call := new_cc_call r p st tg t, lr_has_call := True\<rparr>)"
  by (auto simp: runtime_ok_def new_cc_call_def Let_def DMR_LC_OPT_def in_set_conv_nth)

lemma abs_bon_step:
  "abs_call (s_runtime (translator_cccc_bon i r p s) i) =
     (if l_enabled (link_cfg s i) \<and> gate_open s i then abs_bon (abs_call (s_runtime s i))
      else abs_call (s_runtime s i))"
proof -
  have new: "abs_call (lr\<lparr>lr_call := new_cc_call r p st tg t, lr_has_call := True\<rparr>) = From_cc" for lr st tg t
    by (simp add: abs_call_def new_cc_call_def Let_def)
  show ?thesis
    by (cases rule: abs_call_cases [where lr = "s_runtime s i"])
       (auto simp: translator_cccc_bon_def Let_def case_prod_beta fst_gate snd_gate frame new)
qed

lemma ok_bon_step:
  "runtime_ok (s_runtime s i) \<Longrightarrow> runtime_ok (s_runtime (translator_cccc_bon i r p s) i)"
  by (simp add: translator_cccc_bon_def Let_def case_prod_beta fst_gate frame new_cc_call_ok)

lemma abs_voice_step:
  "abs_call (s_runtime (translator_cccc_voice i a s) i) = abs_call (s_runtime s i)"
  "runtime_ok (s_runtime s i) \<Longrightarrow> runtime_ok (s_runtime (translator_cccc_voice i a s) i)"
  by (simp_all add: translator_cccc_voice_def Let_def frame) (simp_all add: abs_call_def runtime_ok_def)

lemma abs_down_step:
  "abs_call (s_runtime (translator_cccc_link_down i s) i) = Idle"
  "runtime_ok (s_runtime s i) \<Longrightarrow> runtime_ok (s_runtime (translator_cccc_link_down i s) i)"
  by (simp_all add: translator_cccc_link_down_def Let_def frame) (simp_all add: abs_call_def runtime_ok_def)

lemma abs_up_step:
  "abs_call (s_runtime (translator_cccc_link_up i s) i) = abs_call (s_runtime s i)"
  "runtime_ok (s_runtime s i) \<Longrightarrow> runtime_ok (s_runtime (translator_cccc_link_up i s) i)"
  by (simp_all add: translator_cccc_link_up_def)

section \<open>Where a datagram goes\<close>

text \<open>The link that a DMRD body is for: group voice, with a configured and enabled link.\<close>

definition obp_route :: "sys \<Rightarrow> nat \<Rightarrow> bytes \<Rightarrow> nat option" where
  "obp_route s p body =
     (let flags = body ! OBP_FLAGS_OFF in
      if flags AND OBPF_CALL_UNIT \<noteq> 0 \<or> flags AND OBPF_VCSBK_MASK = OBPF_VCSBK_MASK then None
      else case find_obp_link (s_cfg s) p (rd24 body OBP_DST_OFF) of
             Some i \<Rightarrow> if l_enabled (link_cfg s i) then Some i else None
           | None \<Rightarrow> None)"

abbreviation body_stream :: "bytes \<Rightarrow> bytes" where
  "body_stream body \<equiv> take 4 (drop OBP_STREAM_OFF body)"

abbreviation body_class :: "bytes \<Rightarrow> frame_class" where
  "body_class body \<equiv> frame_class_of (body ! OBP_FLAGS_OFF)"

lemma dmrd_by_route:
  "translator_obp_dmrd_received p body s =
     (case obp_route s p body of None \<Rightarrow> s
      | Some i \<Rightarrow> obp_frame_for_link i (body_class body) (rd32 body OBP_NETID_OFF) (rd24 body OBP_SRC_OFF)
          (body_stream body) (take 33 (drop OBP_PAYLOAD_OFF body)) s)"
  by (simp add: translator_obp_dmrd_received_def obp_route_def Let_def split: option.split)

lemma find_obp_link_Some:
  "find_obp_link c p d = Some i \<Longrightarrow>
     i < n_link c \<and> l_openbridge_idx (c_link c ! i) = int p \<and> of_int (l_tgid (c_link c ! i)) = d"
  by (auto simp: find_obp_link_def find_Some_iff)

lemma obp_route_Some:
  "obp_route s p body = Some i \<Longrightarrow>
     i < n_link (s_cfg s) \<and> l_enabled (link_cfg s i) \<and> l_openbridge_idx (link_cfg s i) = int p \<and>
     of_int (l_tgid (link_cfg s i)) = rd24 body OBP_DST_OFF"
  by (auto simp: obp_route_def Let_def dest!: find_obp_link_Some split: option.splits if_splits)

lemma call_step_other: "call_step i s t \<Longrightarrow> j \<noteq> i \<Longrightarrow> s_runtime t j = s_runtime s j"
  by (auto simp: call_step_def)

lemma call_step_keeps:
  assumes "call_step i s t"
  shows "s_cfg t = s_cfg s" "s_loop t = s_loop s" "s_links t = s_links s" "s_pending t = s_pending s"
    "s_obp_fd t = s_obp_fd s" "s_obp_active t = s_obp_active s" "s_now t = s_now s"
    "s_sock t = s_sock s" "s_nsock t = s_nsock s" "s_rand t = s_rand s" "s_voice_fd t = s_voice_fd s"
  using assms by (auto simp: call_step_def only_sends_def)

lemma abs_dmrd_step:
  "abs_call (s_runtime (translator_obp_dmrd_received p body s) i) =
     (if obp_route s p body = Some i \<and> gate_open s i
      then abs_frame (body_class body) (body_stream body) (abs_call (s_runtime s i))
      else abs_call (s_runtime s i))"
proof (cases "obp_route s p body")
  case (Some j)
  then show ?thesis
    by (cases "i = j") (simp_all add: dmrd_by_route abs_obp_frame call_step_other [OF call_step_frame])
qed (simp add: dmrd_by_route)

section \<open>Expired calls\<close>

definition idle_expired :: "sys \<Rightarrow> nat \<Rightarrow> bool" where
  "idle_expired s i \<longleftrightarrow> lr_has_call (s_runtime s i) \<and>
     CALL_IDLE_TIMEOUT_S < s_now s - cs_last_activity (lr_call (s_runtime s i))"

lemma call_step_tick: "call_step i s (tick_link s i)"
  by (simp add: tick_link_def Let_def call_step_refl call_step_end)

lemma tick_link_runtime:
  assumes "runtime_ok (s_runtime s i)"
  shows "s_runtime (tick_link s i) i =
    (if idle_expired s i then (s_runtime s i)\<lparr>lr_has_call := False\<rparr> else s_runtime s i)"
  using assms
  by (cases "cs_origin (lr_call (s_runtime s i))")
     (auto simp: tick_link_def idle_expired_def runtime_ok_def Let_def end_obp_origin_call_def
        end_cc_origin_call_def drop_call_def frame)

lemma ticks_runtime:
  assumes "\<forall>i < n_link (s_cfg s). runtime_ok (s_runtime s i)" and "k \<le> n_link (s_cfg s)"
  shows "(\<forall>i. s_runtime (foldl tick_link s [0..<k]) i =
      (if i < k \<and> idle_expired s i then (s_runtime s i)\<lparr>lr_has_call := False\<rparr> else s_runtime s i)) \<and>
    s_cfg (foldl tick_link s [0..<k]) = s_cfg s \<and> s_now (foldl tick_link s [0..<k]) = s_now s"
  using assms(2)
proof (induction k)
  case (Suc k)
  let ?s = "foldl tick_link s [0..<k]"
  have IH: "\<And>i. s_runtime ?s i =
      (if i < k \<and> idle_expired s i then (s_runtime s i)\<lparr>lr_has_call := False\<rparr> else s_runtime s i)"
    "s_cfg ?s = s_cfg s" "s_now ?s = s_now s"
    using Suc by simp_all
  have ok: "runtime_ok (s_runtime ?s k)" using assms(1) Suc.prems IH(1) by simp
  have "idle_expired ?s k = idle_expired s k" by (simp add: idle_expired_def IH)
  then have "s_runtime (tick_link ?s k) i =
      (if i < Suc k \<and> idle_expired s i then (s_runtime s i)\<lparr>lr_has_call := False\<rparr> else s_runtime s i)" for i
    using tick_link_runtime [OF ok] call_step_other [OF call_step_tick [of k ?s], of i] IH(1)
    by (cases "i = k") (auto simp: less_Suc_eq)
  then show ?case using call_step_keeps(1,7) [OF call_step_tick [of k ?s]] IH by simp
qed simp

section \<open>Frames that change nothing\<close>

lemma gate_open_id: "gate_open s i \<Longrightarrow> obp_gate_open i s = (True, s)"
  by (auto simp: obp_gate_open_def Let_def gate_open_def)

lemma gate_closed:
  "\<not> gate_open s i \<Longrightarrow> obp_gate_open i s = (False, if lr_cx_drop_logged (s_runtime s i) then s
     else on_runtime i (\<lambda>lr. lr\<lparr>lr_cx_drop_logged := True\<rparr>) (emit (Log_cx_drop i) s))"
  by (auto simp: obp_gate_open_def Let_def gate_open_def)

lemma on_runtime_id: "f (s_runtime s i) = s_runtime s i \<Longrightarrow> on_runtime i f s = s"
  by (simp add: on_runtime_def)

text \<open>A call coming from the CC-CC side: the frame leaves the call and sends nothing.\<close>

lemma obp_frame_during_cc_call:
  assumes "call_from CALL_ORIGIN_CC (s_runtime s i)" "gate_open s i"
  shows "obp_frame_for_link i cls p r st pl s =
    (if cls = Fr_head then on_runtime i (\<lambda>lr. lr\<lparr>lr_cx_drop_logged := False\<rparr>) s else s)"
proof -
  have o: "cs_origin (lr_call (s_runtime s i)) \<noteq> CALL_ORIGIN_OBP" using assms(1) by simp
  have g: "gate_open (on_runtime i f s) i" for f using assms(2) by simp
  show ?thesis
    using assms o
    by (cases cls) (simp_all add: obp_frame_for_link_def Let_def gate_open_id g handle_obp_voice_head_def
        handle_obp_voice_term_def handle_obp_voice_burst_def)
qed

lemma obp_frame_other_stream:
  assumes "abs_call (s_runtime s i) \<noteq> From_obp st" "cls \<noteq> Fr_head" "gate_open s i"
  shows "obp_frame_for_link i cls p r st pl s = s"
  using assms
  by (cases cls; cases rule: abs_call_cases [where lr = "s_runtime s i"])
     (simp_all add: obp_frame_for_link_def Let_def gate_open_id handle_obp_voice_term_def handle_obp_voice_burst_def)

lemma obp_frame_closed:
  assumes "\<not> gate_open s i"
  shows "obp_frame_for_link i cls p r st pl s =
    (if cls = Fr_head \<or> \<not> lr_cx_drop_logged (s_runtime s i)
     then on_runtime i (\<lambda>lr. lr\<lparr>lr_cx_drop_logged := True\<rparr>) (emit (Log_cx_drop i) s) else s)"
proof -
  have g: "\<not> gate_open (on_runtime i f s) i" for f using assms by simp
  show ?thesis
    using assms
    by (cases cls; simp add: obp_frame_for_link_def Let_def gate_closed g)
      (simp_all add: emit_def on_runtime_def)
qed

section \<open>States that differ in the log only\<close>

text \<open>
  From \<open>s\<close> to \<open>t\<close> nothing is sent, no call starts, ends or changes, and no other part of the state
  does: at most a dropped cross-connect of link \<open>i\<close> is logged and the flag set that limits that log.
\<close>

definition only_logs :: "nat \<Rightarrow> sys \<Rightarrow> sys \<Rightarrow> bool" where
  "only_logs i s t \<longleftrightarrow>
     (\<exists>b es. set es \<subseteq> {Log_cx_drop i} \<and>
        t = (on_runtime i (\<lambda>lr. lr\<lparr>lr_cx_drop_logged := b\<rparr>) s)\<lparr>s_out := s_out s @ es\<rparr>)"

lemma only_logsI:
  "set es \<subseteq> {Log_cx_drop i} \<Longrightarrow> t = (on_runtime i (\<lambda>lr. lr\<lparr>lr_cx_drop_logged := b\<rparr>) s)\<lparr>s_out := s_out s @ es\<rparr> \<Longrightarrow>
     only_logs i s t"
  unfolding only_logs_def by blast

lemma only_logs_cases:
  "only_logs i s s" "only_logs i s (on_runtime i (\<lambda>lr. lr\<lparr>lr_cx_drop_logged := b\<rparr>) s)"
  "only_logs i s (on_runtime i (\<lambda>lr. lr\<lparr>lr_cx_drop_logged := True\<rparr>) (emit (Log_cx_drop i) s))"
proof -
  show "only_logs i s s"
    by (rule only_logsI [where es = "[]" and b = "lr_cx_drop_logged (s_runtime s i)"]) (simp_all add: on_runtime_def)
  show "only_logs i s (on_runtime i (\<lambda>lr. lr\<lparr>lr_cx_drop_logged := b\<rparr>) s)"
    by (rule only_logsI [where es = "[]" and b = b]) (simp_all add: on_runtime_def)
  show "only_logs i s (on_runtime i (\<lambda>lr. lr\<lparr>lr_cx_drop_logged := True\<rparr>) (emit (Log_cx_drop i) s))"
    by (rule only_logsI [where es = "[Log_cx_drop i]" and b = True]) (simp_all add: on_runtime_def emit_def)
qed

lemma closed_frame_only_logs: "\<not> gate_open s i \<Longrightarrow> only_logs i s (obp_frame_for_link i cls p r st pl s)"
  by (simp add: obp_frame_closed only_logs_cases)

lemma closed_bon:
  assumes "\<not> gate_open s i"
  shows "translator_cccc_bon i r p s =
    (if l_enabled (link_cfg s i) then on_runtime i (\<lambda>lr. lr\<lparr>lr_cx_drop_logged := True\<rparr>) (emit (Log_cx_drop i) s) else s)"
proof -
  have g: "\<not> gate_open (on_runtime i f s) i" for f using assms by simp
  show ?thesis
  proof (cases "l_enabled (link_cfg s i)")
    case True
    then show ?thesis
      using assms by (simp add: translator_cccc_bon_def Let_def gate_closed g) (simp add: on_runtime_def emit_def)
  qed (simp add: translator_cccc_bon_def)
qed

lemma bon_during_obp_call:
  assumes "call_from CALL_ORIGIN_OBP (s_runtime s i)"
  shows "only_logs i s (translator_cccc_bon i r p s)"
proof (cases "gate_open s i")
  case True
  have "gate_open (on_runtime i f s) i" for f using True by simp
  then show ?thesis
    using assms by (simp add: translator_cccc_bon_def Let_def gate_open_id only_logs_cases)
qed (simp add: closed_bon only_logs_cases)

section \<open>Properties\<close>

text \<open>
  C1: every callback of the translator implements a transition of the abstract machine of a link's
  call: B-on, voice, B-off and link loss from the CC-CC side, and a received DMRD body, which acts
  on the one link it is for and only while that link's gate is open.
\<close>

theorem calls_refine_machine:
  "abs_call (s_runtime (translator_cccc_bon i r p s) i) =
     (if l_enabled (link_cfg s i) \<and> gate_open s i then abs_bon (abs_call (s_runtime s i))
      else abs_call (s_runtime s i)) \<and>
   abs_call (s_runtime (translator_cccc_voice i a s) i) = abs_call (s_runtime s i) \<and>
   abs_call (s_runtime (translator_cccc_boff i s) i) = abs_boff (abs_call (s_runtime s i)) \<and>
   abs_call (s_runtime (translator_cccc_link_up i s) i) = abs_call (s_runtime s i) \<and>
   abs_call (s_runtime (translator_cccc_link_down i s) i) = Idle \<and>
   abs_call (s_runtime (translator_obp_dmrd_received q body s) i) =
     (if obp_route s q body = Some i \<and> gate_open s i
      then abs_frame (frame_class_of (body ! OBP_FLAGS_OFF)) (take 4 (drop OBP_STREAM_OFF body))
             (abs_call (s_runtime s i))
      else abs_call (s_runtime s i))"
  by (simp add: abs_bon_step abs_voice_step abs_end_cc abs_down_step abs_up_step abs_dmrd_step
      translator_cccc_boff_def)

text \<open>
  C5: a call is never taken over from the other side, whether the gate is open or not.  While a call
  from the CC-CC side runs on the link that a DMRD body is for, and while a call from OpenBridge runs
  on the link of a B-on, nothing is sent and the call goes on as it was; at most the log of a
  closed gate is written.  The same holds for a frame that is no voice header and whose stream is not
  that of a running call from OpenBridge.  Links that the body is not for keep their calls in any case.
\<close>

theorem no_takeover:
  shows "(obp_route s q body = Some i \<and> call_from CALL_ORIGIN_CC (s_runtime s i) \<longrightarrow>
      only_logs i s (translator_obp_dmrd_received q body s)) \<and>
    (call_from CALL_ORIGIN_OBP (s_runtime s i) \<longrightarrow> only_logs i s (translator_cccc_bon i r p s)) \<and>
    (obp_route s q body = Some i \<and> frame_class_of (body ! OBP_FLAGS_OFF) \<noteq> Fr_head \<and>
      abs_call (s_runtime s i) \<noteq> From_obp (take 4 (drop OBP_STREAM_OFF body)) \<longrightarrow>
      only_logs i s (translator_obp_dmrd_received q body s)) \<and>
    (obp_route s q body \<noteq> Some i \<longrightarrow> s_runtime (translator_obp_dmrd_received q body s) i = s_runtime s i)"
proof (intro conjI impI)
  assume a: "obp_route s q body = Some i \<and> call_from CALL_ORIGIN_CC (s_runtime s i)"
  then show "only_logs i s (translator_obp_dmrd_received q body s)"
    by (cases "gate_open s i") (simp_all add: dmrd_by_route closed_frame_only_logs obp_frame_during_cc_call only_logs_cases)
next
  assume a: "obp_route s q body = Some i \<and> frame_class_of (body ! OBP_FLAGS_OFF) \<noteq> Fr_head \<and>
      abs_call (s_runtime s i) \<noteq> From_obp (take 4 (drop OBP_STREAM_OFF body))"
  then show "only_logs i s (translator_obp_dmrd_received q body s)"
    by (cases "gate_open s i") (simp_all add: dmrd_by_route closed_frame_only_logs obp_frame_other_stream only_logs_cases)
next
  assume "obp_route s q body \<noteq> Some i"
  then show "s_runtime (translator_obp_dmrd_received q body s) i = s_runtime s i"
    by (auto simp: dmrd_by_route call_step_other [OF call_step_frame] split: option.split)
qed (rule bon_during_obp_call)

text \<open>A voice burst of another stream, for the first link of the example, its peer's socket open.\<close>

definition demo_body :: "u8 \<Rightarrow> bytes" where
  "demo_body flags = DMRD @ [0] @ wr24 3112001 @ wr24 3120 @ wr32 3112345 @ [flags] @ [1, 2, 3, 4] @ replicate 33 0"

definition demo_call :: "call_origin \<Rightarrow> sys" where
  "demo_call orig = on_runtime 0 (\<lambda>lr. lr\<lparr>lr_has_call := True, lr_call := zero_call\<lparr>cs_origin := orig\<rparr>\<rparr>)
     (demo_up\<lparr>s_obp_fd := (\<lambda>_. 9), s_obp_active := (\<lambda>_. True)\<rparr>)"

lemma demo_route: "s_cfg s = demo_config \<Longrightarrow> obp_route s 0 (demo_body 0x11) = Some 0"
  by (simp add: obp_route_def demo_body_def obp_consts obp_flags find_obp_link_def n_link_def
      demo_config_def demo_link_def rd24_def wr24_def wr32_def upt_rec nth_append)

lemma demo_call_fields:
  "s_cfg (demo_call orig) = demo_config" "gate_open (demo_call orig) 0" "l_enabled (link_cfg (demo_call orig) 0)"
  "s_runtime (demo_call orig) 0 = zero_runtime\<lparr>lr_has_call := True, lr_call := zero_call\<lparr>cs_origin := orig\<rparr>\<rparr>"
  by (simp_all add: demo_call_def demo_up_def on_link_def gate_open_def obp_peer_is_enabled_def n_openbridge_def)
     (simp_all add: demo_defs on_runtime_def)

lemma no_takeover_witness:
  "only_logs 0 (demo_call CALL_ORIGIN_CC) (translator_obp_dmrd_received 0 (demo_body 0x11) (demo_call CALL_ORIGIN_CC))"
  using no_takeover [of "demo_call CALL_ORIGIN_CC" 0 "demo_body 0x11" 0]
    demo_route [OF demo_call_fields(1) [of CALL_ORIGIN_CC]] demo_call_fields(4) [of CALL_ORIGIN_CC] by simp



text \<open>
  C23: after a tick no configured link has a call that was silent for more than five seconds; such
  calls are ended and every other call, and every other link, keeps its record.
\<close>

theorem tick_ends_silent_calls:
  assumes "\<forall>i < n_link (s_cfg s). runtime_ok (s_runtime s i)"
  shows "(\<forall>i. s_runtime (translator_tick s) i =
      (if i < n_link (s_cfg s) \<and> idle_expired s i then (s_runtime s i)\<lparr>lr_has_call := False\<rparr> else s_runtime s i)) \<and>
    (\<forall>i < n_link (s_cfg s). \<not> idle_expired (translator_tick s) i)"
  using ticks_runtime [OF assms order_refl] by (auto simp: translator_tick_def idle_expired_def)

lemma tick_ends_silent_calls_witness:
  "\<not> lr_has_call (s_runtime (translator_tick ((demo_call CALL_ORIGIN_CC)\<lparr>s_now := 6\<rparr>)) 0)"
proof -
  let ?s = "(demo_call CALL_ORIGIN_CC)\<lparr>s_now := 6\<rparr>"
  have n: "n_link (s_cfg ?s) = 2" by (simp add: demo_call_fields demo_config_def n_link_def)
  have "\<forall>i < n_link (s_cfg ?s). runtime_ok (s_runtime ?s i)"
    by (simp add: demo_call_def demo_up_def on_link_def demo_sys_def blank_sys_def runtime_ok_def
        zero_runtime_def zero_call_def)
  from tick_ends_silent_calls [OF this] n show ?thesis
    by (simp add: idle_expired_def demo_call_fields zero_call_def CALL_IDLE_TIMEOUT_S_def)
qed

end
