(* ===== verification/Bursts.thy ===== *)
theory Bursts
  imports Translate
begin

text \<open>
  The 33-byte DMR bursts that \<open>translate.c\<close> assembles and takes apart: what a receiver finds in
  a voice burst and in the burst of a voice header or terminator.
\<close>

section \<open>Voice bursts\<close>

lemma length_build_embed [array_len]:
  "pos < 6 \<Longrightarrow> pos \<le> 4 \<longrightarrow> pos \<noteq> 0 \<longrightarrow> length (cs_emb c ! (pos - 1)) = 4 \<Longrightarrow> length (build_embed c pos) = 48"
  by (auto simp: build_embed_def Let_def)

lemma voice_burst_bits:
  assumes "pos < 6" "length (cs_emb c) = 4" "\<forall>f \<in> set (cs_emb c). length f = 4"
  shows "dmr_bytes_to_bits (build_voice_payload c pos a) =
    dmr_ambe_49_to_72 (cccc_ambe_unpack21 a ! 0) @ take 36 (dmr_ambe_49_to_72 (cccc_ambe_unpack21 a ! 1)) @
    build_embed c pos @ drop 36 (dmr_ambe_49_to_72 (cccc_ambe_unpack21 a ! 1)) @
    dmr_ambe_49_to_72 (cccc_ambe_unpack21 a ! 2)"
  and "length (build_voice_payload c pos a) = 33"
proof -
  have "length (build_embed c pos) = 48" using assms by (intro length_build_embed) auto
  then show "dmr_bytes_to_bits (build_voice_payload c pos a) =
    dmr_ambe_49_to_72 (cccc_ambe_unpack21 a ! 0) @ take 36 (dmr_ambe_49_to_72 (cccc_ambe_unpack21 a ! 1)) @
    build_embed c pos @ drop 36 (dmr_ambe_49_to_72 (cccc_ambe_unpack21 a ! 1)) @
    dmr_ambe_49_to_72 (cccc_ambe_unpack21 a ! 2)" "length (build_voice_payload c pos a) = 33"
    by (simp_all add: build_voice_payload_def Let_def bits_of_bytes_of_bits)
qed

lemma list3: "length xs = 3 \<Longrightarrow> [xs ! 0, xs ! Suc 0, xs ! 2] = xs"
  by (auto simp: numeral_eq_Suc length_Suc_conv)

lemma extract_build_voice:
  assumes "pos < 6" "length (cs_emb c) = 4" "\<forall>f \<in> set (cs_emb c). length f = 4"
  shows "extract_ambe (build_voice_payload c pos a) = cccc_ambe_unpack21 a"
proof -
  have "length (build_embed c pos) = 48" using assms by (intro length_build_embed) auto
  then show ?thesis
    unfolding extract_ambe_def voice_burst_bits(1) [OF assms] Let_def
    by (simp add: ambe.dec_enc) (rule list3, simp)
qed

section \<open>Header and terminator bursts\<close>

lemma head_term_bits:
  "dmr_bytes_to_bits (build_head_term_payload lc b) =
     take 98 (dmr_bptc_encode_lc lc b) @
     take 10 (if b then DMR_SLOT_TYPE_VTERM else DMR_SLOT_TYPE_VHEAD) @ DMR_BS_DATA_SYNC @
     drop 10 (if b then DMR_SLOT_TYPE_VTERM else DMR_SLOT_TYPE_VHEAD) @ drop 98 (dmr_bptc_encode_lc lc b)"
  "length (build_head_term_payload lc b) = 33"
  by (cases b; simp add: build_head_term_payload_def Let_def bits_of_bytes_of_bits)+

section \<open>Properties\<close>

text \<open>
  The voice burst that the bridge builds from the 21 bytes of a CC-CC datagram carries, around
  its middle, the same three vocoder frames: taking it apart again, as the other direction does,
  gives the frames of the datagram, and packing those gives the datagram back up to the unused
  low bits of its three units.  The middle is the voice sync for the first burst of a superframe
  and the embedded signalling for the others.
\<close>

lemma voice_burst_roundtrip:
  assumes "pos < 6" "length (cs_emb c) = 4" "\<forall>f \<in> set (cs_emb c). length f = 4" "length a = 21"
  shows "length (build_voice_payload c pos a) = 33 \<and>
    extract_ambe (build_voice_payload c pos a) = cccc_ambe_unpack21 a \<and>
    cccc_ambe_pack21 (extract_ambe (build_voice_payload c pos a)) =
      a[6 := a ! 6 AND 0x80, 13 := a ! 13 AND 0x80, 20 := a ! 20 AND 0x80] \<and>
    take 48 (drop 108 (dmr_bytes_to_bits (build_voice_payload c pos a))) = build_embed c pos"
proof -
  have "length (build_embed c pos) = 48" using assms by (intro length_build_embed) auto
  then show ?thesis
    using extract_build_voice [OF assms(1-3)] voice_burst_bits [OF assms(1-3)] assms(4)
    by (simp add: pack21_unpack21)
qed

lemma voice_burst_roundtrip_witness:
  "cccc_ambe_pack21 (extract_ambe (build_voice_payload zero_call 3 (replicate 21 0xFF))) =
     (replicate 21 0xFF)[6 := 0x80, 13 := 0x80, 20 := 0x80]"
  using voice_burst_roundtrip [of 3 zero_call "replicate 21 0xFF", THEN conjunct2, THEN conjunct2, THEN conjunct1]
  by (simp add: zero_call_def)

text \<open>
  C33: the burst of a voice header or terminator has the data sync in its middle and its two
  information halves are a full link control that decodes to the nine bytes it was built from.
\<close>

theorem head_term_burst:
  assumes "length lc = 9"
  shows "length (build_head_term_payload lc b) = 33 \<and>
    (let bits = dmr_bytes_to_bits (build_head_term_payload lc b) in
      take 48 (drop 108 bits) = DMR_BS_DATA_SYNC \<and>
      take 10 (drop 98 bits) @ take 10 (drop 156 bits) =
        (if b then DMR_SLOT_TYPE_VTERM else DMR_SLOT_TYPE_VHEAD) \<and>
      dmr_bptc_decode_full_lc (take 98 bits @ drop 166 bits) = lc)"
  using assms
  by (cases b) (simp_all add: head_term_bits Let_def decode_full_lc_encode_lc)

lemma head_term_burst_witness:
  "length (build_head_term_payload (replicate 9 7) True) = 33"
  using head_term_burst [of "replicate 9 7" True] by simp

end
