(* ===== verification/Traffic.thy ===== *)
theory Traffic
  imports Calls Bursts
begin

text \<open>
  Whole calls through the bridge: what a call from the CC-CC side sends to the OpenBridge peer,
  and what a call from OpenBridge sends to the CC-CC peer, from its first message to its last.
\<close>

unbundle bit_operations_syntax

section \<open>From CC-CC to OpenBridge\<close>

lemma gate_open_cong: "s_cfg t = s_cfg s \<Longrightarrow> s_obp_active t = s_obp_active s \<Longrightarrow> gate_open t i = gate_open s i"
  by (simp add: gate_open_def obp_peer_is_enabled_def)

text \<open>The peer of the link has a socket.\<close>

definition peer_ready :: "sys \<Rightarrow> nat \<Rightarrow> nat \<Rightarrow> bool" where
  "peer_ready s i q \<longleftrightarrow> l_openbridge_idx (link_cfg s i) = int q \<and> q < n_openbridge (s_cfg s) \<and> 0 \<le> s_obp_fd s q"

text \<open>The datagram that carries frame \<open>(flags, payload)\<close> of call \<open>c\<close> as number \<open>k\<close> to the peer.\<close>

definition dmrd_out :: "sys \<Rightarrow> nat \<Rightarrow> nat \<Rightarrow> call_state \<Rightarrow> nat \<times> u8 \<times> bytes \<Rightarrow> effect" where
  "dmrd_out s i q c = (\<lambda>(k, flags, payload).
     Udp_send (s_obp_fd s q)
       (obp_packet (peer_cfg s q)
          (dmrd_body k (cs_rf_src c) (l_tgid (link_cfg s i)) (cs_cc_peer_id c) flags (cs_stream_id c) payload))
       (o_peer_ip (peer_cfg s q)) (o_peer_port (peer_cfg s q)))"

lemma send_dmrd_ready:
  "peer_ready s i q \<Longrightarrow> send_dmrd i flags payload s =
     s\<lparr>s_obp_seq_ctr := (s_obp_seq_ctr s)(q := Suc (s_obp_seq_ctr s q)),
       s_out := s_out s @ [dmrd_out s i q (lr_call (s_runtime s i)) (s_obp_seq_ctr s q, flags, payload)]\<rparr>"
  by (simp add: send_dmrd_def peer_ready_def Let_def obp_send_dmrd_def dmrd_out_def emit_def not_less)

text \<open>Voice burst number \<open>k\<close> of a call: its flags and payload, by its place in the superframe.\<close>

definition voice_frame :: "call_state \<Rightarrow> nat \<times> bytes \<Rightarrow> u8 \<times> bytes" where
  "voice_frame c = (\<lambda>(k, a).
     (if k mod 6 = 0 then OBPF_FRAMETYPE_VOICESYNC else OBPF_FRAMETYPE_VOICE OR of_nat (k mod 6),
      build_voice_payload c (k mod 6) a))"

lemma build_voice_cong: "cs_emb c = cs_emb d \<Longrightarrow> build_voice_payload c = build_voice_payload d"
  by (intro ext) (simp add: build_voice_payload_def build_embed_def Let_def)

lemma cc_voice_ready:
  assumes "peer_ready s i q" "call_from CALL_ORIGIN_CC (s_runtime s i)" "l_cross_connect_active (link_cfg s i)"
  shows "translator_cccc_voice i a s =
    s\<lparr>s_runtime := (s_runtime s)(i := (s_runtime s i)\<lparr>lr_call := (lr_call (s_runtime s i))
        \<lparr>cs_last_activity := s_now s, cs_obp_seq_pos := Suc (cs_obp_seq_pos (lr_call (s_runtime s i)))\<rparr>\<rparr>),
      s_obp_seq_ctr := (s_obp_seq_ctr s)(q := Suc (s_obp_seq_ctr s q)),
      s_out := s_out s @ [dmrd_out s i q (lr_call (s_runtime s i)) (s_obp_seq_ctr s q,
        voice_frame (lr_call (s_runtime s i)) (cs_obp_seq_pos (lr_call (s_runtime s i)), a))]\<rparr>"
proof -
  let ?s = "on_call i (\<lambda>c. c\<lparr>cs_last_activity := s_now s\<rparr>) s"
  have r: "peer_ready ?s i q" using assms(1) by (simp add: peer_ready_def on_call_def on_runtime_def)
  have b: "build_voice_payload (c\<lparr>cs_last_activity := x\<rparr>) = build_voice_payload c" for c x
    by (rule build_voice_cong) simp
  show ?thesis
    using assms(2,3)
    by (simp add: translator_cccc_voice_def Let_def send_dmrd_ready [OF r])
       (simp add: on_call_def on_runtime_def dmrd_out_def voice_frame_def b Let_def)
qed

text \<open>A voice datagram taken in at time \<open>t\<close>.\<close>

definition hear :: "nat \<Rightarrow> rat \<times> bytes \<Rightarrow> sys \<Rightarrow> sys" where
  "hear i = (\<lambda>(t, a) s. translator_cccc_voice i a (s\<lparr>s_now := t\<rparr>))"

lemma hear_ready:
  assumes "peer_ready s i q" "call_from CALL_ORIGIN_CC (s_runtime s i)" "l_cross_connect_active (link_cfg s i)"
  shows "hear i (t, a) s =
    s\<lparr>s_now := t, s_runtime := (s_runtime s)(i := (s_runtime s i)\<lparr>lr_call := (lr_call (s_runtime s i))
        \<lparr>cs_last_activity := t, cs_obp_seq_pos := Suc (cs_obp_seq_pos (lr_call (s_runtime s i)))\<rparr>\<rparr>),
      s_obp_seq_ctr := (s_obp_seq_ctr s)(q := Suc (s_obp_seq_ctr s q)),
      s_out := s_out s @ [dmrd_out s i q (lr_call (s_runtime s i)) (s_obp_seq_ctr s q,
        voice_frame (lr_call (s_runtime s i)) (cs_obp_seq_pos (lr_call (s_runtime s i)), a))]\<rparr>"
  using cc_voice_ready [of "s\<lparr>s_now := t\<rparr>" i q a] assms
  by (simp add: hear_def peer_ready_def) (simp add: dmrd_out_def)

text \<open>The voice of a call: its frames in order, numbered on from the peer's counter.\<close>

lemma cc_voices:
  assumes "peer_ready s i q" "call_from CALL_ORIGIN_CC (s_runtime s i)" "l_cross_connect_active (link_cfg s i)"
  defines "c \<equiv> lr_call (s_runtime s i)"
  shows "let t = fold (hear i) xs s; c' = lr_call (s_runtime t i) in
    s_cfg t = s_cfg s \<and> s_obp_fd t = s_obp_fd s \<and> s_links t = s_links s \<and> call_from CALL_ORIGIN_CC (s_runtime t i) \<and>
    cs_lc c' = cs_lc c \<and> cs_emb c' = cs_emb c \<and> dmrd_out t i q c' = dmrd_out s i q c \<and>
    cs_obp_seq_pos c' = cs_obp_seq_pos c + length xs \<and>
    s_obp_seq_ctr t = (s_obp_seq_ctr s)(q := s_obp_seq_ctr s q + length xs) \<and>
    s_out t = s_out s @ map (dmrd_out s i q c)
      (enumerate (s_obp_seq_ctr s q) (map (voice_frame c) (enumerate (cs_obp_seq_pos c) (map snd xs))))"
proof (induction xs rule: rev_induct)
  case Nil
  then show ?case using assms by (simp add: c_def)
next
  case (snoc x xs)
  let ?t = "fold (hear i) xs s" and ?c = "lr_call (s_runtime (fold (hear i) xs s) i)"
  have IH: "s_cfg ?t = s_cfg s" "s_obp_fd ?t = s_obp_fd s" "s_links ?t = s_links s" "call_from CALL_ORIGIN_CC (s_runtime ?t i)"
    "cs_lc ?c = cs_lc c" "cs_emb ?c = cs_emb c" "dmrd_out ?t i q ?c = dmrd_out s i q c"
    "cs_obp_seq_pos ?c = cs_obp_seq_pos c + length xs"
    "s_obp_seq_ctr ?t = (s_obp_seq_ctr s)(q := s_obp_seq_ctr s q + length xs)"
    "s_out ?t = s_out s @ map (dmrd_out s i q c)
      (enumerate (s_obp_seq_ctr s q) (map (voice_frame c) (enumerate (cs_obp_seq_pos c) (map snd xs))))"
    using snoc.IH [unfolded Let_def] by blast+
  have "peer_ready ?t i q" "l_cross_connect_active (link_cfg ?t i)"
    using assms(1,3) IH(1,2) by (simp_all add: peer_ready_def)
  note step = hear_ready [OF this(1) IH(4) this(2), of "fst x" "snd x"]
  have f: "voice_frame ?c = voice_frame c"
    using build_voice_cong [OF IH(6)] by (simp add: voice_frame_def)
  have d: "dmrd_out (t\<lparr>s_now := n, s_runtime := rt, s_obp_seq_ctr := ct, s_out := ou\<rparr>) i q
      (c'\<lparr>cs_last_activity := z, cs_obp_seq_pos := y\<rparr>) = dmrd_out t i q c'" for t n rt ct ou c' z y
    by (simp add: dmrd_out_def)
  have x: "hear i x ?t = hear i (fst x, snd x) ?t" by simp
  show ?case
    using IH by (simp add: x step d f Let_def enumerate_append_eq del: prod.collapse) (simp add: fun_upd_def)
qed

text \<open>The start and the end of a call.\<close>

lemma cc_bon_ready:
  fixes radio peer :: u32
  assumes "peer_ready s i q" "l_enabled (link_cfg s i)" "gate_open s i" "abs_call (s_runtime s i) = Idle"
  defines "c \<equiv> new_cc_call radio peer (wr32 (s_rand s (s_nrand s))) (l_tgid (link_cfg s i)) (s_now s)"
  shows "translator_cccc_bon i radio peer s =
    s\<lparr>s_nrand := Suc (s_nrand s),
      s_runtime := (s_runtime s)(i := (s_runtime s i)
        \<lparr>lr_cx_drop_logged := False, lr_call := c, lr_has_call := True\<rparr>),
      s_obp_seq_ctr := (s_obp_seq_ctr s)(q := Suc (s_obp_seq_ctr s q)),
      s_out := s_out s @ [dmrd_out s i q c (s_obp_seq_ctr s q,
        OBPF_FRAMETYPE_DATASYNC OR OBPF_SLT_VHEAD, build_head_term_payload (cs_lc c) False)]\<rparr>"
proof -
  have nc: "\<not> call_from CALL_ORIGIN_CC (s_runtime s i)" "\<not> call_from CALL_ORIGIN_OBP (s_runtime s i)"
    using assms(4) by (auto simp: abs_call_def split: if_splits)
  have r: "peer_ready (on_runtime i f ((on_runtime i g s)\<lparr>s_nrand := k\<rparr>)) i q" for f g k
    using assms(1) by (simp add: peer_ready_def on_runtime_def)
  show ?thesis
    using assms(2,3) nc
    by (simp add: translator_cccc_bon_def Let_def gate_open_id rand4_def next_rand_def send_obp_voice_head_def
        send_dmrd_ready [OF r])
       (auto simp: on_runtime_def dmrd_out_def c_def)
qed

lemma cc_boff_ready:
  assumes "peer_ready s i q" "call_from CALL_ORIGIN_CC (s_runtime s i)"
  shows "translator_cccc_boff i s =
    s\<lparr>s_runtime := (s_runtime s)(i := (s_runtime s i)\<lparr>lr_has_call := False\<rparr>),
      s_obp_seq_ctr := (s_obp_seq_ctr s)(q := Suc (s_obp_seq_ctr s q)),
      s_out := s_out s @ [dmrd_out s i q (lr_call (s_runtime s i)) (s_obp_seq_ctr s q,
        OBPF_FRAMETYPE_DATASYNC OR OBPF_SLT_VTERM, build_head_term_payload (cs_lc (lr_call (s_runtime s i))) True)]\<rparr>"
  using assms
  by (simp add: translator_cccc_boff_def end_cc_origin_call_def send_obp_voice_term_def send_dmrd_ready drop_call_def)
     (simp add: on_runtime_def)

text \<open>A whole call from the CC-CC side: B-on, voice datagrams, B-off, each at its time.\<close>

definition cc_call_talk :: "nat \<Rightarrow> u32 \<Rightarrow> u32 \<Rightarrow> rat \<Rightarrow> (rat \<times> bytes) list \<Rightarrow> sys \<Rightarrow> sys" where
  "cc_call_talk i radio peer t0 xs s = fold (hear i) xs (translator_cccc_bon i radio peer (s\<lparr>s_now := t0\<rparr>))"

definition cc_call_run :: "nat \<Rightarrow> u32 \<Rightarrow> u32 \<Rightarrow> rat \<Rightarrow> (rat \<times> bytes) list \<Rightarrow> rat \<Rightarrow> sys \<Rightarrow> sys" where
  "cc_call_run i radio peer t0 xs t1 s = translator_cccc_boff i ((cc_call_talk i radio peer t0 xs s)\<lparr>s_now := t1\<rparr>)"

definition cc_call_frames :: "call_state \<Rightarrow> bytes list \<Rightarrow> (u8 \<times> bytes) list" where
  "cc_call_frames c as =
     (OBPF_FRAMETYPE_DATASYNC OR OBPF_SLT_VHEAD, build_head_term_payload (cs_lc c) False) #
     map (voice_frame c) (enumerate 0 as) @
     [(OBPF_FRAMETYPE_DATASYNC OR OBPF_SLT_VTERM, build_head_term_payload (cs_lc c) True)]"

lemma cc_call_talk_ready:
  fixes radio peer :: u32 and t0 :: rat
  assumes "peer_ready s i q" "l_enabled (link_cfg s i)" "gate_open s i" "abs_call (s_runtime s i) = Idle"
  defines "c \<equiv> new_cc_call radio peer (wr32 (s_rand s (s_nrand s))) (l_tgid (link_cfg s i)) t0"
  shows "let t = cc_call_talk i radio peer t0 xs s; c' = lr_call (s_runtime t i) in
    s_cfg t = s_cfg s \<and> s_obp_fd t = s_obp_fd s \<and> s_links t = s_links s \<and> call_from CALL_ORIGIN_CC (s_runtime t i) \<and>
    cs_lc c' = cs_lc c \<and> dmrd_out t i q c' = dmrd_out s i q c \<and> s_obp_seq_ctr t q = Suc (s_obp_seq_ctr s q) + length xs \<and>
    s_out t = s_out s @ map (dmrd_out s i q c)
      (enumerate (s_obp_seq_ctr s q) (butlast (cc_call_frames c (map snd xs))))"
proof -
  define b where "b = translator_cccc_bon i radio peer (s\<lparr>s_now := t0\<rparr>)"
  have "gate_open (s\<lparr>s_now := t0\<rparr>) i" using assms(3) gate_open_cong [of "s\<lparr>s_now := t0\<rparr>" s] by simp
  then have b: "b = s\<lparr>s_now := t0, s_nrand := Suc (s_nrand s),
      s_runtime := (s_runtime s)(i := (s_runtime s i)\<lparr>lr_cx_drop_logged := False, lr_call := c, lr_has_call := True\<rparr>),
      s_obp_seq_ctr := (s_obp_seq_ctr s)(q := Suc (s_obp_seq_ctr s q)),
      s_out := s_out s @ [dmrd_out s i q c (s_obp_seq_ctr s q,
        OBPF_FRAMETYPE_DATASYNC OR OBPF_SLT_VHEAD, build_head_term_payload (cs_lc c) False)]\<rparr>"
    using cc_bon_ready [of "s\<lparr>s_now := t0\<rparr>" i q radio peer] assms(1,2,4)
    by (simp add: b_def c_def peer_ready_def) (simp add: dmrd_out_def)
  have r: "peer_ready b i q" "call_from CALL_ORIGIN_CC (s_runtime b i)" "l_cross_connect_active (link_cfg b i)"
      "lr_call (s_runtime b i) = c" "dmrd_out b i q c = dmrd_out s i q c" "cs_obp_seq_pos c = 0"
    using assms by (simp_all add: b peer_ready_def gate_open_def dmrd_out_def c_def new_cc_call_def Let_def)
  note v = cc_voices [OF r(1-3), of xs, folded b_def, unfolded Let_def r(4-6)]
  then show ?thesis
    unfolding cc_call_talk_def b_def [symmetric] Let_def
    by (simp add: b cc_call_frames_def butlast_append)
qed

lemma cc_call_out:
  fixes radio peer :: u32 and t0 t1 :: rat and xs :: "(rat \<times> bytes) list"
  assumes "peer_ready s i q" "l_enabled (link_cfg s i)" "gate_open s i" "abs_call (s_runtime s i) = Idle"
  defines "c \<equiv> new_cc_call radio peer (wr32 (s_rand s (s_nrand s))) (l_tgid (link_cfg s i)) t0"
    and "t \<equiv> cc_call_run i radio peer t0 xs t1 s"
  shows "s_out t = s_out s @ map (dmrd_out s i q c) (enumerate (s_obp_seq_ctr s q) (cc_call_frames c (map snd xs)))"
    and "abs_call (s_runtime t i) = Idle"
proof -
  define u where "u = (cc_call_talk i radio peer t0 xs s)\<lparr>s_now := t1\<rparr>"
  note v = cc_call_talk_ready [OF assms(1-4), of radio peer t0 xs, folded c_def, unfolded Let_def]
  have u: "peer_ready u i q" "call_from CALL_ORIGIN_CC (s_runtime u i)" "s_out u = s_out (cc_call_talk i radio peer t0 xs s)"
    "dmrd_out u i q (lr_call (s_runtime u i)) = dmrd_out s i q c" "s_obp_seq_ctr u q = Suc (s_obp_seq_ctr s q) + length xs"
    "cs_lc (lr_call (s_runtime u i)) = cs_lc c"
    using v assms(1) by (auto simp: u_def peer_ready_def) (auto simp: dmrd_out_def)
  have t: "t = translator_cccc_boff i u" by (simp add: t_def u_def cc_call_run_def)
  show "s_out t = s_out s @ map (dmrd_out s i q c) (enumerate (s_obp_seq_ctr s q) (cc_call_frames c (map snd xs)))"
    unfolding t cc_boff_ready [OF u(1,2)] u(4-6)
    using v by (simp add: u(3) cc_call_frames_def enumerate_append_eq butlast_append)
  show "abs_call (s_runtime t i) = Idle"
    unfolding t cc_boff_ready [OF u(1,2)] by simp
qed

text \<open>
  C10: a whole call from the CC-CC side, its messages coming in at any times, appears to the OpenBridge
  peer as one voice header, one burst per datagram, and one terminator, numbered consecutively on the
  peer's counter and all with the call's stream id: bursts 0, 6, 12, ... carry the voice sync, the
  others their place 1 to 5 in the superframe; afterwards the link has no call.
\<close>

theorem cc_call_on_openbridge:
  assumes "peer_ready s i q" "l_enabled (link_cfg s i)" "gate_open s i" "abs_call (s_runtime s i) = Idle"
  shows "let c = new_cc_call radio peer (wr32 (s_rand s (s_nrand s))) (l_tgid (link_cfg s i)) t0;
             t = cc_call_run i radio peer t0 xs t1 s
    in s_out t = s_out s @ map (dmrd_out s i q c) (enumerate (s_obp_seq_ctr s q) (cc_call_frames c (map snd xs))) \<and>
       abs_call (s_runtime t i) = Idle"
  using cc_call_out [OF assms] by (simp only: Let_def)

text \<open>The example with the peer's socket open and no call.\<close>

definition demo_ready :: sys where
  "demo_ready = demo_up\<lparr>s_obp_fd := (\<lambda>_. 9), s_obp_active := (\<lambda>_. True)\<rparr>"

lemma demo_ready_facts:
  "peer_ready demo_ready 0 0" "l_enabled (link_cfg demo_ready 0)" "gate_open demo_ready 0"
  "abs_call (s_runtime demo_ready 0) = Idle" "s_out demo_ready = []" "s_obp_seq_ctr demo_ready = (\<lambda>_. 0)"
  by (simp_all add: demo_ready_def demo_up_def on_link_def gate_open_def obp_peer_is_enabled_def n_openbridge_def
      peer_ready_def) (simp_all add: demo_defs abs_call_def)

lemma cc_call_on_openbridge_witness:
  "length (s_out (cc_call_run 0 3112001 1 0 [(1, replicate 21 0), (2, replicate 21 0xFF)] 3 demo_ready)) = 4"
  using cc_call_on_openbridge [OF demo_ready_facts(1-4), of 3112001 1 0 "[(1, replicate 21 0), (2, replicate 21 0xFF)]" 3]
  by (simp add: Let_def demo_ready_facts(5) cc_call_frames_def)

section \<open>From OpenBridge to CC-CC\<close>

text \<open>A DMRD body received from peer \<open>q\<close> at time \<open>t\<close>.\<close>

definition recv_at :: "nat \<Rightarrow> rat \<times> bytes \<Rightarrow> sys \<Rightarrow> sys" where
  "recv_at q = (\<lambda>(t, body) s. translator_obp_dmrd_received q body (s\<lparr>s_now := t\<rparr>))"

text \<open>The body is for link \<open>i\<close>, of the given class and stream.\<close>

definition frame_for :: "sys \<Rightarrow> nat \<Rightarrow> nat \<Rightarrow> frame_class \<Rightarrow> bytes \<Rightarrow> bytes \<Rightarrow> bool" where
  "frame_for s q i cls st body \<longleftrightarrow> obp_route s q body = Some i \<and>
     frame_class_of (body ! OBP_FLAGS_OFF) = cls \<and> take 4 (drop OBP_STREAM_OFF body) = st"

lemma obp_route_cfg: "s_cfg t = s_cfg s \<Longrightarrow> obp_route t q body = obp_route s q body"
  by (simp add: obp_route_def Let_def split: option.split)

text \<open>
  The datagram for a burst \<open>body\<close> that came in at time \<open>t\<close> of a call begun at \<open>t0\<close>: sequence
  number and timestamp count the 60 ms slots since the start.
\<close>

definition voice_out :: "sys \<Rightarrow> nat \<Rightarrow> rat \<Rightarrow> bool \<times> rat \<times> bytes \<Rightarrow> effect" where
  "voice_out s i t0 = (\<lambda>(marker, t, body).
     Udp_send (s_voice_fd s)
       (build_voice (lk_sync_source (s_links s i)) (of_int (slot_index t t0)) (480 * of_int (slot_index t t0)) marker
          (cccc_ambe_pack21 (extract_ambe (take 33 (drop OBP_PAYLOAD_OFF body)))))
       (l_cc_remote_ip (link_cfg s i)) (l_cc_remote_voice_port (link_cfg s i)))"

lemma obp_head_ready:
  assumes "frame_for s q i Fr_head st body" "gate_open s i" "lk_state (s_links s i) = LST_UP"
    "abs_call (s_runtime s i) = Idle"
  defines "u \<equiv> (s_user_ctr s i + 1) mod 1000"
  shows "recv_at q (t, body) s =
    s\<lparr>s_now := t,
      s_runtime := (s_runtime s)(i := (s_runtime s i)\<lparr>lr_cx_drop_logged := False,
        lr_call := zero_call\<lparr>cs_origin := CALL_ORIGIN_OBP, cs_rf_src := rd24 body OBP_SRC_OFF,
          cs_peer_id := rd32 body OBP_NETID_OFF, cs_stream_id := st,
          cs_call_start_time := t, cs_last_activity := t\<rparr>, lr_has_call := True\<rparr>),
      s_user_ctr := (s_user_ctr s)(i := u),
      s_out := s_out s @ [Tcp_send (lk_fd (s_links s i)) (build_bon (l_cc_lid (link_cfg s i)) u
        (rd24 body OBP_SRC_OFF) (rd32 body OBP_NETID_OFF) (l_cc_lid (link_cfg s i)) (l_tgid (link_cfg s i))
        CCCC_CALL_TYPE_GROUP)]\<rparr>"
proof -
  have nc: "\<not> call_from CALL_ORIGIN_CC (s_runtime s i)" "\<not> call_from CALL_ORIGIN_OBP (s_runtime s i)"
    using assms(4) by (auto simp: abs_call_def split: if_splits)
  have g: "gate_open (s\<lparr>s_now := t\<rparr>) i" using assms(2) gate_open_cong [of "s\<lparr>s_now := t\<rparr>" s] by simp
  have r: "obp_route (s\<lparr>s_now := t\<rparr>) q body = Some i"
    using assms(1) obp_route_cfg [of "s\<lparr>s_now := t\<rparr>" s] by (simp add: frame_for_def)
  show ?thesis
    using assms(1,3) nc g
    by (simp add: recv_at_def dmrd_by_route r frame_for_def obp_frame_for_link_def Let_def gate_open_id
        handle_obp_voice_head_def)
       (auto simp: cccc_send_bon_def Let_def tcp_send_def emit_def on_runtime_def u_def)
qed

lemma obp_burst_ready:
  assumes "frame_for s q i Fr_burst st body" "gate_open s i" "lk_state (s_links s i) = LST_UP"
    "abs_call (s_runtime s i) = From_obp st"
  defines "c \<equiv> lr_call (s_runtime s i)"
  shows "recv_at q (t, body) s =
    s\<lparr>s_now := t,
      s_runtime := (s_runtime s)(i := (s_runtime s i)\<lparr>lr_call := c\<lparr>cs_last_activity := t,
        cs_cc_sent_first := True, cs_cc_seq := slot_index t (cs_call_start_time c)\<rparr>\<rparr>),
      s_out := s_out s @ [voice_out s i (cs_call_start_time c) (\<not> cs_cc_sent_first c, t, body)]\<rparr>"
proof -
  have o: "call_from CALL_ORIGIN_OBP (s_runtime s i)" "cs_stream_id c = st"
    using assms(4) by (auto simp: abs_call_def c_def split: if_splits)
  have g: "gate_open (s\<lparr>s_now := t\<rparr>) i" using assms(2) gate_open_cong [of "s\<lparr>s_now := t\<rparr>" s] by simp
  have r: "obp_route (s\<lparr>s_now := t\<rparr>) q body = Some i"
    using assms(1) obp_route_cfg [of "s\<lparr>s_now := t\<rparr>" s] by (simp add: frame_for_def)
  show ?thesis
    using assms(1,3) o g
    by (simp add: recv_at_def dmrd_by_route r frame_for_def obp_frame_for_link_def Let_def gate_open_id
        handle_obp_voice_burst_def c_def)
       (simp add: cccc_send_voice_def udp_send_to_link_def emit_def on_call_def on_runtime_def voice_out_def
        CCCC_RTP_TS_STEP_def)
qed

lemma obp_term_ready:
  assumes "frame_for s q i Fr_term st body" "gate_open s i" "lk_state (s_links s i) = LST_UP"
    "abs_call (s_runtime s i) = From_obp st"
  defines "c \<equiv> lr_call (s_runtime s i)"
  shows "s_out (recv_at q (t, body) s) = s_out s @ [Tcp_send (lk_fd (s_links s i))
      (build_boff (l_cc_lid (link_cfg s i)) 0 (if cs_cc_sent_first c then cs_cc_seq c + 1 else 0) 0)]"
    and "abs_call (s_runtime (recv_at q (t, body) s) i) = Idle"
proof -
  have o: "call_from CALL_ORIGIN_OBP (s_runtime s i)" "cs_stream_id c = st"
    using assms(4) by (auto simp: abs_call_def c_def split: if_splits)
  have g: "gate_open (s\<lparr>s_now := t\<rparr>) i" using assms(2) gate_open_cong [of "s\<lparr>s_now := t\<rparr>" s] by simp
  have r: "obp_route (s\<lparr>s_now := t\<rparr>) q body = Some i"
    using assms(1) obp_route_cfg [of "s\<lparr>s_now := t\<rparr>" s] by (simp add: frame_for_def)
  note unf = recv_at_def dmrd_by_route r frame_for_def obp_frame_for_link_def Let_def gate_open_id
    handle_obp_voice_term_def end_obp_origin_call_def drop_call_def cccc_send_boff_def c_def
  show "s_out (recv_at q (t, body) s) = s_out s @ [Tcp_send (lk_fd (s_links s i))
      (build_boff (l_cc_lid (link_cfg s i)) 0 (if cs_cc_sent_first c then cs_cc_seq c + 1 else 0) 0)]"
    using assms(1,3) o g by (simp add: unf) (simp add: tcp_send_def emit_def on_runtime_def)
  show "abs_call (s_runtime (recv_at q (t, body) s) i) = Idle"
    using assms(1,3) o g by (simp add: unf)
qed

text \<open>The bursts of a call, each with the time it came in.\<close>

lemma obp_bursts:
  assumes "\<forall>x \<in> set xs. frame_for s q i Fr_burst st (snd x)" "gate_open s i" "lk_state (s_links s i) = LST_UP"
    "abs_call (s_runtime s i) = From_obp st"
  defines "c \<equiv> lr_call (s_runtime s i)"
  shows "let t = fold (recv_at q) xs s; c' = lr_call (s_runtime t i) in
    s_cfg t = s_cfg s \<and> s_links t = s_links s \<and> s_obp_active t = s_obp_active s \<and> s_voice_fd t = s_voice_fd s \<and>
    abs_call (s_runtime t i) = From_obp st \<and> cs_call_start_time c' = cs_call_start_time c \<and>
    cs_cc_sent_first c' = (cs_cc_sent_first c \<or> xs \<noteq> []) \<and>
    cs_cc_seq c' = (if xs = [] then cs_cc_seq c else slot_index (fst (last xs)) (cs_call_start_time c)) \<and>
    s_out t = s_out s @ map (voice_out s i (cs_call_start_time c))
      (zip (map (\<lambda>k. \<not> cs_cc_sent_first c \<and> k = 0) [0..<length xs]) xs)"
  using assms(1)
proof (induction xs rule: rev_induct)
  case Nil
  then show ?case using assms(4) by (simp add: c_def)
next
  case (snoc x xs)
  let ?t = "fold (recv_at q) xs s" and ?c = "lr_call (s_runtime (fold (recv_at q) xs s) i)"
  let ?b = "snd x" and ?at = "fst x"
  have prem: "\<forall>x \<in> set xs. frame_for s q i Fr_burst st (snd x)" "frame_for s q i Fr_burst st ?b"
    using snoc.prems by auto
  have IH: "s_cfg ?t = s_cfg s" "s_links ?t = s_links s" "s_obp_active ?t = s_obp_active s"
    "s_voice_fd ?t = s_voice_fd s" "abs_call (s_runtime ?t i) = From_obp st"
    "cs_call_start_time ?c = cs_call_start_time c" "cs_cc_sent_first ?c = (cs_cc_sent_first c \<or> xs \<noteq> [])"
    "s_out ?t = s_out s @ map (voice_out s i (cs_call_start_time c))
      (zip (map (\<lambda>k. \<not> cs_cc_sent_first c \<and> k = 0) [0..<length xs]) xs)"
    using snoc.IH [OF prem(1), unfolded Let_def] by blast+
  have "frame_for ?t q i Fr_burst st ?b" "gate_open ?t i" "lk_state (s_links ?t i) = LST_UP"
    using prem(2) assms(2,3) IH(2) obp_route_cfg [OF IH(1)] gate_open_cong [OF IH(1,3)]
    by (simp_all add: frame_for_def)
  note step = obp_burst_ready [OF this IH(5), of ?at]
  have v: "voice_out ?t i = voice_out s i" by (rule ext) (simp add: voice_out_def IH(1,2,4))
  have a: "abs_call ((s_runtime ?t i)\<lparr>lr_call := ?c\<lparr>cs_last_activity := l, cs_cc_sent_first := f, cs_cc_seq := n\<rparr>\<rparr>) =
      From_obp st" for l f n
    using IH(5) by (simp add: abs_call_def split: if_splits)
  have x: "recv_at q x ?t = recv_at q (?at, ?b) ?t" by simp
  show ?case
    using IH by (simp add: x step a v Let_def del: prod.collapse) simp
qed

lemma obp_call_out:
  fixes t0 t1 :: rat
  assumes "frame_for s q i Fr_head st head" "frame_for s q i Fr_term st tail"
    "\<forall>x \<in> set xs. frame_for s q i Fr_burst st (snd x)"
    "gate_open s i" "lk_state (s_links s i) = LST_UP" "abs_call (s_runtime s i) = Idle"
  defines "t \<equiv> recv_at q (t1, tail) (fold (recv_at q) xs (recv_at q (t0, head) s))"
    and "lid \<equiv> l_cc_lid (link_cfg s i)" and "fd \<equiv> lk_fd (s_links s i)"
  shows "s_out t = s_out s @
      [Tcp_send fd (build_bon lid ((s_user_ctr s i + 1) mod 1000) (rd24 head OBP_SRC_OFF)
         (rd32 head OBP_NETID_OFF) lid (l_tgid (link_cfg s i)) CCCC_CALL_TYPE_GROUP)] @
      map (voice_out s i t0) (zip (map (\<lambda>k. k = 0) [0..<length xs]) xs) @
      [Tcp_send fd (build_boff lid 0 (if xs = [] then 0 else slot_index (fst (last xs)) t0 + 1) 0)]"
    and "abs_call (s_runtime t i) = Idle"
proof -
  define b where "b = recv_at q (t0, head) s"
  define u where "u = fold (recv_at q) xs b"
  note start = obp_head_ready [OF assms(1,4-6), of t0, folded b_def]
  have b: "s_cfg b = s_cfg s" "s_links b = s_links s" "s_obp_active b = s_obp_active s"
    "lk_state (s_links b i) = LST_UP" "abs_call (s_runtime b i) = From_obp st"
    "cs_call_start_time (lr_call (s_runtime b i)) = t0" "\<not> cs_cc_sent_first (lr_call (s_runtime b i))"
    "voice_out b i = voice_out s i"
    using assms(5) by (simp_all add: start abs_call_def zero_call_def) (simp add: voice_out_def fun_eq_iff)
  have f: "frame_for b q i cls st x = frame_for s q i cls st x" for cls x
    using obp_route_cfg [OF b(1)] by (simp add: frame_for_def)
  have "gate_open b i" using gate_open_cong [OF b(1,3)] assms(4) by simp
  note v = obp_bursts [of xs b q i st, unfolded f, OF assms(3) this b(4,5), folded u_def, unfolded Let_def b(6-8)]
  have f': "frame_for u q i cls st x = frame_for s q i cls st x" for cls x
    using obp_route_cfg [of u b] f v by (simp add: frame_for_def)
  have "gate_open u i" "lk_state (s_links u i) = LST_UP" "abs_call (s_runtime u i) = From_obp st"
    using \<open>gate_open b i\<close> gate_open_cong [of u b] v b(4) by auto
  note off = obp_term_ready [of u q i st tail, unfolded f', OF assms(2) this, of t1]
  have "link_cfg u i = link_cfg s i" "lk_fd (s_links u i) = lk_fd (s_links s i)" using v b(1,2) by auto
  moreover have "t = recv_at q (t1, tail) u" by (simp add: t_def u_def b_def)
  ultimately show "s_out t = s_out s @
      [Tcp_send fd (build_bon lid ((s_user_ctr s i + 1) mod 1000) (rd24 head OBP_SRC_OFF)
         (rd32 head OBP_NETID_OFF) lid (l_tgid (link_cfg s i)) CCCC_CALL_TYPE_GROUP)] @
      map (voice_out s i t0) (zip (map (\<lambda>k. k = 0) [0..<length xs]) xs) @
      [Tcp_send fd (build_boff lid 0 (if xs = [] then 0 else slot_index (fst (last xs)) t0 + 1) 0)]"
      "abs_call (s_runtime t i) = Idle"
    using v off b(7) by (cases xs; simp add: start lid_def fd_def)+
qed

text \<open>
  C11: a whole call from OpenBridge, received as a voice header, bursts and a terminator of one
  stream on a link that is up, appears to the CC-CC peer as one B-on with the talker and the
  source peer, one voice datagram per burst and one B-off.  The datagrams count the 60 ms slots since
  the header in sequence number and timestamp, only the first is marked, each carries the frames of
  its burst, and the B-off reports the last slot plus one; afterwards the link has no call.
\<close>

theorem obp_call_on_cc:
  assumes "frame_for s q i Fr_head st head" "frame_for s q i Fr_term st tail"
    "\<forall>x \<in> set xs. frame_for s q i Fr_burst st (snd x)"
    "gate_open s i" "lk_state (s_links s i) = LST_UP" "abs_call (s_runtime s i) = Idle"
  shows "let t = recv_at q (t1, tail) (fold (recv_at q) xs (recv_at q (t0, head) s));
             lid = l_cc_lid (link_cfg s i); fd = lk_fd (s_links s i)
    in s_out t = s_out s @
         [Tcp_send fd (build_bon lid ((s_user_ctr s i + 1) mod 1000) (rd24 head OBP_SRC_OFF)
            (rd32 head OBP_NETID_OFF) lid (l_tgid (link_cfg s i)) CCCC_CALL_TYPE_GROUP)] @
         map (voice_out s i t0) (zip (map (\<lambda>k. k = 0) [0..<length xs]) xs) @
         [Tcp_send fd (build_boff lid 0 (if xs = [] then 0 else slot_index (fst (last xs)) t0 + 1) 0)] \<and>
       abs_call (s_runtime t i) = Idle"
  using obp_call_out [OF assms, of t1 t0] by (simp only: Let_def)

lemma demo_frames:
  "frame_for demo_ready 0 0 Fr_head [1, 2, 3, 4] (demo_body 0x21)"
  "frame_for demo_ready 0 0 Fr_burst [1, 2, 3, 4] (demo_body 0x11)"
  "frame_for demo_ready 0 0 Fr_term [1, 2, 3, 4] (demo_body 0x22)"
proof -
  have c: "s_cfg demo_ready = demo_config"
    by (simp add: demo_ready_def demo_up_def on_link_def demo_sys_def blank_sys_def)
  show "frame_for demo_ready 0 0 Fr_head [1, 2, 3, 4] (demo_body 0x21)"
    "frame_for demo_ready 0 0 Fr_burst [1, 2, 3, 4] (demo_body 0x11)"
    "frame_for demo_ready 0 0 Fr_term [1, 2, 3, 4] (demo_body 0x22)"
    by (simp_all add: frame_for_def frame_class_of_def obp_route_def c demo_body_def obp_consts obp_flags
        find_obp_link_def n_link_def demo_config_def demo_link_def rd24_def wr24_def wr32_def upt_rec nth_append)
qed

lemma obp_call_on_cc_witness:
  "length (s_out (recv_at 0 (2, demo_body 0x22) (fold (recv_at 0) [(1, demo_body 0x11)]
     (recv_at 0 (0, demo_body 0x21) demo_ready)))) = 3"
proof -
  have "\<forall>x \<in> set [(1 :: rat, demo_body 0x11)]. frame_for demo_ready 0 0 Fr_burst [1, 2, 3, 4] (snd x)"
    by (simp add: demo_frames)
  moreover have "lk_state (s_links demo_ready 0) = LST_UP"
    by (simp add: demo_ready_def demo_up_def on_link_def)
  ultimately show ?thesis
    using obp_call_on_cc [OF demo_frames(1,3), of "[(1, demo_body 0x11)]" 2 0] demo_ready_facts(3,4,5)
    by (simp add: Let_def)
qed

end
