(* ===== verification/Cccc_Link.thy ===== *)
theory Cccc_Link
  imports Translate "HOL-Library.Monad_Syntax"
begin

text \<open>
  \<open>cccc/cccc_link.c\<close>, the connections: outbound connects with their retry, the handshakes of
  both roles, the lines of an established link, keepalives and the liveness watchdog, the shared
  voice and trial sockets, and the start, reload and stop of all links.

  Handlers take what the system call at their head returned as an \<open>input\<close>.  Drawing a fresh SSRC
  is a loop that ends only when a free number comes up, so what contains it is an option.
\<close>

unbundle bit_operations_syntax

section \<open>Constants\<close>

definition RECONNECT_DELAY_S :: rat where "RECONNECT_DELAY_S = 5"
definition PENDING_TIMEOUT_S :: rat where "PENDING_TIMEOUT_S = 5"
definition RXBUF_CAP :: nat where "RXBUF_CAP = 2048"

section \<open>SSRC numbers\<close>

definition find_link_by_ssrc :: "sys \<Rightarrow> u32 \<Rightarrow> nat option" where
  "find_link_by_ssrc s ssrc =
     find (\<lambda>i. lk_has_sync_source (s_links s i) \<and> lk_sync_source (s_links s i) = ssrc) [0..<n_link (s_cfg s)]"

partial_function (option) mint_sync_source :: "sys \<Rightarrow> (u32 \<times> sys) option" where
  "mint_sync_source s =
     (let (v, s) = next_rand s
      in if find_link_by_ssrc s v = None then Some (v, s) else mint_sync_source s)"

section \<open>Lines out of a byte stream\<close>

text \<open>
  \<open>get\<close> and \<open>put\<close> read and write the line buffer in the state that the callback \<open>cb\<close> works on.
  A byte that finds the buffer full is dropped, but a newline ends the line all the same and then
  takes the last stored byte with it.
\<close>

definition line_end :: "string \<Rightarrow> string" where
  "line_end buf =
     (let L = length buf - 1;
          L = (if L > 0 \<and> buf ! (L - 1) = CHR 0x0D then L - 1 else L)
      in cstr (take L buf))"

fun feed_bytes ::
  "('s \<Rightarrow> string) \<Rightarrow> (string \<Rightarrow> 's \<Rightarrow> 's) \<Rightarrow> nat \<Rightarrow> (string \<Rightarrow> 's \<Rightarrow> 's) \<Rightarrow> bytes \<Rightarrow> 's \<Rightarrow> 's" where
  "feed_bytes get put cap cb [] s = s"
| "feed_bytes get put cap cb (b # bs) s =
     (let s = (if length (get s) < cap - 1 then put (get s @ [byte_char b]) s else s);
          s = (if b = 0x0A then put [] (cb (line_end (get s)) s) else s)
      in feed_bytes get put cap cb bs s)"

definition feed_link :: "nat \<Rightarrow> (string \<Rightarrow> sys \<Rightarrow> sys) \<Rightarrow> bytes \<Rightarrow> sys \<Rightarrow> sys" where
  "feed_link i = feed_bytes (\<lambda>s. lk_rxbuf (s_links s i)) (\<lambda>buf. on_link i (\<lambda>l. l\<lparr>lk_rxbuf := buf\<rparr>)) RXBUF_CAP"

definition feed_pending :: "nat \<Rightarrow> (string \<Rightarrow> sys \<Rightarrow> sys) \<Rightarrow> bytes \<Rightarrow> sys \<Rightarrow> sys" where
  "feed_pending k = feed_bytes (\<lambda>s. p_rxbuf (s_pending s k)) (\<lambda>buf. on_pending k (\<lambda>p. p\<lparr>p_rxbuf := buf\<rparr>)) RXBUF_CAP"

section \<open>Teardown and reconnect\<close>

definition schedule_reconnect :: "nat \<Rightarrow> sys \<Rightarrow> sys" where
  "schedule_reconnect i s =
     (let (h, s) = timer_after RECONNECT_DELAY_S (Reconnect_cb i) s
      in on_link i (\<lambda>l. l\<lparr>lk_reconnect_timer := Some h\<rparr>) s)"

definition cancel_keepalive :: "nat \<Rightarrow> sys \<Rightarrow> sys" where
  "cancel_keepalive i s =
     on_link i (\<lambda>l. l\<lparr>lk_keepalive_timer := None\<rparr>) (on_loop (ev_timer_cancel (lk_keepalive_timer (s_links s i))) s)"

definition cancel_reconnect :: "nat \<Rightarrow> sys \<Rightarrow> sys" where
  "cancel_reconnect i s =
     on_link i (\<lambda>l. l\<lparr>lk_reconnect_timer := None\<rparr>) (on_loop (ev_timer_cancel (lk_reconnect_timer (s_links s i))) s)"

definition close_link_fd :: "nat \<Rightarrow> sys \<Rightarrow> sys" where
  "close_link_fd i s =
     (let fd = lk_fd (s_links s i) in
      if fd \<ge> 0
      then on_link i (\<lambda>l. l\<lparr>lk_fd := - 1\<rparr>) (emit (Close fd) (on_loop (ev_del_fd_write fd) (on_loop (ev_del_fd fd) s)))
      else s)"

definition teardown_link_connection :: "nat \<Rightarrow> sys \<Rightarrow> sys" where
  "teardown_link_connection i s =
     (let was_up = (lk_state (s_links s i) = LST_UP);
          s = cancel_keepalive i s;
          s = close_link_fd i s;
          s = on_link i (\<lambda>l. l\<lparr>lk_state := LST_DOWN, lk_has_sync_source := False, lk_rxbuf := [], lk_hslines := []\<rparr>) s;
          s = (if was_up then translator_cccc_link_down i s else s)
      in if l_cc_role (link_cfg s i) = CC_ROLE_OUTBOUND \<and> lk_active (s_links s i)
         then schedule_reconnect i s else s)"

definition start_outbound_connect :: "nat \<Rightarrow> sys \<Rightarrow> sys" where
  "start_outbound_connect i s =
     (let s = on_link i (\<lambda>l. l\<lparr>lk_rxbuf := [], lk_hslines := [], lk_has_sync_source := False\<rparr>) s;
          (fd, s) = next_sock s;
          s = on_link i (\<lambda>l. l\<lparr>lk_fd := fd\<rparr>) s
      in if fd < 0 then (if lk_active (s_links s i) then schedule_reconnect i s else s)
         else on_loop (ev_add_fd_write fd (On_connect_writable i)) (on_link i (\<lambda>l. l\<lparr>lk_state := LST_CONNECTING\<rparr>) s))"

definition reconnect_cb :: "nat \<Rightarrow> sys \<Rightarrow> sys" where
  "reconnect_cb i s =
     (let s = on_link i (\<lambda>l. l\<lparr>lk_reconnect_timer := None\<rparr>) s
      in if lk_active (s_links s i) then start_outbound_connect i s else s)"

section \<open>Keepalives\<close>

definition rearm_keepalive :: "nat \<Rightarrow> sys \<Rightarrow> sys" where
  "rearm_keepalive i s =
     (let (h, s) = timer_after (c_keepalive_interval (s_cfg s)) (Keepalive_cb i) s
      in on_link i (\<lambda>l. l\<lparr>lk_keepalive_timer := Some h\<rparr>) s)"

definition arm_keepalive :: "nat \<Rightarrow> sys \<Rightarrow> sys" where
  "arm_keepalive i s = rearm_keepalive i (on_link i (\<lambda>l. l\<lparr>lk_last_keepalive_recv := s_now s\<rparr>) s)"

definition keepalive_cb :: "nat \<Rightarrow> sys \<Rightarrow> sys" where
  "keepalive_cb i s =
     (let s = on_link i (\<lambda>l. l\<lparr>lk_keepalive_timer := None\<rparr>) s in
      if lk_state (s_links s i) \<noteq> LST_UP then s
      else let s = udp_send_to_link i (build_keepalive (lk_sync_source (s_links s i))) s;
               age = s_now s - lk_last_keepalive_recv (s_links s i)
           in if age > c_link_timeout (s_cfg s) then teardown_link_connection i s
              else rearm_keepalive i s)"

section \<open>Lines of a link\<close>

definition finish_outbound_handshake :: "nat \<Rightarrow> sys \<Rightarrow> sys" where
  "finish_outbound_handshake i s =
     (let codec = lk_hslines (s_links s i) ! 0;
          ms = atoi (lk_hslines (s_links s i) ! 1);
          s = on_link i (\<lambda>l. l\<lparr>lk_hslines := []\<rparr>) s
      in if codec \<noteq> CCCC_CODEC_AMBE \<or> ms \<noteq> CCCC_MS_PER_FRAME then teardown_link_connection i s
         else translator_cccc_link_up i (arm_keepalive i (on_link i (\<lambda>l. l\<lparr>lk_state := LST_UP\<rparr>) s)))"

definition dispatch_established_line :: "nat \<Rightarrow> string \<Rightarrow> sys \<Rightarrow> sys" where
  "dispatch_established_line i line s =
     (if strstr line ''Bee='' \<noteq> None
      then (case parse_bon line of
              None \<Rightarrow> s
            | Some (radio, peer, src_lid, tgid, calltype) \<Rightarrow> translator_cccc_bon i radio peer s)
      else if strstr line ''LOSS='' \<noteq> None
      then (case parse_boff line of
              None \<Rightarrow> s
            | Some (lost, tot) \<Rightarrow> translator_cccc_boff i s)
      else s)"

definition link_on_line :: "nat \<Rightarrow> string \<Rightarrow> sys \<Rightarrow> sys" where
  "link_on_line i line s =
     (if lk_state (s_links s i) = LST_HANDSHAKING
      then let s = (if length (lk_hslines (s_links s i)) < CCCC_ANSWER_NFIELDS
                    then on_link i (\<lambda>l. l\<lparr>lk_hslines := lk_hslines l @ [take 255 line]\<rparr>) s else s)
           in if length (lk_hslines (s_links s i)) = CCCC_ANSWER_NFIELDS then finish_outbound_handshake i s else s
      else if lk_state (s_links s i) = LST_UP then dispatch_established_line i line s
      else s)"

text \<open>One \<open>recv\<close> of at most 1024 bytes.\<close>

definition on_link_tcp_readable :: "nat \<Rightarrow> input \<Rightarrow> sys \<Rightarrow> sys" where
  "on_link_tcp_readable i inp s =
     (case inp of
        In_bytes data \<Rightarrow> feed_link i (link_on_line i) (take 1024 data) s
      | In_eof \<Rightarrow> teardown_link_connection i s
      | In_error \<Rightarrow> teardown_link_connection i s
      | _ \<Rightarrow> s)"

section \<open>Outbound connections\<close>

text \<open>The pending error of the socket is the input; 0 is success.\<close>

definition on_connect_writable :: "nat \<Rightarrow> int \<Rightarrow> input \<Rightarrow> sys \<Rightarrow> sys option" where
  "on_connect_writable i fd inp s =
     (let s = on_loop (ev_del_fd_write fd) s in
      if inp \<noteq> In_sockerr 0
      then let s = on_link i (\<lambda>l. l\<lparr>lk_fd := - 1, lk_state := LST_DOWN\<rparr>) (emit (Close fd) s)
           in Some (if lk_active (s_links s i) then schedule_reconnect i s else s)
      else let s = on_link i (\<lambda>l. l\<lparr>lk_state := LST_HANDSHAKING\<rparr>) s
           in do {
             (v, s) \<leftarrow> mint_sync_source s;
             let s = on_link i (\<lambda>l. l\<lparr>lk_sync_source := v, lk_has_sync_source := True\<rparr>) s;
             let s = on_loop (ev_add_fd fd (On_link_tcp_readable i)) s;
             let q = build_question v (l_cc_lid (link_cfg s i)) (l_cc_channel_name (link_cfg s i))
                       (c_site_name (s_cfg s)) (c_mac_address (s_cfg s)) (c_code_revision (s_cfg s))
                       (c_os_version (s_cfg s));
             Some (tcp_send i q s) })"

section \<open>Inbound connections\<close>

definition free_pending :: "nat \<Rightarrow> bool \<Rightarrow> sys \<Rightarrow> sys" where
  "free_pending k also_close s =
     (let s = on_pending k (\<lambda>p. p\<lparr>p_timeout_timer := None\<rparr>)
                (on_loop (ev_timer_cancel (p_timeout_timer (s_pending s k))) s);
          fd = p_fd (s_pending s k);
          s = (if also_close \<and> fd \<ge> 0 then emit (Close fd) (on_loop (ev_del_fd fd) s) else s)
      in on_pending k (\<lambda>p. p\<lparr>p_in_use := False, p_fd := - 1\<rparr>) s)"

definition pending_timeout_cb :: "nat \<Rightarrow> sys \<Rightarrow> sys" where
  "pending_timeout_cb k s = free_pending k True (on_pending k (\<lambda>p. p\<lparr>p_timeout_timer := None\<rparr>) s)"

text \<open>The first enabled inbound link with this address and LID.\<close>

definition match_inbound :: "config \<Rightarrow> string \<Rightarrow> int \<Rightarrow> nat option" where
  "match_inbound c src_ip lid =
     find (\<lambda>i. l_cc_role (c_link c ! i) = CC_ROLE_INBOUND \<and> l_enabled (c_link c ! i) \<and>
               l_cc_remote_ip (c_link c ! i) = src_ip \<and> l_cc_lid (c_link c ! i) = lid) [0..<n_link c]"

definition accept_question :: "nat \<Rightarrow> nat \<Rightarrow> u32 \<Rightarrow> sys \<Rightarrow> sys" where
  "accept_question k i sync_source s =
     (let s = (if lk_state (s_links s i) \<noteq> LST_DOWN then teardown_link_connection i s else s);
          fd = p_fd (s_pending s k);
          s = on_link i (\<lambda>l. l\<lparr>lk_fd := fd, lk_rxbuf := [], lk_hslines := [], lk_sync_source := sync_source,
                              lk_has_sync_source := True, lk_state := LST_UP\<rparr>) s;
          s = on_loop (ev_add_fd fd (On_link_tcp_readable i)) s;
          s = tcp_send i (build_answer (s_wall s) (c_site_name (s_cfg s)) (c_os_version (s_cfg s)) (c_version (s_cfg s))) s;
          s = arm_keepalive i s;
          s = on_pending k (\<lambda>p. p\<lparr>p_fd := - 1\<rparr>) s;
          s = free_pending k False s
      in translator_cccc_link_up i s)"

definition handle_question_complete :: "nat \<Rightarrow> sys \<Rightarrow> sys" where
  "handle_question_complete k s =
     (let s = on_pending k (\<lambda>p. p\<lparr>p_timeout_timer := None\<rparr>)
                (on_loop (ev_timer_cancel (p_timeout_timer (s_pending s k))) s);
          p = s_pending s k;
          sync_source = ucast (strtoul 16 (p_qlines p ! 0));
          lid = atoi (p_qlines p ! 1)
      in case match_inbound (s_cfg s) (p_src_ip p) lid of
           None \<Rightarrow> free_pending k True s
         | Some i \<Rightarrow>
             (case find_link_by_ssrc s sync_source of
                Some j \<Rightarrow> if j \<noteq> i then free_pending k True s else accept_question k i sync_source s
              | None \<Rightarrow> accept_question k i sync_source s))"

definition pending_on_line :: "nat \<Rightarrow> string \<Rightarrow> sys \<Rightarrow> sys" where
  "pending_on_line k line s =
     (let s = (if length (p_qlines (s_pending s k)) < CCCC_QUESTION_NFIELDS
               then on_pending k (\<lambda>p. p\<lparr>p_qlines := p_qlines p @ [take 255 line]\<rparr>) s else s)
      in if length (p_qlines (s_pending s k)) = CCCC_QUESTION_NFIELDS then handle_question_complete k s else s)"

definition on_pending_readable :: "nat \<Rightarrow> input \<Rightarrow> sys \<Rightarrow> sys" where
  "on_pending_readable k inp s =
     (case inp of
        In_bytes data \<Rightarrow> feed_pending k (pending_on_line k) (take 1024 data) s
      | In_eof \<Rightarrow> free_pending k True s
      | In_error \<Rightarrow> free_pending k True s
      | _ \<Rightarrow> s)"

text \<open>One accepted connection; the input lists what \<open>accept\<close> returns, and the first failure ends the loop.\<close>

definition accept_connection :: "sys \<Rightarrow> int \<times> string \<Rightarrow> sys" where
  "accept_connection s = (\<lambda>(cfd, ip).
     case find (\<lambda>k. \<not> p_in_use (s_pending s k)) [0..<MAX_PENDING] of
       None \<Rightarrow> emit (Close cfd) s
     | Some k \<Rightarrow>
         (let s = on_pending k (\<lambda>_. zero_pending\<lparr>p_in_use := True, p_fd := cfd, p_src_ip := ip\<rparr>) s;
              s = on_loop (ev_add_fd cfd (On_pending_readable k)) s;
              (h, s) = timer_after PENDING_TIMEOUT_S (Pending_timeout_cb k) s
          in on_pending k (\<lambda>p. p\<lparr>p_timeout_timer := Some h\<rparr>) s))"

definition on_listen_readable :: "input \<Rightarrow> sys \<Rightarrow> sys" where
  "on_listen_readable inp s =
     (case inp of In_accept cs \<Rightarrow> foldl accept_connection s (takeWhile (\<lambda>(cfd, ip). 0 \<le> cfd) cs) | _ \<Rightarrow> s)"

section \<open>The shared UDP sockets\<close>

definition on_voice_readable :: "int \<Rightarrow> input \<Rightarrow> sys \<Rightarrow> sys" where
  "on_voice_readable fd inp s =
     (case inp of
        In_datagram data src_ip src_port \<Rightarrow>
          (let buf = take 256 data; n = length buf in
           if n < 2 then s
           else let pt = buf ! 1 AND 0x7F in
             if n = CCCC_KEEPALIVE_LEN \<and> pt = CCCC_RTP_PT_KEEPALIVE
             then (case find_link_by_ssrc s (rd32 buf 8) of
                     None \<Rightarrow> s
                   | Some i \<Rightarrow>
                       if src_ip \<noteq> l_cc_remote_ip (link_cfg s i) then s
                       else emit (Udp_send fd buf src_ip src_port)
                              (on_link i (\<lambda>l. l\<lparr>lk_last_keepalive_recv := s_now s\<rparr>) s))
             else if n = CCCC_RTP_PKT_LEN \<and> pt = CCCC_RTP_PT_VOICE
             then (case find_link_by_ssrc s (rd32 buf 8) of
                     None \<Rightarrow> s
                   | Some i \<Rightarrow>
                       if src_ip \<noteq> l_cc_remote_ip (link_cfg s i) then s
                       else translator_cccc_voice i (drop CCCC_RTP_HDR_LEN buf) s)
             else s)
      | _ \<Rightarrow> s)"

definition on_trial_readable :: "int \<Rightarrow> input \<Rightarrow> sys \<Rightarrow> sys" where
  "on_trial_readable fd inp s =
     (case inp of
        In_datagram data src_ip src_port \<Rightarrow>
          (let buf = take 2048 data in if buf = [] then s else emit (Udp_send fd buf src_ip src_port) s)
      | _ \<Rightarrow> s)"

section \<open>Start, reload and stop\<close>

definition start_link :: "sys \<Rightarrow> nat \<Rightarrow> sys" where
  "start_link s i =
     (let l = link_cfg s i;
          s = on_link i (\<lambda>lk. lk\<lparr>lk_active := l_enabled l\<rparr>) s
      in if l_cc_role l = CC_ROLE_OUTBOUND \<and> l_enabled l then start_outbound_connect i s else s)"

text \<open>The result of \<open>cccc_mux_start\<close> comes first: whether all three sockets could be set up.\<close>

definition cccc_mux_start :: "sys \<Rightarrow> bool \<times> sys" where
  "cccc_mux_start s =
     (let (fd, s) = next_sock s; s = s\<lparr>s_voice_fd := fd\<rparr> in
      if fd < 0 then (False, s)
      else let s = on_loop (ev_add_fd fd On_voice_readable) s;
               (fd, s) = next_sock s; s = s\<lparr>s_trial_fd := fd\<rparr> in
           if fd < 0 then (False, s)
           else let s = on_loop (ev_add_fd fd On_trial_readable) s;
                    (fd, s) = next_sock s; s = s\<lparr>s_listen_fd := fd\<rparr> in
                if fd < 0 then (False, s)
                else let s = on_loop (ev_add_fd fd On_listen_readable) s
                     in (True, foldl start_link s [0..<n_link (s_cfg s)]))"

definition reconcile_link :: "sys \<Rightarrow> nat \<Rightarrow> sys" where
  "reconcile_link s i =
     (let l = link_cfg s i; lk = s_links s i in
      if l_cc_role l = CC_ROLE_OUTBOUND
      then if l_enabled l \<and> \<not> lk_active lk
           then start_outbound_connect i (on_link i (\<lambda>k. k\<lparr>lk_active := True\<rparr>) s)
           else if \<not> l_enabled l \<and> lk_active lk
           then let s = cancel_reconnect i (on_link i (\<lambda>k. k\<lparr>lk_active := False\<rparr>) s)
                in if lk_state (s_links s i) \<noteq> LST_DOWN then teardown_link_connection i s else s
           else s
      else let s = on_link i (\<lambda>k. k\<lparr>lk_active := l_enabled l\<rparr>) s
           in if \<not> l_enabled l \<and> lk_state (s_links s i) \<noteq> LST_DOWN then teardown_link_connection i s else s)"

definition cccc_mux_reconcile :: "sys \<Rightarrow> sys" where
  "cccc_mux_reconcile s = foldl reconcile_link s [0..<n_link (s_cfg s)]"

definition stop_link :: "sys \<Rightarrow> nat \<Rightarrow> sys" where
  "stop_link s i =
     (let s = cancel_reconnect i (on_link i (\<lambda>k. k\<lparr>lk_active := False\<rparr>) s)
      in if lk_state (s_links s i) \<noteq> LST_DOWN then teardown_link_connection i s else s)"

definition stop_pending :: "sys \<Rightarrow> nat \<Rightarrow> sys" where
  "stop_pending s k = (if p_in_use (s_pending s k) then free_pending k True s else s)"

definition close_shared :: "int \<Rightarrow> sys \<Rightarrow> sys" where
  "close_shared fd s = (if fd \<ge> 0 then emit (Close fd) (on_loop (ev_del_fd fd) s) else s)"

definition cccc_mux_stop :: "sys \<Rightarrow> sys" where
  "cccc_mux_stop s =
     (let s = foldl stop_link s [0..<n_link (s_cfg s)];
          s = foldl stop_pending s [0..<MAX_PENDING];
          s = (close_shared (s_voice_fd s) s)\<lparr>s_voice_fd := (if s_voice_fd s \<ge> 0 then - 1 else s_voice_fd s)\<rparr>;
          s = (close_shared (s_trial_fd s) s)\<lparr>s_trial_fd := (if s_trial_fd s \<ge> 0 then - 1 else s_trial_fd s)\<rparr>
      in (close_shared (s_listen_fd s) s)\<lparr>s_listen_fd := (if s_listen_fd s \<ge> 0 then - 1 else s_listen_fd s)\<rparr>)"

end
