(* ===== verification/Link_Inv.thy ===== *)
theory Link_Inv
  imports Cccc_Link Calls
begin

text \<open>
  The invariant that ties the CC-CC links to the event loop and to the calls: which timers are
  armed, which descriptors are registered, what each state of a link implies, and that no two
  links share an SSRC.  It is stated in parts, shown for the primitives, then for the handlers.
\<close>

section \<open>Timers\<close>

definition armed :: "sys \<Rightarrow> timer_cb \<Rightarrow> nat set" where
  "armed s cb = t_id ` set (filter (\<lambda>t. t_active t \<and> t_cb t = cb) (ev_timers (s_loop s)))"

text \<open>The handle that the owner of a callback keeps; the periodic tick keeps none.\<close>

fun held :: "sys \<Rightarrow> timer_cb \<Rightarrow> nat option" where
  "held s (Reconnect_cb i) = lk_reconnect_timer (s_links s i)"
| "held s (Keepalive_cb i) = lk_keepalive_timer (s_links s i)"
| "held s (Pending_timeout_cb k) = p_timeout_timer (s_pending s k)"
| "held s Tick_cb = None"

definition timers_match :: "sys \<Rightarrow> bool" where
  "timers_match s \<longleftrightarrow> (\<forall>cb. cb \<noteq> Tick_cb \<longrightarrow> armed s cb = set_option (held s cb))"

lemma armed_cong: "ev_timers (s_loop t) = ev_timers (s_loop s) \<Longrightarrow> armed t = armed s"
  by (rule ext) (simp add: armed_def)

lemma held_cong: "s_links t = s_links s \<Longrightarrow> s_pending t = s_pending s \<Longrightarrow> held t cb = held s cb"
  by (cases cb) simp_all

lemma filter_deactivate:
  "filter (\<lambda>t. t_active t \<and> P t) (deactivate i ts) = filter (\<lambda>t. t_id t \<noteq> i \<and> t_active t \<and> P t) ts"
  by (induction ts) (simp_all add: deactivate_def)

lemma armed_cancel: "armed (on_loop (ev_timer_cancel h) s) cb = armed s cb - set_option h"
proof (cases h)
  case (Some i)
  then have "armed (on_loop (ev_timer_cancel h) s) cb =
      t_id ` set (filter (\<lambda>t. t_id t \<noteq> i \<and> t_active t \<and> t_cb t = cb) (ev_timers (s_loop s)))"
    by (simp add: armed_def on_loop_def ev_timer_cancel_def filter_deactivate)
  then show ?thesis by (auto simp: armed_def Some)
qed (simp add: armed_def on_loop_def ev_timer_cancel_def)

lemma armed_after:
  "armed (snd (timer_after d c s)) cb =
     (if cb = c then insert (ev_next_id (s_loop s)) (armed s cb) else armed s cb)"
  "fst (timer_after d c s) = ev_next_id (s_loop s)"
  by (auto simp: armed_def timer_after_def ev_timer_after_def ev_timer_at_def Let_def)

lemma armed_unique:
  "ev_ok (s_loop s) \<Longrightarrow> h \<in> armed s cb \<Longrightarrow> h \<in> armed s cb' \<Longrightarrow> cb = cb'"
proof -
  assume e: "ev_ok (s_loop s)" and h: "h \<in> armed s cb" "h \<in> armed s cb'"
  then obtain t u where "t \<in> set (ev_timers (s_loop s))" "u \<in> set (ev_timers (s_loop s))"
      "t_id t = t_id u" "t_cb t = cb" "t_cb u = cb'"
    by (auto simp: armed_def)
  moreover from e have "inj_on t_id (set (ev_timers (s_loop s)))" by (simp add: ev_ok_def distinct_map)
  ultimately show "cb = cb'" by (auto dest: inj_onD)
qed

section \<open>Descriptors\<close>

text \<open>What a registration says about the state of its owner.\<close>

fun rd_ok :: "sys \<Rightarrow> int \<Rightarrow> fd_cb \<Rightarrow> bool" where
  "rd_ok s fd (On_link_tcp_readable i) \<longleftrightarrow>
     lk_fd (s_links s i) = fd \<and> lk_state (s_links s i) \<in> {LST_HANDSHAKING, LST_UP}"
| "rd_ok s fd (On_pending_readable k) \<longleftrightarrow> p_fd (s_pending s k) = fd \<and> p_in_use (s_pending s k)"
| "rd_ok s fd (On_connect_writable i) \<longleftrightarrow> False"
| "rd_ok s fd _ \<longleftrightarrow> True"

fun wr_ok :: "sys \<Rightarrow> int \<Rightarrow> fd_cb \<Rightarrow> bool" where
  "wr_ok s fd (On_connect_writable i) \<longleftrightarrow>
     lk_fd (s_links s i) = fd \<and> lk_state (s_links s i) = LST_CONNECTING"
| "wr_ok s fd _ \<longleftrightarrow> False"

abbreviation readers :: "sys \<Rightarrow> int \<Rightarrow> fd_cb option" where
  "readers s \<equiv> map_of (ev_fds (s_loop s))"

abbreviation writers :: "sys \<Rightarrow> int \<Rightarrow> fd_cb option" where
  "writers s \<equiv> map_of (ev_wfds (s_loop s))"

definition entries_ok :: "sys \<Rightarrow> bool" where
  "entries_ok s \<longleftrightarrow> (\<forall>fd cb. 0 \<le> fd \<longrightarrow>
     (readers s fd = Some cb \<longrightarrow> rd_ok s fd cb) \<and> (writers s fd = Some cb \<longrightarrow> wr_ok s fd cb))"

definition unregistered :: "sys \<Rightarrow> nat \<Rightarrow> bool" where
  "unregistered s i \<longleftrightarrow> (\<forall>fd. 0 \<le> fd \<longrightarrow>
     readers s fd \<noteq> Some (On_link_tcp_readable i) \<and> writers s fd \<noteq> Some (On_connect_writable i))"

definition base_ok :: "sys \<Rightarrow> bool" where
  "base_ok s \<longleftrightarrow> ev_ok (s_loop s) \<and> timers_match s \<and> entries_ok s"

section \<open>Primitives\<close>

lemma base_cong:
  assumes "s_loop t = s_loop s" "s_links t = s_links s" "s_pending t = s_pending s"
  shows "base_ok t = base_ok s"
proof -
  have "rd_ok t fd cb = rd_ok s fd cb" "wr_ok t fd cb = wr_ok s fd cb" for fd cb
    using assms by (cases cb; simp)+
  then show ?thesis
    using assms armed_cong [of t s] held_cong [of t s]
    by (simp add: base_ok_def timers_match_def entries_ok_def)
qed

lemma unregistered_cong: "s_loop t = s_loop s \<Longrightarrow> unregistered t i = unregistered s i"
  by (simp add: unregistered_def)

text \<open>A change of a link that keeps its timers, descriptor and state.\<close>

lemma base_on_link:
  assumes "base_ok s"
    and "lk_reconnect_timer (f (s_links s i)) = lk_reconnect_timer (s_links s i)"
    and "lk_keepalive_timer (f (s_links s i)) = lk_keepalive_timer (s_links s i)"
    and "unregistered s i \<or> lk_fd (f (s_links s i)) = lk_fd (s_links s i) \<and>
      (lk_state (f (s_links s i)) = lk_state (s_links s i) \<or>
       {lk_state (f (s_links s i)), lk_state (s_links s i)} \<subseteq> {LST_HANDSHAKING, LST_UP})"
  shows "base_ok (on_link i f s)"
proof -
  let ?t = "on_link i f s"
  have l: "s_loop ?t = s_loop s" "s_links ?t = (s_links s)(i := f (s_links s i))" "s_pending ?t = s_pending s"
    by (simp_all add: on_link_def)
  have h: "held ?t cb = held s cb" for cb using assms(2,3) by (cases cb) (simp_all add: l)
  have "rd_ok ?t fd cb" if "readers s fd = Some cb" "rd_ok s fd cb" "0 \<le> fd" for fd cb
    using that assms(4) by (cases cb) (auto simp: l unregistered_def)
  moreover have "wr_ok ?t fd cb" if "writers s fd = Some cb" "wr_ok s fd cb" "0 \<le> fd" for fd cb
    using that assms(4) by (cases cb) (auto simp: l unregistered_def)
  ultimately show ?thesis
    using assms(1) armed_cong [of ?t s] h
    by (simp add: base_ok_def timers_match_def entries_ok_def l)
qed

lemma base_add_fd:
  assumes "base_ok s" "0 \<le> fd \<longrightarrow> rd_ok s fd cb"
  shows "base_ok (on_loop (ev_add_fd fd cb) s)"
proof -
  let ?t = "on_loop (ev_add_fd fd cb) s"
  have l: "s_links ?t = s_links s" "s_pending ?t = s_pending s"
    "ev_fds (s_loop ?t) = tab_register (ev_fds (s_loop s)) fd cb" "ev_wfds (s_loop ?t) = ev_wfds (s_loop s)"
    "ev_timers (s_loop ?t) = ev_timers (s_loop s)" "s_loop ?t = ev_add_fd fd cb (s_loop s)"
    by (simp_all add: on_loop_def ev_add_fd_def)
  have ok: "rd_ok ?t fd' c = rd_ok s fd' c" "wr_ok ?t fd' c = wr_ok s fd' c" for fd' c by (cases c; simp add: l)+
  have "rd_ok s fd' c" if "readers ?t fd' = Some c" "0 \<le> fd'" for fd' c
    using fd_tab.look_add_cases [OF _ that(1) [unfolded l(3)]] that(2) assms
    by (auto simp: base_ok_def entries_ok_def ev_ok_def)
  moreover have "ev_ok (s_loop ?t)" using assms(1) by (simp add: l(6) base_ok_def ev_ok_ops)
  ultimately show ?thesis
    using assms(1) armed_cong [OF l(5)] held_cong [OF l(1,2)]
    by (simp add: base_ok_def timers_match_def entries_ok_def ok l(4))
qed

lemma base_add_fd_write:
  assumes "base_ok s" "0 \<le> fd \<longrightarrow> wr_ok s fd cb"
  shows "base_ok (on_loop (ev_add_fd_write fd cb) s)"
proof -
  let ?t = "on_loop (ev_add_fd_write fd cb) s"
  have l: "s_links ?t = s_links s" "s_pending ?t = s_pending s"
    "ev_wfds (s_loop ?t) = tab_register (ev_wfds (s_loop s)) fd cb" "ev_fds (s_loop ?t) = ev_fds (s_loop s)"
    "ev_timers (s_loop ?t) = ev_timers (s_loop s)" "s_loop ?t = ev_add_fd_write fd cb (s_loop s)"
    by (simp_all add: on_loop_def ev_add_fd_write_def)
  have ok: "rd_ok ?t fd' c = rd_ok s fd' c" "wr_ok ?t fd' c = wr_ok s fd' c" for fd' c by (cases c; simp add: l)+
  have "wr_ok s fd' c" if "writers ?t fd' = Some c" "0 \<le> fd'" for fd' c
    using fd_tab.look_add_cases [OF _ that(1) [unfolded l(3)]] that(2) assms
    by (auto simp: base_ok_def entries_ok_def ev_ok_def)
  moreover have "ev_ok (s_loop ?t)" using assms(1) by (simp add: l(6) base_ok_def ev_ok_ops)
  ultimately show ?thesis
    using assms(1) armed_cong [OF l(5)] held_cong [OF l(1,2)]
    by (simp add: base_ok_def timers_match_def entries_ok_def ok l(4))
qed

text \<open>Removing a descriptor from either table.\<close>

lemma base_fewer:
  assumes "base_ok s" "s_links t = s_links s" "s_pending t = s_pending s"
    and "ev_timers (s_loop t) = ev_timers (s_loop s)" "ev_ok (s_loop t)"
    and "readers t \<subseteq>\<^sub>m readers s" "writers t \<subseteq>\<^sub>m writers s"
  shows "base_ok t"
proof -
  have ok: "rd_ok t fd' c = rd_ok s fd' c" "wr_ok t fd' c = wr_ok s fd' c" for fd' c
    using assms(2,3) by (cases c; simp)+
  show ?thesis
    using assms(1,5,6,7) armed_cong [OF assms(4)] held_cong [OF assms(2,3)]
    by (auto simp: base_ok_def timers_match_def entries_ok_def ok map_le_def dom_def)
qed

lemma del_fd_tables:
  assumes "ev_ok (s_loop s)"
  shows "readers (on_loop (ev_del_fd fd) s) = (readers s)(fd := None)"
    "writers (on_loop (ev_del_fd fd) s) = writers s"
    "readers (on_loop (ev_del_fd_write fd) s) = readers s"
    "writers (on_loop (ev_del_fd_write fd) s) = (writers s)(fd := None)"
  using assms by (simp_all add: on_loop_def ev_del_fd_def ev_del_fd_write_def ev_ok_def fd_tab.look_del)

lemma base_del_fd:
  assumes "base_ok s"
  shows "base_ok (on_loop (ev_del_fd fd) s)" "base_ok (on_loop (ev_del_fd_write fd) s)"
proof -
  have e: "ev_ok (s_loop s)" using assms by (simp add: base_ok_def)
  have m: "(readers s)(fd := None) \<subseteq>\<^sub>m readers s" "(writers s)(fd := None) \<subseteq>\<^sub>m writers s"
    by (simp_all add: map_le_def)
  show "base_ok (on_loop (ev_del_fd fd) s)"
    using e m ev_ok_ops(2) [OF e, of fd]
    by (intro base_fewer [OF assms]; simp add: del_fd_tables) (simp_all add: on_loop_def ev_del_fd_def)
  show "base_ok (on_loop (ev_del_fd_write fd) s)"
    using e m ev_ok_ops(4) [OF e, of fd]
    by (intro base_fewer [OF assms]; simp add: del_fd_tables) (simp_all add: on_loop_def ev_del_fd_write_def)
qed

section \<open>Arming and cancelling\<close>

lemma timers_match_cancel:
  assumes "timers_match s" "ev_ok (s_loop s)" "own \<noteq> Tick_cb"
    and "\<And>cb. armed t cb = armed s cb - set_option (held s own)"
    and "\<And>cb. held t cb = (if cb = own then None else held s cb)"
  shows "timers_match t"
  unfolding timers_match_def
proof (intro allI impI)
  fix cb assume cb: "cb \<noteq> Tick_cb"
  have m: "armed s cb = set_option (held s cb)" "armed s own = set_option (held s own)"
    using assms(1,3) cb by (simp_all add: timers_match_def)
  show "armed t cb = set_option (held t cb)"
  proof (cases "cb = own")
    case False
    have "h \<notin> armed s cb" if "h \<in> set_option (held s own)" for h
      using armed_unique [OF assms(2), of h own cb] that False unfolding m(2) by blast
    then show ?thesis using assms(4) [of cb] assms(5) [of cb] False m(1) by (metis Diff_triv disjoint_iff)
  qed (simp add: assms(4,5) m)
qed

lemma timers_match_arm:
  assumes "timers_match s" "own \<noteq> Tick_cb" "held s own = None"
    and "\<And>cb. armed t cb = (if cb = own then insert h (armed s cb) else armed s cb)"
    and "\<And>cb. held t cb = (if cb = own then Some h else held s cb)"
  shows "timers_match t"
  using assms by (simp add: timers_match_def)

text \<open>The tables and the owners' descriptors and states are as before.\<close>

lemma base_same_tables:
  assumes "base_ok s" "timers_match t" "ev_ok (s_loop t)"
    and "ev_fds (s_loop t) = ev_fds (s_loop s)" "ev_wfds (s_loop t) = ev_wfds (s_loop s)"
    and "\<And>j. lk_fd (s_links t j) = lk_fd (s_links s j)" "\<And>j. lk_state (s_links t j) = lk_state (s_links s j)"
    and "\<And>k. p_fd (s_pending t k) = p_fd (s_pending s k)" "\<And>k. p_in_use (s_pending t k) = p_in_use (s_pending s k)"
  shows "base_ok t"
proof -
  have "rd_ok t fd cb = rd_ok s fd cb" "wr_ok t fd cb = wr_ok s fd cb" for fd cb
    using assms(6-9) by (cases cb; simp)+
  then show ?thesis using assms(1-5) by (simp add: base_ok_def entries_ok_def)
qed

lemma timer_after_loop:
  "s_links (snd (timer_after d c s)) = s_links s" "s_pending (snd (timer_after d c s)) = s_pending s"
  "ev_fds (s_loop (snd (timer_after d c s))) = ev_fds (s_loop s)"
  "ev_wfds (s_loop (snd (timer_after d c s))) = ev_wfds (s_loop s)"
  "ev_ok (s_loop s) \<Longrightarrow> ev_ok (s_loop (snd (timer_after d c s)))"
  using ev_ok_ops(5) [of "s_loop s" "s_now s + d" c]
  by (simp_all add: timer_after_def ev_timer_after_def case_prod_beta) (simp_all add: ev_timer_at_def Let_def)

lemma cancel_loop:
  "ev_fds (ev_timer_cancel h l) = ev_fds l" "ev_wfds (ev_timer_cancel h l) = ev_wfds l"
  by (cases h; simp add: ev_timer_cancel_def)+

lemma loop_through [simp]:
  "s_loop (on_link i f s) = s_loop s" "s_loop (on_pending k g s) = s_loop s" "s_loop (on_loop h s) = h (s_loop s)"
  "s_links (on_link i f s) = (s_links s)(i := f (s_links s i))" "s_links (on_pending k g s) = s_links s"
  "s_links (on_loop h s) = s_links s" "s_pending (on_link i f s) = s_pending s"
  "s_pending (on_pending k g s) = (s_pending s)(k := g (s_pending s k))" "s_pending (on_loop h s) = s_pending s"
  "s_runtime (on_link i f s) = s_runtime s" "s_runtime (on_pending k g s) = s_runtime s"
  "s_runtime (on_loop h s) = s_runtime s" "s_cfg (on_link i f s) = s_cfg s" "s_cfg (on_pending k g s) = s_cfg s"
  "s_cfg (on_loop h s) = s_cfg s" "s_links (emit e s) = s_links s" "s_pending (emit e s) = s_pending s"
  "s_loop (emit e s) = s_loop s"
  by (simp_all add: on_link_def on_pending_def on_loop_def emit_def)

lemma armed_through [simp]: "armed (on_link i f s) = armed s" "armed (on_pending k g s) = armed s"
  by (rule armed_cong, simp)+

lemma base_cancel_keepalive: "base_ok s \<Longrightarrow> base_ok (cancel_keepalive i s)"
proof -
  assume b: "base_ok s"
  have "held (cancel_keepalive i s) cb = (if cb = Keepalive_cb i then None else held s cb)" for cb
    by (cases cb) (simp_all add: cancel_keepalive_def)
  then have "timers_match (cancel_keepalive i s)"
    using b by - (rule timers_match_cancel [where s = s and own = "Keepalive_cb i"],
      simp_all add: base_ok_def cancel_keepalive_def armed_cancel)
  with b show ?thesis
    by (rule base_same_tables) (use b in \<open>simp_all add: base_ok_def cancel_keepalive_def ev_ok_ops cancel_loop\<close>)
qed

lemma base_cancel_reconnect: "base_ok s \<Longrightarrow> base_ok (cancel_reconnect i s)"
proof -
  assume b: "base_ok s"
  have "held (cancel_reconnect i s) cb = (if cb = Reconnect_cb i then None else held s cb)" for cb
    by (cases cb) (simp_all add: cancel_reconnect_def)
  then have "timers_match (cancel_reconnect i s)"
    using b by - (rule timers_match_cancel [where s = s and own = "Reconnect_cb i"],
      simp_all add: base_ok_def cancel_reconnect_def armed_cancel)
  with b show ?thesis
    by (rule base_same_tables) (use b in \<open>simp_all add: base_ok_def cancel_reconnect_def ev_ok_ops cancel_loop\<close>)
qed

definition cancel_pending_timer :: "nat \<Rightarrow> sys \<Rightarrow> sys" where
  "cancel_pending_timer k s =
     on_pending k (\<lambda>p. p\<lparr>p_timeout_timer := None\<rparr>) (on_loop (ev_timer_cancel (p_timeout_timer (s_pending s k))) s)"

lemma base_cancel_pending: "base_ok s \<Longrightarrow> base_ok (cancel_pending_timer k s)"
proof -
  assume b: "base_ok s"
  have "held (cancel_pending_timer k s) cb = (if cb = Pending_timeout_cb k then None else held s cb)" for cb
    by (cases cb) (simp_all add: cancel_pending_timer_def)
  then have "timers_match (cancel_pending_timer k s)"
    using b by - (rule timers_match_cancel [where s = s and own = "Pending_timeout_cb k"],
      simp_all add: base_ok_def cancel_pending_timer_def armed_cancel)
  with b show ?thesis
    by (rule base_same_tables) (use b in \<open>simp_all add: base_ok_def cancel_pending_timer_def ev_ok_ops cancel_loop\<close>)
qed

lemma base_schedule:
  assumes "base_ok s" "lk_reconnect_timer (s_links s i) = None"
  shows "base_ok (schedule_reconnect i s)"
proof -
  let ?t = "snd (timer_after RECONNECT_DELAY_S (Reconnect_cb i) s)"
  have "held (schedule_reconnect i s) cb = (if cb = Reconnect_cb i then Some (ev_next_id (s_loop s)) else held s cb)" for cb
    by (cases cb) (simp_all add: schedule_reconnect_def case_prod_beta armed_after timer_after_loop)
  then have "timers_match (schedule_reconnect i s)"
    using assms by - (rule timers_match_arm [where s = s and own = "Reconnect_cb i" and h = "ev_next_id (s_loop s)"],
      simp_all add: base_ok_def schedule_reconnect_def case_prod_beta armed_after)
  with assms(1) show ?thesis
    by (rule base_same_tables)
      (use assms(1) in \<open>simp_all add: base_ok_def schedule_reconnect_def case_prod_beta timer_after_loop\<close>)
qed

lemma base_rearm:
  assumes "base_ok s" "lk_keepalive_timer (s_links s i) = None"
  shows "base_ok (rearm_keepalive i s)"
proof -
  have "held (rearm_keepalive i s) cb = (if cb = Keepalive_cb i then Some (ev_next_id (s_loop s)) else held s cb)" for cb
    by (cases cb) (simp_all add: rearm_keepalive_def case_prod_beta armed_after timer_after_loop)
  then have "timers_match (rearm_keepalive i s)"
    using assms by - (rule timers_match_arm [where s = s and own = "Keepalive_cb i" and h = "ev_next_id (s_loop s)"],
      simp_all add: base_ok_def rearm_keepalive_def case_prod_beta armed_after)
  with assms(1) show ?thesis
    by (rule base_same_tables)
      (use assms(1) in \<open>simp_all add: base_ok_def rearm_keepalive_def case_prod_beta timer_after_loop\<close>)
qed

lemma base_close:
  assumes "base_ok s"
  shows "base_ok (close_link_fd i s)" "unregistered (close_link_fd i s) i"
proof -
  let ?fd = "lk_fd (s_links s i)"
  let ?d = "emit (Close ?fd) (on_loop (ev_del_fd_write ?fd) (on_loop (ev_del_fd ?fd) s))"
  have b: "base_ok ?d"
    using base_del_fd(2) [OF base_del_fd(1) [OF assms]] base_cong [of ?d "on_loop (ev_del_fd_write ?fd) (on_loop (ev_del_fd ?fd) s)"]
    by simp
  have e: "ev_ok (s_loop s)" "ev_ok (s_loop (on_loop (ev_del_fd ?fd) s))"
    using assms by (simp_all add: base_ok_def ev_ok_ops)
  have r: "readers s fd = Some (On_link_tcp_readable i) \<or> writers s fd = Some (On_connect_writable i) \<Longrightarrow>
      0 \<le> fd \<Longrightarrow> fd = ?fd" for fd
    using assms by (fastforce simp: base_ok_def entries_ok_def)
  have "unregistered (on_loop (ev_del_fd_write ?fd) (on_loop (ev_del_fd ?fd) s)) i"
    using r by (auto simp: unregistered_def del_fd_tables [OF e(1)] del_fd_tables [OF e(2)] simp del: loop_through)
  then have u: "unregistered ?d i" by (simp add: unregistered_def)
  show "base_ok (close_link_fd i s)"
    using assms b u by (simp add: close_link_fd_def Let_def base_on_link)
  show "unregistered (close_link_fd i s) i"
  proof (cases "0 \<le> ?fd")
    case True
    then show ?thesis using u by (simp add: close_link_fd_def unregistered_def Let_def)
  next
    case False
    then show ?thesis using r by (auto simp: close_link_fd_def unregistered_def Let_def)
  qed
qed

section \<open>The invariant\<close>

abbreviation outbound :: "sys \<Rightarrow> nat \<Rightarrow> bool" where
  "outbound s i \<equiv> l_cc_role (link_cfg s i) = CC_ROLE_OUTBOUND"

definition link_ok :: "sys \<Rightarrow> nat \<Rightarrow> bool" where
  "link_ok s i \<longleftrightarrow> (let lk = s_links s i in
     (lk_state lk \<noteq> LST_DOWN \<or> lk_active lk \<longrightarrow> i < n_link (s_cfg s)) \<and>
     (lk_has_sync_source lk \<longleftrightarrow> lk_state lk \<in> {LST_HANDSHAKING, LST_UP}) \<and>
     (lk_keepalive_timer lk \<noteq> None \<longleftrightarrow> lk_state lk = LST_UP) \<and>
     (lk_reconnect_timer lk \<noteq> None \<longleftrightarrow> lk_state lk = LST_DOWN \<and> lk_active lk \<and> outbound s i) \<and>
     (outbound s i \<and> \<not> lk_active lk \<longrightarrow> lk_state lk = LST_DOWN) \<and>
     (\<not> outbound s i \<longrightarrow> lk_state lk \<in> {LST_DOWN, LST_UP}) \<and>
     (call_from CALL_ORIGIN_CC (s_runtime s i) \<longrightarrow> lk_state lk = LST_UP) \<and>
     length (lk_hslines lk) < CCCC_ANSWER_NFIELDS \<and> length (lk_rxbuf lk) < RXBUF_CAP)"

definition ssrc_unique :: "sys \<Rightarrow> bool" where
  "ssrc_unique s \<longleftrightarrow> (\<forall>i j. lk_has_sync_source (s_links s i) \<and> lk_has_sync_source (s_links s j) \<and>
     lk_sync_source (s_links s i) = lk_sync_source (s_links s j) \<longrightarrow> i = j)"

definition pending_ok :: "pending_conn \<Rightarrow> bool" where
  "pending_ok p \<longleftrightarrow> (p_in_use p \<longleftrightarrow> p_timeout_timer p \<noteq> None) \<and>
     length (p_qlines p) \<le> CCCC_QUESTION_NFIELDS \<and>
     (p_in_use p \<longrightarrow> length (p_qlines p) < CCCC_QUESTION_NFIELDS) \<and> length (p_rxbuf p) < RXBUF_CAP"

definition links_inv :: "sys \<Rightarrow> bool" where
  "links_inv s \<longleftrightarrow> base_ok s \<and> (\<forall>i. link_ok s i) \<and> ssrc_unique s \<and> (\<forall>j. runtime_ok (s_runtime s j))"

definition bridge_inv :: "sys \<Rightarrow> bool" where
  "bridge_inv s \<longleftrightarrow> links_inv s \<and> (\<forall>k. pending_ok (s_pending s k))"

lemma link_ok_cong:
  "s_links t i = s_links s i \<Longrightarrow> s_runtime t i = s_runtime s i \<Longrightarrow> s_cfg t = s_cfg s \<Longrightarrow> link_ok t i = link_ok s i"
  by (simp add: link_ok_def)

text \<open>A handler that works on link \<open>i\<close> has to look after that link only.\<close>

lemma links_inv_focus:
  assumes "links_inv s" "base_ok t" "s_cfg t = s_cfg s"
    and "\<And>j. j \<noteq> i \<Longrightarrow> s_links t j = s_links s j \<and> s_runtime t j = s_runtime s j"
    and "link_ok t i" "runtime_ok (s_runtime t i)"
    and "\<And>j. j \<noteq> i \<Longrightarrow> lk_has_sync_source (s_links t i) \<Longrightarrow> lk_has_sync_source (s_links s j) \<Longrightarrow>
      lk_sync_source (s_links s j) \<noteq> lk_sync_source (s_links t i)"
  shows "links_inv t"
proof -
  have "link_ok t j" for j
    using assms(1,3,5) assms(4) [of j] link_ok_cong [of t j s] by (cases "j = i") (simp_all add: links_inv_def)
  moreover have "runtime_ok (s_runtime t j)" for j
    using assms(1,6) assms(4) [of j] by (cases "j = i") (simp_all add: links_inv_def)
  moreover have "ssrc_unique t"
    unfolding ssrc_unique_def
  proof (intro allI impI)
    fix j k assume a: "lk_has_sync_source (s_links t j) \<and> lk_has_sync_source (s_links t k) \<and>
      lk_sync_source (s_links t j) = lk_sync_source (s_links t k)"
    show "j = k"
      using a assms(1) assms(4) [of j] assms(4) [of k] assms(7) [of j] assms(7) [of k]
      by (cases "j = i"; cases "k = i") (auto simp: links_inv_def ssrc_unique_def)
  qed
  ultimately show ?thesis using assms(2) by (simp add: links_inv_def)
qed

text \<open>A translator step for link \<open>i\<close> keeps the invariant if it starts a CC-CC call on an up link only.\<close>

lemma links_inv_call_step:
  assumes "links_inv s" "call_step i s t" "runtime_ok (s_runtime t i)"
    and "call_from CALL_ORIGIN_CC (s_runtime t i) \<longrightarrow> lk_state (s_links s i) = LST_UP"
  shows "links_inv t"
proof (rule links_inv_focus [OF assms(1), where i = i])
  note k = call_step_keeps [OF assms(2)]
  show "base_ok t" using assms(1) base_cong [of t s] k by (simp add: links_inv_def)
  show "link_ok t i" using assms(1,4) k by (auto simp: links_inv_def link_ok_def Let_def)
  show "lk_sync_source (s_links s j) \<noteq> lk_sync_source (s_links t i)"
    if "j \<noteq> i" "lk_has_sync_source (s_links t i)" "lk_has_sync_source (s_links s j)" for j
    using assms(1) that k by (auto simp: links_inv_def ssrc_unique_def)
qed (use call_step_keeps [OF assms(2)] call_step_other [OF assms(2)] assms(3) in simp_all)

section \<open>Teardown\<close>

definition teardown_ready :: "sys \<Rightarrow> nat \<Rightarrow> bool" where
  "teardown_ready s i \<longleftrightarrow> base_ok s \<and> lk_reconnect_timer (s_links s i) = None \<and>
     (lk_active (s_links s i) \<longrightarrow> i < n_link (s_cfg s)) \<and>
     (call_from CALL_ORIGIN_CC (s_runtime s i) \<longrightarrow> lk_state (s_links s i) = LST_UP) \<and>
     runtime_ok (s_runtime s i)"

text \<open>The link after cancelling its keepalive, closing its descriptor and clearing its fields.\<close>

definition reset_link :: "nat \<Rightarrow> sys \<Rightarrow> sys" where
  "reset_link i s = on_link i
     (\<lambda>l. l\<lparr>lk_state := LST_DOWN, lk_has_sync_source := False, lk_rxbuf := [], lk_hslines := []\<rparr>)
     (close_link_fd i (cancel_keepalive i s))"

lemma close_link_fields:
  "s_cfg (close_link_fd i s) = s_cfg s" "s_pending (close_link_fd i s) = s_pending s"
  "s_runtime (close_link_fd i s) = s_runtime s" "ev_timers (s_loop (close_link_fd i s)) = ev_timers (s_loop s)"
  "\<exists>fd. s_links (close_link_fd i s) = (s_links s)(i := (s_links s i)\<lparr>lk_fd := fd\<rparr>)"
proof -
  show "\<exists>fd. s_links (close_link_fd i s) = (s_links s)(i := (s_links s i)\<lparr>lk_fd := fd\<rparr>)"
  proof (cases "0 \<le> lk_fd (s_links s i)")
    case True
    then show ?thesis by (intro exI [of _ "- 1"]) (simp add: close_link_fd_def Let_def)
  next
    case False
    then show ?thesis by (intro exI [of _ "lk_fd (s_links s i)"]) (simp add: close_link_fd_def Let_def)
  qed
qed (simp_all add: close_link_fd_def Let_def, simp_all add: emit_def ev_del_fd_def ev_del_fd_write_def)

lemma reset_link_fields:
  "s_cfg (reset_link i s) = s_cfg s" "s_pending (reset_link i s) = s_pending s"
  "s_runtime (reset_link i s) = s_runtime s" "j \<noteq> i \<Longrightarrow> s_links (reset_link i s) j = s_links s j"
  "lk_state (s_links (reset_link i s) i) = LST_DOWN" "\<not> lk_has_sync_source (s_links (reset_link i s) i)"
  "lk_keepalive_timer (s_links (reset_link i s) i) = None"
  "lk_reconnect_timer (s_links (reset_link i s) i) = lk_reconnect_timer (s_links s i)"
  "lk_active (s_links (reset_link i s) i) = lk_active (s_links s i)"
  "lk_hslines (s_links (reset_link i s) i) = []" "lk_rxbuf (s_links (reset_link i s) i) = []"
  using close_link_fields(5) [of i "cancel_keepalive i s"]
  by (auto simp: reset_link_def close_link_fields cancel_keepalive_def)

lemma reset_link_base:
  assumes "base_ok s"
  shows "base_ok (reset_link i s)" "unregistered (reset_link i s) i"
proof -
  note c = base_close [OF base_cancel_keepalive [OF assms], of i i]
  show "base_ok (reset_link i s)" unfolding reset_link_def by (rule base_on_link) (use c in simp_all)
  show "unregistered (reset_link i s) i" using c(2) by (simp add: reset_link_def unregistered_def)
qed

definition maybe_down :: "bool \<Rightarrow> nat \<Rightarrow> sys \<Rightarrow> sys" where
  "maybe_down was_up i s = (if was_up then translator_cccc_link_down i s else s)"

lemma teardown_parts:
  "teardown_link_connection i s =
    (let t = maybe_down (lk_state (s_links s i) = LST_UP) i (reset_link i s) in
     if outbound t i \<and> lk_active (s_links t i) then schedule_reconnect i t else t)"
  by (simp add: teardown_link_connection_def reset_link_def maybe_down_def Let_def)

lemma maybe_down_step:
  "call_step i s (maybe_down b i s)" "b \<Longrightarrow> \<not> call_from CALL_ORIGIN_CC (s_runtime (maybe_down b i s) i)"
  "runtime_ok (s_runtime s i) \<Longrightarrow> runtime_ok (s_runtime (maybe_down b i s) i)"
  using call_step_up_down(2) [of i s] abs_down_step [where i = i and s = s] abs_call_iff(1) [of "s_runtime (translator_cccc_link_down i s) i"]
  by (auto simp: maybe_down_def call_step_refl)

lemma schedule_fields:
  "s_cfg (schedule_reconnect i s) = s_cfg s" "s_pending (schedule_reconnect i s) = s_pending s"
  "s_runtime (schedule_reconnect i s) = s_runtime s"
  "s_links (schedule_reconnect i s) = (s_links s)(i := (s_links s i)\<lparr>lk_reconnect_timer := Some (ev_next_id (s_loop s))\<rparr>)"
  "ev_fds (s_loop (schedule_reconnect i s)) = ev_fds (s_loop s)"
  "ev_wfds (s_loop (schedule_reconnect i s)) = ev_wfds (s_loop s)"
  by (simp_all add: schedule_reconnect_def case_prod_beta armed_after timer_after_loop)
     (simp_all add: timer_after_def case_prod_beta)

text \<open>What holds of the link once it is down, whatever came before.\<close>

lemma teardown_ok:
  assumes "teardown_ready s i"
  defines "t \<equiv> teardown_link_connection i s"
  shows "base_ok t" "s_cfg t = s_cfg s" "s_pending t = s_pending s"
    "j \<noteq> i \<Longrightarrow> s_links t j = s_links s j \<and> s_runtime t j = s_runtime s j"
    "link_ok t i" "runtime_ok (s_runtime t i)" "\<not> lk_has_sync_source (s_links t i)"
    "lk_state (s_links t i) = LST_DOWN" "lk_active (s_links t i) = lk_active (s_links s i)"
proof -
  define r where "r = reset_link i s"
  define m where "m = maybe_down (lk_state (s_links s i) = LST_UP) i r"
  have t: "t = (if outbound m i \<and> lk_active (s_links m i) then schedule_reconnect i m else m)"
    by (simp add: t_def teardown_parts m_def r_def Let_def)
  note rf = reset_link_fields [where i = i and s = s, folded r_def] 
  note cs = maybe_down_step(1) [where i = i and s = r and b = "lk_state (s_links s i) = LST_UP", folded m_def]
  note k = call_step_keeps [OF cs]
  have ready: "base_ok s" "lk_reconnect_timer (s_links s i) = None" "runtime_ok (s_runtime s i)"
    "lk_active (s_links s i) \<longrightarrow> i < n_link (s_cfg s)"
    "call_from CALL_ORIGIN_CC (s_runtime s i) \<longrightarrow> lk_state (s_links s i) = LST_UP"
    using assms(1) by (simp_all add: teardown_ready_def)
  have "base_ok m"
    using reset_link_base(1) [OF ready(1), of i] base_cong [of m r] k by (simp add: r_def)
  then show "base_ok t" using base_schedule [of m i] rf(8) ready(2) k by (simp add: t)
  have other: "s_runtime m j = s_runtime s j" if "j \<noteq> i" for j
    using call_step_other [OF cs that] rf(3) by simp
  show "s_cfg t = s_cfg s" "s_pending t = s_pending s" using k rf(1,2) by (simp_all add: t schedule_fields)
  show "j \<noteq> i \<Longrightarrow> s_links t j = s_links s j \<and> s_runtime t j = s_runtime s j"
    using k rf(4) other by (simp add: t schedule_fields)
  have rt: "runtime_ok (s_runtime m i)" "\<not> call_from CALL_ORIGIN_CC (s_runtime m i)"
    using maybe_down_step(2,3) [where i = i and s = r] ready(3,5) rf(3)
    by (simp_all add: m_def) (cases "lk_state (s_links s i) = LST_UP"; simp add: maybe_down_def)
  then show "runtime_ok (s_runtime t i)" by (simp add: t schedule_fields)
  show "\<not> lk_has_sync_source (s_links t i)" "lk_state (s_links t i) = LST_DOWN"
    "lk_active (s_links t i) = lk_active (s_links s i)"
    using k rf(5,6,9) by (simp_all add: t schedule_fields)
  show "link_ok t i"
    using k rf rt(2) ready(2,4)
    by (auto simp: t link_ok_def schedule_fields Let_def CCCC_ANSWER_NFIELDS_def RXBUF_CAP_def)
qed

lemma teardown_inv:
  assumes "links_inv s" "teardown_ready s i"
  shows "links_inv (teardown_link_connection i s)"
  by (rule links_inv_focus [OF assms(1), where i = i]) (use teardown_ok [OF assms(2)] in auto)

lemma ready_teardown:
  "links_inv s \<Longrightarrow> lk_state (s_links s i) \<noteq> LST_DOWN \<Longrightarrow> teardown_ready s i"
  by (auto simp: links_inv_def link_ok_def teardown_ready_def Let_def)

end
