(* ===== verification/Link_Steps.thy ===== *)
theory Link_Steps
  imports Link_Inv
begin

text \<open>
  Every handler of the CC-CC links keeps the invariant of \<open>Link_Inv\<close>, under the condition that
  its registration or timer gives it.
\<close>

section \<open>Outbound connects\<close>

lemma unregistered_down: "base_ok s \<Longrightarrow> lk_state (s_links s i) = LST_DOWN \<Longrightarrow> unregistered s i"
  unfolding base_ok_def entries_ok_def unregistered_def by fastforce

definition connect_ready :: "sys \<Rightarrow> nat \<Rightarrow> bool" where
  "connect_ready s i \<longleftrightarrow> base_ok s \<and> lk_state (s_links s i) = LST_DOWN \<and>
     lk_reconnect_timer (s_links s i) = None \<and> lk_keepalive_timer (s_links s i) = None \<and>
     lk_active (s_links s i) \<and> outbound s i \<and> i < n_link (s_cfg s) \<and>
     \<not> call_from CALL_ORIGIN_CC (s_runtime s i) \<and> runtime_ok (s_runtime s i)"

lemma base_nsock: "base_ok (s\<lparr>s_nsock := k\<rparr>) = base_ok s"
  by (rule base_cong) simp_all

lemma connect_ok:
  assumes "connect_ready s i"
  defines "t \<equiv> start_outbound_connect i s"
  shows "base_ok t" "s_cfg t = s_cfg s" "s_pending t = s_pending s" "s_runtime t = s_runtime s"
    "j \<noteq> i \<Longrightarrow> s_links t j = s_links s j" "link_ok t i" "\<not> lk_has_sync_source (s_links t i)"
    "lk_active (s_links t i)"
proof -
  define fd where "fd = s_sock s (s_nsock s)"
  define u where "u = on_link i (\<lambda>l. l\<lparr>lk_fd := fd\<rparr>)
    ((on_link i (\<lambda>l. l\<lparr>lk_rxbuf := [], lk_hslines := [], lk_has_sync_source := False\<rparr>) s)\<lparr>s_nsock := Suc (s_nsock s)\<rparr>)"
  define v where "v = on_link i (\<lambda>l. l\<lparr>lk_state := LST_CONNECTING\<rparr>) u"
  have ready: "base_ok s" "lk_state (s_links s i) = LST_DOWN" "lk_reconnect_timer (s_links s i) = None"
    "lk_keepalive_timer (s_links s i) = None" "lk_active (s_links s i)" "outbound s i" "i < n_link (s_cfg s)"
    "\<not> call_from CALL_ORIGIN_CC (s_runtime s i)"
    using assms(1) by (simp_all add: connect_ready_def)
  have t: "t = (if fd < 0 then schedule_reconnect i u else on_loop (ev_add_fd_write fd (On_connect_writable i)) v)"
    using ready(5) by (simp add: t_def start_outbound_connect_def Let_def next_sock_def u_def v_def fd_def)
       (simp add: on_link_def)
  have un: "unregistered s i" by (rule unregistered_down [OF ready(1,2)])
  have u: "base_ok u" "unregistered u i"
    unfolding u_def using un by (auto intro!: base_on_link simp: base_nsock ready(1) unregistered_def)
  have v: "base_ok v" unfolding v_def by (rule base_on_link) (use u in simp_all)
  have f: "s_cfg u = s_cfg s" "s_pending u = s_pending s" "s_runtime u = s_runtime s"
    "s_links u = (s_links s)(i := (s_links s i)\<lparr>lk_rxbuf := [], lk_hslines := [], lk_has_sync_source := False, lk_fd := fd\<rparr>)"
    by (simp_all add: u_def)
  show "base_ok t"
    using base_schedule [OF u(1)] base_add_fd_write [OF v, of fd "On_connect_writable i"] ready(3)
    by (simp add: t f v_def)
  show "s_cfg t = s_cfg s" "s_pending t = s_pending s" "s_runtime t = s_runtime s"
    "\<not> lk_has_sync_source (s_links t i)" "lk_active (s_links t i)"
    using ready(5) by (simp_all add: t schedule_fields v_def f)
  show "j \<noteq> i \<Longrightarrow> s_links t j = s_links s j" by (simp add: t schedule_fields v_def f)
  show "link_ok t i"
    using ready by (simp add: t link_ok_def schedule_fields v_def f Let_def CCCC_ANSWER_NFIELDS_def RXBUF_CAP_def)
qed

lemma connect_inv: "links_inv s \<Longrightarrow> connect_ready s i \<Longrightarrow> links_inv (start_outbound_connect i s)"
  by (rule links_inv_focus [where i = i]) (auto simp: connect_ok links_inv_def connect_ready_def)

section \<open>Timers that fire\<close>

text \<open>Firing takes the timer out of the list before the callback runs.\<close>

definition fired :: "nat \<Rightarrow> sys \<Rightarrow> sys" where
  "fired h s = on_loop (ev_timer_cancel (Some h)) s"

lemma fired_held:
  "base_ok s \<Longrightarrow> h \<in> armed s cb \<Longrightarrow> cb \<noteq> Tick_cb \<Longrightarrow> held s cb = Some h"
  by (simp add: base_ok_def timers_match_def)

lemma cancel_reconnect_fields:
  "s_cfg (cancel_reconnect i s) = s_cfg s" "s_pending (cancel_reconnect i s) = s_pending s"
  "s_runtime (cancel_reconnect i s) = s_runtime s"
  "s_links (cancel_reconnect i s) = (s_links s)(i := (s_links s i)\<lparr>lk_reconnect_timer := None\<rparr>)"
  by (simp_all add: cancel_reconnect_def)

lemma cancel_keepalive_fields:
  "s_cfg (cancel_keepalive i s) = s_cfg s" "s_pending (cancel_keepalive i s) = s_pending s"
  "s_runtime (cancel_keepalive i s) = s_runtime s"
  "s_links (cancel_keepalive i s) = (s_links s)(i := (s_links s i)\<lparr>lk_keepalive_timer := None\<rparr>)"
  by (simp_all add: cancel_keepalive_def)

lemma reconnect_inv:
  assumes "links_inv s" "h \<in> armed s (Reconnect_cb i)"
  shows "links_inv (reconnect_cb i (fired h s)) \<and> s_pending (reconnect_cb i (fired h s)) = s_pending s"
proof -
  have b: "base_ok s" and l: "link_ok s i" and r: "runtime_ok (s_runtime s i)"
    using assms(1) by (simp_all add: links_inv_def)
  have h: "lk_reconnect_timer (s_links s i) = Some h" using fired_held [OF b assms(2)] by simp
  let ?t = "cancel_reconnect i s"
  have "reconnect_cb i (fired h s) = (if lk_active (s_links ?t i) then start_outbound_connect i ?t else ?t)"
    by (simp add: reconnect_cb_def fired_def cancel_reconnect_def h Let_def)
  moreover have ready: "connect_ready ?t i"
    using l h r base_cancel_reconnect [OF b, of i]
    by (auto simp: connect_ready_def cancel_reconnect_fields link_ok_def Let_def)
  ultimately have e: "reconnect_cb i (fired h s) = start_outbound_connect i ?t" by (simp add: connect_ready_def)
  have "links_inv (start_outbound_connect i ?t)"
    by (rule links_inv_focus [OF assms(1), where i = i]) (use ready r in \<open>auto simp: connect_ok cancel_reconnect_fields\<close>)
  then show ?thesis using connect_ok(3) [OF ready] by (simp add: e cancel_reconnect_fields)
qed

lemma rearm_fields:
  "s_cfg (rearm_keepalive i s) = s_cfg s" "s_pending (rearm_keepalive i s) = s_pending s"
  "s_runtime (rearm_keepalive i s) = s_runtime s"
  "s_links (rearm_keepalive i s) = (s_links s)(i := (s_links s i)\<lparr>lk_keepalive_timer := Some (ev_next_id (s_loop s))\<rparr>)"
  by (simp_all add: rearm_keepalive_def case_prod_beta armed_after timer_after_loop)
     (simp_all add: timer_after_def case_prod_beta)

lemma keepalive_inv:
  assumes "links_inv s" "h \<in> armed s (Keepalive_cb i)"
  shows "links_inv (keepalive_cb i (fired h s)) \<and> s_pending (keepalive_cb i (fired h s)) = s_pending s"
proof -
  have b: "base_ok s" and l: "link_ok s i" and r: "runtime_ok (s_runtime s i)"
    using assms(1) by (simp_all add: links_inv_def)
  have h: "lk_keepalive_timer (s_links s i) = Some h" using fired_held [OF b assms(2)] by simp
  then have up: "lk_state (s_links s i) = LST_UP" using l by (auto simp: link_ok_def Let_def)
  define t where "t = udp_send_to_link i (build_keepalive (lk_sync_source (s_links s i))) (cancel_keepalive i s)"
  have e: "keepalive_cb i (fired h s) =
      (if s_now t - lk_last_keepalive_recv (s_links t i) > c_link_timeout (s_cfg t)
       then teardown_link_connection i t else rearm_keepalive i t)"
    using up by (simp add: keepalive_cb_def fired_def t_def cancel_keepalive_def h Let_def)
  have f: "s_cfg t = s_cfg s" "s_pending t = s_pending s" "s_runtime t = s_runtime s"
    "s_links t = (s_links s)(i := (s_links s i)\<lparr>lk_keepalive_timer := None\<rparr>)"
    by (simp_all add: t_def udp_send_to_link_def cancel_keepalive_fields)
  have bt: "base_ok t"
    using base_cancel_keepalive [OF b, of i] base_cong [of t "cancel_keepalive i s"]
    by (simp add: t_def udp_send_to_link_def)
  have ready: "teardown_ready t i" using l bt r up by (auto simp: teardown_ready_def f link_ok_def Let_def)
  have "links_inv (teardown_link_connection i t)"
    by (rule links_inv_focus [OF assms(1), where i = i]) (use teardown_ok [OF ready] in \<open>auto simp: f\<close>)
  moreover have "links_inv (rearm_keepalive i t)"
    by (rule links_inv_focus [OF assms(1), where i = i])
       (use base_rearm [OF bt, of i] l up assms(1) r in \<open>auto simp: f rearm_fields link_ok_def Let_def links_inv_def ssrc_unique_def\<close>)
  ultimately show ?thesis using teardown_ok(3) [OF ready] by (simp add: e f rearm_fields)
qed

section \<open>Lines of a link\<close>

lemma dispatch_step:
  assumes "runtime_ok (s_runtime s i)"
  shows "call_step i s (dispatch_established_line i line s)"
    "runtime_ok (s_runtime (dispatch_established_line i line s) i)"
  using assms
  by (auto simp: dispatch_established_line_def translator_cccc_boff_def call_step_bon call_step_end call_step_refl
      ok_bon_step abs_end_cc split: option.split prod.split)

lemma finish_inv:
  assumes "links_inv s" "lk_state (s_links s i) = LST_HANDSHAKING"
    and "s_loop t = s_loop s" "s_cfg t = s_cfg s" "s_pending t = s_pending s" "s_runtime t = s_runtime s"
    and "s_links t = (s_links s)(i := (s_links s i)\<lparr>lk_hslines := hs\<rparr>)"
  shows "links_inv (finish_outbound_handshake i t) \<and> s_pending (finish_outbound_handshake i t) = s_pending s"
proof -
  have b: "base_ok s" and l: "link_ok s i" and r: "runtime_ok (s_runtime s i)"
    using assms(1) by (simp_all add: links_inv_def)
  define u where "u = on_link i (\<lambda>l. l\<lparr>lk_hslines := []\<rparr>) t"
  have f: "s_loop u = s_loop s" "s_cfg u = s_cfg s" "s_pending u = s_pending s" "s_runtime u = s_runtime s"
    "s_links u = (s_links s)(i := (s_links s i)\<lparr>lk_hslines := []\<rparr>)"
    using assms(3-7) by (simp_all add: u_def)
  have bu: "base_ok u"
  proof -
    have "base_ok (on_link i (\<lambda>l. l\<lparr>lk_hslines := []\<rparr>) s)" by (rule base_on_link) (use b in simp_all)
    moreover have "base_ok u = base_ok (on_link i (\<lambda>l. l\<lparr>lk_hslines := []\<rparr>) s)" by (rule base_cong) (simp_all add: f)
    ultimately show ?thesis by simp
  qed
  define w where "w = on_link i (\<lambda>l. l\<lparr>lk_last_keepalive_recv := s_now t\<rparr>) (on_link i (\<lambda>l. l\<lparr>lk_state := LST_UP\<rparr>) u)"
  have bw: "base_ok w"
    unfolding w_def using assms(2) by (intro base_on_link) (simp_all add: bu f)
  have e: "finish_outbound_handshake i t = (if lk_hslines (s_links t i) ! 0 \<noteq> CCCC_CODEC_AMBE \<or>
      atoi (lk_hslines (s_links t i) ! 1) \<noteq> CCCC_MS_PER_FRAME then teardown_link_connection i u
      else translator_cccc_link_up i (rearm_keepalive i w))"
    by (simp add: finish_outbound_handshake_def u_def w_def arm_keepalive_def Let_def) (simp add: on_link_def)
  have ready: "teardown_ready u i"
    using l bu r assms(2) by (auto simp: teardown_ready_def f link_ok_def Let_def)
  have td: "links_inv (teardown_link_connection i u)"
    by (rule links_inv_focus [OF assms(1), where i = i]) (use teardown_ok [OF ready] in \<open>auto simp: f\<close>)
  have fw: "s_cfg w = s_cfg s" "s_pending w = s_pending s" "s_runtime w = s_runtime s"
    "s_links w = (s_links s)(i := (s_links s i)\<lparr>lk_hslines := [], lk_state := LST_UP, lk_last_keepalive_recv := s_now t\<rparr>)"
    by (simp_all add: w_def f)
  have k: "lk_keepalive_timer (s_links w i) = None" using l assms(2) by (simp add: fw link_ok_def Let_def)
  have "links_inv (rearm_keepalive i w)"
    by (rule links_inv_focus [OF assms(1), where i = i])
       (use base_rearm [OF bw k] l assms(1,2) r in
         \<open>auto simp: fw rearm_fields link_ok_def Let_def links_inv_def ssrc_unique_def CCCC_ANSWER_NFIELDS_def\<close>)
  then have "links_inv (translator_cccc_link_up i (rearm_keepalive i w))"
    by (rule links_inv_call_step [OF _ call_step_up_down(1)])
       (use r in \<open>auto simp: abs_up_step rearm_fields fw\<close>)
  then show ?thesis
    using td teardown_ok(3) [OF ready] call_step_keeps(4) [OF call_step_up_down(1)] by (simp add: e f rearm_fields fw)
qed

lemma hslines_inv:
  assumes "links_inv s" "length hs < CCCC_ANSWER_NFIELDS"
  shows "links_inv (on_link i (\<lambda>l. l\<lparr>lk_hslines := hs\<rparr>) s)"
proof (rule links_inv_focus [OF assms(1), where i = i])
  show "base_ok (on_link i (\<lambda>l. l\<lparr>lk_hslines := hs\<rparr>) s)"
    by (rule base_on_link) (use assms(1) in \<open>simp_all add: links_inv_def\<close>)
qed (use assms in \<open>auto simp: links_inv_def link_ok_def Let_def ssrc_unique_def\<close>)

lemma rxbuf_inv:
  assumes "links_inv s" "length buf < RXBUF_CAP"
  shows "links_inv (on_link i (\<lambda>l. l\<lparr>lk_rxbuf := buf\<rparr>) s)"
proof (rule links_inv_focus [OF assms(1), where i = i])
  show "base_ok (on_link i (\<lambda>l. l\<lparr>lk_rxbuf := buf\<rparr>) s)"
    by (rule base_on_link) (use assms(1) in \<open>simp_all add: links_inv_def\<close>)
qed (use assms in \<open>auto simp: links_inv_def link_ok_def Let_def ssrc_unique_def\<close>)

lemma line_inv:
  assumes "links_inv s"
  shows "links_inv (link_on_line i line s) \<and> s_pending (link_on_line i line s) = s_pending s"
proof -
  have l: "link_ok s i" and r: "runtime_ok (s_runtime s i)" using assms by (simp_all add: links_inv_def)
  let ?hs = "lk_hslines (s_links s i) @ [take 255 line]"
  let ?t = "on_link i (\<lambda>l. l\<lparr>lk_hslines := lk_hslines l @ [take 255 line]\<rparr>) s"
  have t: "?t = on_link i (\<lambda>l. l\<lparr>lk_hslines := ?hs\<rparr>) s" by (simp add: on_link_def)
  consider "lk_state (s_links s i) = LST_HANDSHAKING" | "lk_state (s_links s i) = LST_UP"
    | "lk_state (s_links s i) \<notin> {LST_HANDSHAKING, LST_UP}" by blast
  then show ?thesis
  proof cases
    case 1
    have n: "length (lk_hslines (s_links s i)) < CCCC_ANSWER_NFIELDS" using l by (simp add: link_ok_def Let_def)
    have fin: "links_inv (finish_outbound_handshake i ?t) \<and> s_pending (finish_outbound_handshake i ?t) = s_pending s"
      by (rule finish_inv [OF assms 1, where hs = ?hs]) simp_all
    have "links_inv ?t" if "length ?hs \<noteq> CCCC_ANSWER_NFIELDS"
      unfolding t by (rule hslines_inv [OF assms]) (use n that in simp)
    then show ?thesis using 1 n fin by (simp add: link_on_line_def Let_def)
  next
    case 2
    then show ?thesis
      using links_inv_call_step [OF assms dispatch_step(1) dispatch_step(2)] r
        call_step_keeps(4) [OF dispatch_step(1) [OF r]] by (simp add: link_on_line_def)
  next
    case 3
    then show ?thesis using assms by (simp add: link_on_line_def)
  qed
qed

text \<open>What every line keeps, and every change of the buffer within its size, the feeding keeps.\<close>

lemma feed_keeps:
  assumes "P s" "\<And>s line. P s \<Longrightarrow> P (cb line s)" "\<And>s buf. P s \<Longrightarrow> length buf < cap \<Longrightarrow> P (put buf s)" "0 < cap"
  shows "P (feed_bytes get put cap cb bs s)"
  using assms(1)
proof (induction bs arbitrary: s)
  case (Cons b bs)
  show ?case
    by (simp add: Let_def) (intro conjI impI Cons.IH assms(2,3) Cons.prems; simp add: assms(4))
qed simp

lemma feed_link_inv:
  assumes "links_inv s"
  shows "links_inv (feed_link i (link_on_line i) bs s) \<and> s_pending (feed_link i (link_on_line i) bs s) = s_pending s"
  unfolding feed_link_def
  by (rule feed_keeps [where P = "\<lambda>t. links_inv t \<and> s_pending t = s_pending s"])
     (use assms line_inv rxbuf_inv in \<open>auto simp: RXBUF_CAP_def\<close>)

lemma tcp_readable_inv:
  assumes "links_inv s" "lk_state (s_links s i) \<noteq> LST_DOWN"
  shows "links_inv (on_link_tcp_readable i inp s) \<and> s_pending (on_link_tcp_readable i inp s) = s_pending s"
  using feed_link_inv [OF assms(1)] teardown_inv [OF assms(1) ready_teardown [OF assms]]
    teardown_ok(3) [OF ready_teardown [OF assms]] assms(1)
  by (simp add: on_link_tcp_readable_def split: input.split)

section \<open>Completion of a connect\<close>

lemma find_ssrc_None:
  "find_link_by_ssrc s v = None \<longleftrightarrow>
     (\<forall>i < n_link (s_cfg s). lk_has_sync_source (s_links s i) \<longrightarrow> lk_sync_source (s_links s i) \<noteq> v)"
  by (auto simp: find_link_by_ssrc_def find_None_iff)

lemma find_ssrc_Some:
  "find_link_by_ssrc s v = Some i \<Longrightarrow>
     i < n_link (s_cfg s) \<and> lk_has_sync_source (s_links s i) \<and> lk_sync_source (s_links s i) = v"
  by (auto simp: find_link_by_ssrc_def find_Some_iff)

text \<open>A minted number was drawn and is in use by no link; drawing changes nothing else.\<close>

lemma mint_result:
  assumes "mint_sync_source s = Some r"
  shows "(\<exists>k. snd r = s\<lparr>s_nrand := k\<rparr>) \<and> find_link_by_ssrc s (fst r) = None"
  using assms
proof (rule mint_sync_source.raw_induct [rotated, where P = "\<lambda>s r. (\<exists>k. snd r = s\<lparr>s_nrand := k\<rparr>) \<and>
    find_link_by_ssrc s (fst r) = None"], goal_cases)
  case (1 mint s r)
  have f: "find_link_by_ssrc (s\<lparr>s_nrand := k\<rparr>) w = find_link_by_ssrc s w" for k w
    by (simp add: find_link_by_ssrc_def)
  show ?case
    using 1(2) 1(1) [of "s\<lparr>s_nrand := Suc (s_nrand s)\<rparr>" r]
    by (auto simp: next_rand_def Let_def f split: if_splits)
qed

lemma mint_Some:
  "mint_sync_source s = Some (v, t) \<Longrightarrow> (\<exists>k. t = s\<lparr>s_nrand := k\<rparr>) \<and> find_link_by_ssrc s v = None"
  using mint_result [of s "(v, t)"] by simp

lemma connecting_unregistered:
  assumes "base_ok s" "lk_state (s_links s i) = LST_CONNECTING" "lk_fd (s_links s i) = fd"
  shows "base_ok (on_loop (ev_del_fd_write fd) s)" "unregistered (on_loop (ev_del_fd_write fd) s) i"
proof -
  have e: "ev_ok (s_loop s)" using assms(1) by (simp add: base_ok_def)
  have rd: "readers s fd' = Some cb \<Longrightarrow> 0 \<le> fd' \<Longrightarrow> rd_ok s fd' cb" and
       wr: "writers s fd' = Some cb \<Longrightarrow> 0 \<le> fd' \<Longrightarrow> wr_ok s fd' cb" for fd' cb
    using assms(1) by (simp_all add: base_ok_def entries_ok_def)
  show "base_ok (on_loop (ev_del_fd_write fd) s)" by (rule base_del_fd [OF assms(1)])
  show "unregistered (on_loop (ev_del_fd_write fd) s) i"
    unfolding unregistered_def del_fd_tables [OF e]
    using rd [where cb = "On_link_tcp_readable i"] wr [where cb = "On_connect_writable i"] assms(2,3) by auto
qed

lemma writable_inv:
  assumes "links_inv s" "lk_state (s_links s i) = LST_CONNECTING" "lk_fd (s_links s i) = fd"
    and "on_connect_writable i fd inp s = Some t"
  shows "links_inv t \<and> s_pending t = s_pending s"
proof -
  have b: "base_ok s" and l: "link_ok s i" and r: "runtime_ok (s_runtime s i)"
    using assms(1) by (simp_all add: links_inv_def)
  define u where "u = on_loop (ev_del_fd_write fd) s"
  note bu = connecting_unregistered [OF b assms(2,3), folded u_def]
  have fu: "s_cfg u = s_cfg s" "s_pending u = s_pending s" "s_runtime u = s_runtime s" "s_links u = s_links s"
    by (simp_all add: u_def)
  have lf: "lk_active (s_links s i)" "outbound s i" "i < n_link (s_cfg s)" "lk_reconnect_timer (s_links s i) = None"
    "lk_keepalive_timer (s_links s i) = None" "\<not> call_from CALL_ORIGIN_CC (s_runtime s i)" "\<not> lk_has_sync_source (s_links s i)"
    using l assms(2) by (auto simp: link_ok_def Let_def)
  show ?thesis
  proof (cases "inp = In_sockerr 0")
    case False
    define w where "w = on_link i (\<lambda>l. l\<lparr>lk_fd := - 1, lk_state := LST_DOWN\<rparr>) (emit (Close fd) u)"
    have t: "t = schedule_reconnect i w"
      using assms(4) False lf(1) by (simp add: on_connect_writable_def Let_def u_def [symmetric] w_def [symmetric])
         (simp add: w_def fu)
    have "base_ok (emit (Close fd) u)" using bu(1) base_cong [of "emit (Close fd) u" u] by simp
    then have bw: "base_ok w" unfolding w_def using bu(2) by (intro base_on_link) (simp_all add: unregistered_def)
    have fw: "s_cfg w = s_cfg s" "s_pending w = s_pending s" "s_runtime w = s_runtime s"
      "s_links w = (s_links s)(i := (s_links s i)\<lparr>lk_fd := - 1, lk_state := LST_DOWN\<rparr>)"
      by (simp_all add: w_def fu)
    have "links_inv t"
      unfolding t
      by (rule links_inv_focus [OF assms(1), where i = i])
         (use base_schedule [OF bw, of i] l lf r assms(2) in \<open>auto simp: fw schedule_fields link_ok_def Let_def\<close>)
    then show ?thesis by (simp add: t schedule_fields fw)
  next
    case True
    define w where "w = on_link i (\<lambda>l. l\<lparr>lk_state := LST_HANDSHAKING\<rparr>) u"
    obtain v w' where m: "mint_sync_source w = Some (v, w')"
      and t0: "t = tcp_send i (build_question v (l_cc_lid (link_cfg w' i)) (l_cc_channel_name (link_cfg w' i))
          (c_site_name (s_cfg w')) (c_mac_address (s_cfg w')) (c_code_revision (s_cfg w')) (c_os_version (s_cfg w')))
        (on_loop (ev_add_fd fd (On_link_tcp_readable i))
          (on_link i (\<lambda>l. l\<lparr>lk_sync_source := v, lk_has_sync_source := True\<rparr>) w'))"
      using assms(4) True
      by (auto simp: on_connect_writable_def Let_def u_def [symmetric] w_def [symmetric] split: bind_splits)
    from mint_Some [OF m] obtain k where w': "w' = w\<lparr>s_nrand := k\<rparr>" and free: "find_link_by_ssrc w v = None" by blast
    define x where "x = on_link i (\<lambda>l. l\<lparr>lk_sync_source := v, lk_has_sync_source := True\<rparr>) w'"
    have fw: "s_cfg w = s_cfg s" "s_pending w = s_pending s" "s_runtime w = s_runtime s"
      "s_links w = (s_links s)(i := (s_links s i)\<lparr>lk_state := LST_HANDSHAKING\<rparr>)"
      by (simp_all add: w_def fu)
    have fx: "s_cfg x = s_cfg s" "s_pending x = s_pending s" "s_runtime x = s_runtime s"
      "s_links x = (s_links s)(i := (s_links s i)\<lparr>lk_state := LST_HANDSHAKING, lk_sync_source := v, lk_has_sync_source := True\<rparr>)"
      by (simp_all add: x_def w' fw)
    have bw: "base_ok w" unfolding w_def using bu by (intro base_on_link) simp_all
    have "base_ok w'" using bw base_cong [of w' w] by (simp add: w')
    then have bx: "base_ok x" unfolding x_def by (intro base_on_link) simp_all
    have bt: "base_ok t"
      using base_add_fd [OF bx, of fd "On_link_tcp_readable i"] assms(3)
        base_cong [of t "on_loop (ev_add_fd fd (On_link_tcp_readable i)) x"]
      by (simp add: t0 x_def [symmetric] tcp_send_def fx)
    have ft: "s_cfg t = s_cfg s" "s_pending t = s_pending s" "s_runtime t = s_runtime s" "s_links t = s_links x"
      by (simp_all add: t0 x_def [symmetric] tcp_send_def fx)
    have "lk_sync_source (s_links s j) \<noteq> v" if "j \<noteq> i" "lk_has_sync_source (s_links s j)" for j
    proof -
      have "j < n_link (s_cfg s)" using assms(1) that(2) by (auto simp: links_inv_def link_ok_def Let_def)
      then show ?thesis using free that by (auto simp: find_ssrc_None fw)
    qed
    then have "links_inv t"
      by (intro links_inv_focus [OF assms(1), where i = i])
         (use bt l lf r in \<open>auto simp: ft fx link_ok_def Let_def\<close>)
    then show ?thesis by (simp add: ft)
  qed
qed

section \<open>Pending connections\<close>

definition pending_unregistered :: "sys \<Rightarrow> nat \<Rightarrow> bool" where
  "pending_unregistered s k \<longleftrightarrow> (\<forall>fd. 0 \<le> fd \<longrightarrow> readers s fd \<noteq> Some (On_pending_readable k))"

lemma base_on_pending:
  assumes "base_ok s" "p_timeout_timer (f (s_pending s k)) = p_timeout_timer (s_pending s k)"
    and "pending_unregistered s k \<or> p_fd (f (s_pending s k)) = p_fd (s_pending s k) \<and>
      p_in_use (f (s_pending s k)) = p_in_use (s_pending s k)"
  shows "base_ok (on_pending k f s)"
proof -
  let ?t = "on_pending k f s"
  have h: "held ?t cb = held s cb" for cb using assms(2) by (cases cb) simp_all
  have r: "rd_ok ?t fd cb" if "readers s fd = Some cb" "rd_ok s fd cb" "0 \<le> fd" for fd cb
    using that assms(3) by (cases cb) (auto simp: pending_unregistered_def)
  have w: "wr_ok ?t fd cb = wr_ok s fd cb" for fd cb by (cases cb) simp_all
  show ?thesis
    using assms(1) r w h by (simp add: base_ok_def timers_match_def entries_ok_def)
qed

lemma links_inv_same:
  "links_inv s \<Longrightarrow> base_ok t \<Longrightarrow> s_links t = s_links s \<Longrightarrow> s_runtime t = s_runtime s \<Longrightarrow> s_cfg t = s_cfg s \<Longrightarrow>
     links_inv t"
  by (rule links_inv_focus [where i = 0]) (auto simp: links_inv_def ssrc_unique_def link_ok_def)

lemma cancel_pending_fields:
  "s_links (cancel_pending_timer k s) = s_links s" "s_runtime (cancel_pending_timer k s) = s_runtime s"
  "s_cfg (cancel_pending_timer k s) = s_cfg s"
  "s_pending (cancel_pending_timer k s) = (s_pending s)(k := (s_pending s k)\<lparr>p_timeout_timer := None\<rparr>)"
  by (simp_all add: cancel_pending_timer_def)

lemma free_pending_eq:
  "free_pending k b s = on_pending k (\<lambda>p. p\<lparr>p_in_use := False, p_fd := - 1\<rparr>)
     (if b \<and> 0 \<le> p_fd (s_pending s k)
      then emit (Close (p_fd (s_pending s k))) (on_loop (ev_del_fd (p_fd (s_pending s k))) (cancel_pending_timer k s))
      else cancel_pending_timer k s)"
  by (simp add: free_pending_def cancel_pending_timer_def Let_def)

lemma free_pending_fields:
  "s_links (free_pending k b s) = s_links s" "s_runtime (free_pending k b s) = s_runtime s"
  "s_cfg (free_pending k b s) = s_cfg s"
  "s_pending (free_pending k b s) =
     (s_pending s)(k := (s_pending s k)\<lparr>p_timeout_timer := None, p_in_use := False, p_fd := - 1\<rparr>)"
  by (simp_all add: free_pending_eq cancel_pending_fields)

lemma pending_reader: "base_ok s \<Longrightarrow> readers s fd = Some (On_pending_readable k) \<Longrightarrow> 0 \<le> fd \<Longrightarrow>
   p_fd (s_pending s k) = fd \<and> p_in_use (s_pending s k)"
  unfolding base_ok_def entries_ok_def by fastforce

lemma free_pending_base:
  assumes "base_ok s" "b \<or> pending_unregistered s k"
  shows "base_ok (free_pending k b s)"
proof -
  let ?c = "cancel_pending_timer k s" and ?fd = "p_fd (s_pending s k)"
  have c: "base_ok ?c" by (rule base_cancel_pending [OF assms(1)])
  then have e: "ev_ok (s_loop ?c)" by (simp add: base_ok_def)
  show ?thesis
  proof (cases "b \<and> 0 \<le> ?fd")
    case True
    let ?d = "emit (Close ?fd) (on_loop (ev_del_fd ?fd) ?c)"
    have d: "base_ok ?d" using base_del_fd(1) [OF c] base_cong [of ?d "on_loop (ev_del_fd ?fd) ?c"] by simp
    have "pending_unregistered (on_loop (ev_del_fd ?fd) ?c) k"
      using pending_reader [OF c, of _ k] unfolding pending_unregistered_def del_fd_tables [OF e]
      by (auto simp: cancel_pending_fields)
    then have "pending_unregistered ?d k" by (simp add: pending_unregistered_def)
    then show ?thesis using True d by (simp add: free_pending_eq base_on_pending)
  next
    case False
    have "pending_unregistered ?c k"
    proof (cases b)
      case True
      then show ?thesis using False pending_reader [OF c, of _ k] by (auto simp: pending_unregistered_def cancel_pending_fields)
    next
      case False
      have "readers ?c = readers s" by (simp add: cancel_pending_timer_def cancel_loop)
      then show ?thesis using assms(2) False by (simp add: pending_unregistered_def)
    qed
    moreover have "free_pending k b s = on_pending k (\<lambda>p. p\<lparr>p_in_use := False, p_fd := - 1\<rparr>) ?c"
      using False by (simp only: free_pending_eq if_False)
    ultimately show ?thesis using c by (simp add: base_on_pending)
  qed
qed

lemma free_pending_inv:
  assumes "links_inv s" "b \<or> pending_unregistered s k"
  shows "links_inv (free_pending k b s)"
  by (rule links_inv_same [OF assms(1) free_pending_base]) (use assms in \<open>simp_all add: links_inv_def free_pending_fields\<close>)

text \<open>The slot that a handler worked on ends up free or well formed, the others are untouched.\<close>

lemma bridge_inv_slot:
  "links_inv t \<Longrightarrow> s_pending t = (s_pending s)(k := p) \<Longrightarrow> \<forall>j. j \<noteq> k \<longrightarrow> pending_ok (s_pending s j) \<Longrightarrow> pending_ok p \<Longrightarrow>
     bridge_inv t"
  by (simp add: bridge_inv_def)

lemma taken_over_unregistered:
  assumes "base_ok s" "p_fd (s_pending s k) = fd"
  shows "pending_unregistered (on_loop (ev_add_fd fd (On_link_tcp_readable i)) s) k"
proof -
  have ok: "tab_ok (ev_fds (s_loop s))" using assms(1) by (simp add: base_ok_def ev_ok_def)
  have l: "ev_fds (s_loop (on_loop (ev_add_fd fd (On_link_tcp_readable i)) s)) =
      tab_register (ev_fds (s_loop s)) fd (On_link_tcp_readable i)"
    by (simp add: ev_add_fd_def)
  show ?thesis
    unfolding pending_unregistered_def l map_of_register
    using pending_reader [OF assms(1), of _ k] assms(2) by auto
qed

lemma accept_inv:
  assumes "links_inv s" "\<not> outbound s i" "i < n_link (s_cfg s)"
    and "find_link_by_ssrc s v \<in> {None, Some i}"
  shows "links_inv (accept_question k i v s) \<and> s_pending (accept_question k i v s) =
    (s_pending s)(k := (s_pending s k)\<lparr>p_timeout_timer := None, p_in_use := False, p_fd := - 1\<rparr>)"
proof -
  define a where "a = (if lk_state (s_links s i) \<noteq> LST_DOWN then teardown_link_connection i s else s)"
  have a: "links_inv a" "s_pending a = s_pending s" "s_cfg a = s_cfg s" "lk_state (s_links a i) = LST_DOWN"
    "\<And>j. j \<noteq> i \<Longrightarrow> s_links a j = s_links s j \<and> s_runtime a j = s_runtime s j"
    using assms(1) teardown_inv [OF assms(1) ready_teardown [OF assms(1)]] teardown_ok [OF ready_teardown [OF assms(1)]]
    by (auto simp: a_def)
  have ba: "base_ok a" and la: "link_ok a i" and ra: "runtime_ok (s_runtime a i)"
    using a(1) by (simp_all add: links_inv_def)
  define fd where "fd = p_fd (s_pending a k)"
  define b where "b = on_link i (\<lambda>l. l\<lparr>lk_fd := fd, lk_rxbuf := [], lk_hslines := [], lk_sync_source := v,
      lk_has_sync_source := True, lk_state := LST_UP\<rparr>) a"
  define c where "c = on_loop (ev_add_fd fd (On_link_tcp_readable i)) b"
  define d where "d = tcp_send i (build_answer (s_wall c) (c_site_name (s_cfg c)) (c_os_version (s_cfg c)) (c_version (s_cfg c))) c"
  define e where "e = on_link i (\<lambda>l. l\<lparr>lk_last_keepalive_recv := s_now d\<rparr>) d"
  define f where "f = rearm_keepalive i e"
  define g where "g = free_pending k False (on_pending k (\<lambda>p. p\<lparr>p_fd := - 1\<rparr>) f)"
  have t: "accept_question k i v s = translator_cccc_link_up i g"
    by (simp add: accept_question_def a_def b_def c_def d_def e_def f_def g_def fd_def arm_keepalive_def Let_def)
  have bb: "base_ok b" unfolding b_def using unregistered_down [OF ba a(4)] ba by (intro base_on_link) simp_all
  have bc: "base_ok c" unfolding c_def using bb by (intro base_add_fd) (simp_all add: b_def)
  have bd: "base_ok d" using bc base_cong [of d c] by (simp add: d_def tcp_send_def)
  have be: "base_ok e" unfolding e_def using bd by (intro base_on_link) simp_all
  have ke: "lk_keepalive_timer (s_links e i) = None"
    using la a(4) by (simp add: e_def d_def tcp_send_def c_def b_def link_ok_def Let_def)
  have bf: "base_ok f" unfolding f_def by (rule base_rearm [OF be ke])
  have "pending_unregistered c k"
    unfolding c_def by (rule taken_over_unregistered [OF bb]) (simp add: b_def fd_def)
  moreover have "readers f = readers c"
    by (simp add: f_def rearm_keepalive_def case_prod_beta timer_after_loop e_def d_def tcp_send_def)
  ultimately have pf: "pending_unregistered f k" by (simp add: pending_unregistered_def)
  have ff: "s_cfg f = s_cfg s" "s_pending f = s_pending s" "s_runtime f = s_runtime a"
    "s_links f = (s_links a)(i := (s_links a i)\<lparr>lk_fd := fd, lk_rxbuf := [], lk_hslines := [], lk_sync_source := v,
      lk_has_sync_source := True, lk_state := LST_UP, lk_last_keepalive_recv := s_now d,
      lk_keepalive_timer := Some (ev_next_id (s_loop e))\<rparr>)"
    by (simp_all add: f_def rearm_fields e_def d_def tcp_send_def c_def b_def a(2,3))
  have "lk_sync_source (s_links s j) \<noteq> v" if "j \<noteq> i" "lk_has_sync_source (s_links s j)" for j
  proof
    assume v: "lk_sync_source (s_links s j) = v"
    have j: "j < n_link (s_cfg s)" using assms(1) that(2) by (auto simp: links_inv_def link_ok_def Let_def)
    show False
    proof (cases "find_link_by_ssrc s v")
      case None
      then show False using find_ssrc_None j that(2) v by blast
    next
      case (Some m)
      then have "m = i" using assms(4) by simp
      then show False using find_ssrc_Some [OF Some] assms(1) that v by (auto simp: links_inv_def ssrc_unique_def)
    qed
  qed
  then have lf: "links_inv f"
    by (intro links_inv_focus [OF assms(1), where i = i])
       (use bf la ra a(4,5) assms(2,3) in \<open>auto simp: ff a(3) link_ok_def Let_def RXBUF_CAP_def CCCC_ANSWER_NFIELDS_def\<close>)
  have "base_ok (on_pending k (\<lambda>p. p\<lparr>p_fd := - 1\<rparr>) f)" using bf pf by (intro base_on_pending) simp_all
  then have "links_inv (on_pending k (\<lambda>p. p\<lparr>p_fd := - 1\<rparr>) f)" by (rule links_inv_same [OF lf]) simp_all
  then have "links_inv g"
    unfolding g_def by (rule free_pending_inv) (use pf in \<open>simp add: pending_unregistered_def\<close>)
  moreover have "s_pending g = (s_pending s)(k := (s_pending s k)\<lparr>p_timeout_timer := None, p_in_use := False, p_fd := - 1\<rparr>)"
    by (simp add: g_def free_pending_fields ff)
  moreover have "links_inv (translator_cccc_link_up i g)"
    by (rule links_inv_call_step [OF \<open>links_inv g\<close> call_step_up_down(1)])
       (use ra in \<open>auto simp: abs_up_step g_def free_pending_fields ff translator_cccc_link_up_def\<close>)
  ultimately show ?thesis using call_step_keeps(4) [OF call_step_up_down(1)] by (simp add: t)
qed

lemma match_inbound_Some:
  "match_inbound c ip lid = Some i \<Longrightarrow> i < n_link c \<and> l_cc_role (c_link c ! i) = CC_ROLE_INBOUND \<and>
     l_enabled (c_link c ! i) \<and> l_cc_remote_ip (c_link c ! i) = ip \<and> l_cc_lid (c_link c ! i) = lid"
  by (auto simp: match_inbound_def find_Some_iff)

lemma handle_question_cases:
  obtains (refuse) "handle_question_complete k s = free_pending k True (cancel_pending_timer k s)"
  | (accept) i v where "handle_question_complete k s = accept_question k i v (cancel_pending_timer k s)"
      "match_inbound (s_cfg s) (p_src_ip (s_pending s k)) (atoi (p_qlines (s_pending s k) ! 1)) = Some i"
      "v = ucast (strtoul 16 (p_qlines (s_pending s k) ! 0))"
      "find_link_by_ssrc (cancel_pending_timer k s) v \<in> {None, Some i}"
proof -
  have h: "handle_question_complete k s =
     (case match_inbound (s_cfg s) (p_src_ip (s_pending s k)) (atoi (p_qlines (s_pending s k) ! 1)) of
           None \<Rightarrow> free_pending k True (cancel_pending_timer k s)
         | Some i \<Rightarrow>
             (case find_link_by_ssrc (cancel_pending_timer k s) (ucast (strtoul 16 (p_qlines (s_pending s k) ! 0))) of
                Some j \<Rightarrow> if j \<noteq> i then free_pending k True (cancel_pending_timer k s)
                          else accept_question k i (ucast (strtoul 16 (p_qlines (s_pending s k) ! 0))) (cancel_pending_timer k s)
              | None \<Rightarrow> accept_question k i (ucast (strtoul 16 (p_qlines (s_pending s k) ! 0))) (cancel_pending_timer k s)))"
    unfolding handle_question_complete_def cancel_pending_timer_def [symmetric] Let_def
    by (simp add: cancel_pending_fields split: option.split)
  define v :: u32 where "v = ucast (strtoul 16 (p_qlines (s_pending s k) ! 0))"
  note h = h [folded v_def]
  show thesis
  proof (cases "match_inbound (s_cfg s) (p_src_ip (s_pending s k)) (atoi (p_qlines (s_pending s k) ! 1))")
    case None
    then show thesis using refuse h by simp
  next
    case (Some i)
    show thesis
    proof (cases "find_link_by_ssrc (cancel_pending_timer k s) v \<in> {None, Some i}")
      case True
      then have "handle_question_complete k s = accept_question k i v (cancel_pending_timer k s)"
        using h Some by auto
      from accept [OF this Some v_def True] show thesis .
    next
      case False
      then show thesis using refuse h Some by (cases "find_link_by_ssrc (cancel_pending_timer k s) v") auto
    qed
  qed
qed

lemma handle_question_inv:
  assumes "links_inv s"
  shows "links_inv (handle_question_complete k s) \<and> s_pending (handle_question_complete k s) =
    (s_pending s)(k := (s_pending s k)\<lparr>p_timeout_timer := None, p_in_use := False, p_fd := - 1\<rparr>)"
proof -
  let ?c = "cancel_pending_timer k s"
  have c: "links_inv ?c"
    by (rule links_inv_same [OF assms base_cancel_pending])
       (use assms in \<open>simp_all add: links_inv_def cancel_pending_fields\<close>)
  show ?thesis
  proof (cases rule: handle_question_cases [where k = k and s = s])
    case refuse
    then show ?thesis using free_pending_inv [OF c] by (simp add: free_pending_fields cancel_pending_fields)
  next
    case (accept i v)
    have "\<not> outbound ?c i" "i < n_link (s_cfg ?c)"
      using match_inbound_Some [OF accept(2)] by (simp_all add: cancel_pending_fields)
    from accept_inv [OF c this accept(4), of k] show ?thesis by (simp add: accept(1) cancel_pending_fields)
  qed
qed

lemma pending_line_inv:
  assumes "bridge_inv s"
  shows "bridge_inv (pending_on_line k line s)"
proof -
  have l: "links_inv s" and p: "\<And>j. pending_ok (s_pending s j)" using assms by (simp_all add: bridge_inv_def)
  let ?p = "s_pending s k"
  define t where "t = (if length (p_qlines ?p) < CCCC_QUESTION_NFIELDS
    then on_pending k (\<lambda>p. p\<lparr>p_qlines := p_qlines p @ [take 255 line]\<rparr>) s else s)"
  have n: "length (p_qlines ?p) \<le> CCCC_QUESTION_NFIELDS" using p [of k] by (simp add: pending_ok_def)
  have "base_ok (on_pending k (\<lambda>p. p\<lparr>p_qlines := p_qlines p @ [take 255 line]\<rparr>) s)"
    by (rule base_on_pending) (use l in \<open>simp_all add: links_inv_def\<close>)
  then have lt: "links_inv t" using l by (auto simp: t_def intro: links_inv_same)
  have e: "pending_on_line k line s =
      (if length (p_qlines (s_pending t k)) = CCCC_QUESTION_NFIELDS then handle_question_complete k t else t)"
    by (simp add: pending_on_line_def t_def Let_def)
  define qs where "qs = (if length (p_qlines ?p) < CCCC_QUESTION_NFIELDS then p_qlines ?p @ [take 255 line] else p_qlines ?p)"
  have t: "s_pending t = (s_pending s)(k := ?p\<lparr>p_qlines := qs\<rparr>)" "length qs \<le> CCCC_QUESTION_NFIELDS"
    using n by (simp_all add: t_def qs_def)
  show ?thesis
  proof (cases "length qs = CCCC_QUESTION_NFIELDS")
    case True
    have h: "links_inv (handle_question_complete k t)"
      "s_pending (handle_question_complete k t) = (s_pending s)(k := ?p\<lparr>p_qlines := qs, p_timeout_timer := None, p_in_use := False, p_fd := - 1\<rparr>)"
      using handle_question_inv [OF lt, of k] by (simp_all add: t(1))
    show ?thesis
      using bridge_inv_slot [OF h] p True by (simp add: e t(1) pending_ok_def)
  next
    case False
    have "bridge_inv t"
      using bridge_inv_slot [OF lt t(1)] p t(2) False by (simp add: pending_ok_def)
    then show ?thesis using False by (simp add: e t(1))
  qed
qed

lemma feed_pending_inv:
  assumes "bridge_inv s"
  shows "bridge_inv (feed_pending k (pending_on_line k) bs s)"
  unfolding feed_pending_def
proof (rule feed_keeps [where P = bridge_inv])
  fix t buf assume t: "bridge_inv t" "length (buf :: string) < RXBUF_CAP"
  have "base_ok (on_pending k (\<lambda>p. p\<lparr>p_rxbuf := buf\<rparr>) t)"
    by (rule base_on_pending) (use t in \<open>simp_all add: bridge_inv_def links_inv_def\<close>)
  then have "links_inv (on_pending k (\<lambda>p. p\<lparr>p_rxbuf := buf\<rparr>) t)"
    using t(1) by (auto simp: bridge_inv_def intro: links_inv_same)
  then show "bridge_inv (on_pending k (\<lambda>p. p\<lparr>p_rxbuf := buf\<rparr>) t)"
    using t by (simp add: bridge_inv_def pending_ok_def)
qed (use assms pending_line_inv in \<open>auto simp: RXBUF_CAP_def\<close>)

lemma free_pending_bridge:
  assumes "bridge_inv s"
  shows "bridge_inv (free_pending k True s)"
  using assms free_pending_inv [of s True k]
  by (auto simp: bridge_inv_def pending_ok_def free_pending_fields)

lemma pending_readable_inv:
  "bridge_inv s \<Longrightarrow> bridge_inv (on_pending_readable k inp s)"
  by (simp add: on_pending_readable_def feed_pending_inv free_pending_bridge split: input.split)

lemma pending_timeout_inv:
  assumes "bridge_inv s" "h \<in> armed s (Pending_timeout_cb k)"
  shows "bridge_inv (pending_timeout_cb k (fired h s))"
proof -
  have b: "base_ok s" "links_inv s" "\<And>j. pending_ok (s_pending s j)" using assms(1) by (simp_all add: bridge_inv_def links_inv_def)
  have h: "p_timeout_timer (s_pending s k) = Some h" using fired_held [OF b(1) assms(2)] by simp
  let ?c = "cancel_pending_timer k s"
  have e: "pending_timeout_cb k (fired h s) = free_pending k True ?c"
    by (simp add: pending_timeout_cb_def fired_def cancel_pending_timer_def h)
  have "links_inv ?c"
    by (rule links_inv_same [OF b(2) base_cancel_pending [OF b(1)]]) (simp_all add: cancel_pending_fields)
  then have l: "links_inv (free_pending k True ?c)" by (rule free_pending_inv) simp
  show ?thesis
    unfolding e by (rule bridge_inv_slot [OF l]) (use b(3) in \<open>auto simp: free_pending_fields cancel_pending_fields pending_ok_def\<close>)
qed

lemma accept_connection_inv:
  assumes "bridge_inv s"
  shows "bridge_inv (accept_connection s (cfd, ip))"
proof (cases "find (\<lambda>k. \<not> p_in_use (s_pending s k)) [0..<MAX_PENDING]")
  case None
  have "base_ok (emit (Close cfd) s) = base_ok s" by (rule base_cong) simp_all
  then have "links_inv (emit (Close cfd) s)"
    using assms by - (rule links_inv_same [where s = s], simp_all add: bridge_inv_def links_inv_def)
  then show ?thesis using assms None by (simp add: accept_connection_def bridge_inv_def)
next
  case (Some k)
  have l: "links_inv s" "base_ok s" and p: "\<And>j. pending_ok (s_pending s j)"
    using assms by (simp_all add: bridge_inv_def links_inv_def)
  have k: "\<not> p_in_use (s_pending s k)" using Some by (auto simp: find_Some_iff)
  then have pk: "p_timeout_timer (s_pending s k) = None" using p [of k] by (simp add: pending_ok_def)
  define a where "a = on_pending k (\<lambda>_. zero_pending\<lparr>p_in_use := True, p_fd := cfd, p_src_ip := ip\<rparr>) s"
  define b where "b = on_loop (ev_add_fd cfd (On_pending_readable k)) a"
  define t where "t = on_pending k (\<lambda>p. p\<lparr>p_timeout_timer := Some (ev_next_id (s_loop b))\<rparr>)
      (snd (timer_after PENDING_TIMEOUT_S (Pending_timeout_cb k) b))"
  have e: "accept_connection s (cfd, ip) = t"
    by (simp add: accept_connection_def Some Let_def case_prod_beta a_def b_def t_def armed_after)
  have "pending_unregistered s k" using pending_reader [OF l(2)] k by (auto simp: pending_unregistered_def)
  then have "base_ok a" unfolding a_def using l(2) pk by (intro base_on_pending) (simp_all add: zero_pending_def)
  then have bb: "base_ok b" unfolding b_def by (intro base_add_fd) (simp_all add: a_def)
  have f: "s_cfg b = s_cfg s" "s_links b = s_links s" "s_runtime b = s_runtime s"
    "s_pending b = (s_pending s)(k := zero_pending\<lparr>p_in_use := True, p_fd := cfd, p_src_ip := ip\<rparr>)"
    by (simp_all add: b_def a_def)
  have "held t cb = (if cb = Pending_timeout_cb k then Some (ev_next_id (s_loop b)) else held b cb)" for cb
    by (cases cb) (simp_all add: t_def timer_after_loop)
  then have "timers_match t"
    using bb by - (rule timers_match_arm [where s = b and own = "Pending_timeout_cb k" and h = "ev_next_id (s_loop b)"],
      simp_all add: base_ok_def t_def armed_after f zero_pending_def)
  with bb have bt: "base_ok t"
    by (rule base_same_tables) (use bb in \<open>simp_all add: base_ok_def t_def timer_after_loop\<close>)
  have ft: "s_cfg t = s_cfg s" "s_links t = s_links s" "s_runtime t = s_runtime s"
    "s_pending t = (s_pending s)(k := zero_pending\<lparr>p_in_use := True, p_fd := cfd, p_src_ip := ip,
       p_timeout_timer := Some (ev_next_id (s_loop b))\<rparr>)"
    by (simp_all add: t_def timer_after_loop f) (simp_all add: timer_after_def case_prod_beta f)
  have "links_inv t" by (rule links_inv_same [OF l(1) bt]) (simp_all add: ft)
  then show ?thesis
    unfolding e by (rule bridge_inv_slot [OF _ ft(4)])
      (use p in \<open>auto simp: pending_ok_def zero_pending_def CCCC_QUESTION_NFIELDS_def RXBUF_CAP_def\<close>)
qed

lemma listen_inv: "bridge_inv s \<Longrightarrow> bridge_inv (on_listen_readable inp s)"
proof -
  have "bridge_inv (foldl accept_connection s cs)" if "bridge_inv s" for cs s
    using that by (induction cs arbitrary: s) (auto simp: accept_connection_inv)
  then show "bridge_inv s \<Longrightarrow> bridge_inv (on_listen_readable inp s)"
    by (simp add: on_listen_readable_def split: input.split)
qed

end
