(* ===== verification/Link_Life.thy ===== *)
theory Link_Life
  imports Link_Steps
begin

text \<open>
  The remaining entry points of the CC-CC side and the invariant: datagrams on the shared sockets,
  the start of the links, a reload, and the stop.  A reload also brings the links in line with the
  enabled flags of the configuration.
\<close>

section \<open>Datagrams\<close>

lemma bridge_inv_call:
  assumes "bridge_inv s" "call_step i s t" "runtime_ok (s_runtime t i)"
    and "call_from CALL_ORIGIN_CC (s_runtime t i) \<longrightarrow> lk_state (s_links s i) = LST_UP"
  shows "bridge_inv t"
  using links_inv_call_step [OF _ assms(2-4)] call_step_keeps(4) [OF assms(2)] assms(1) by (simp add: bridge_inv_def)

lemma bridge_inv_links:
  assumes "bridge_inv s" "links_inv t \<and> s_pending t = s_pending s"
  shows "bridge_inv t"
  using assms by (simp add: bridge_inv_def)

lemma bridge_inv_cong:
  assumes "s_loop t = s_loop s" "s_links t = s_links s" "s_pending t = s_pending s" "s_runtime t = s_runtime s"
    and "s_cfg t = s_cfg s" "bridge_inv s"
  shows "bridge_inv t"
proof -
  have "links_inv s" "base_ok t" using assms base_cong [of t s] by (simp_all add: bridge_inv_def links_inv_def)
  then have "links_inv t" by (rule links_inv_same) (simp_all add: assms)
  then show ?thesis using assms by (simp add: bridge_inv_def)
qed

lemma bridge_inv_emit: "bridge_inv s \<Longrightarrow> bridge_inv (emit e s)"
  by (rule bridge_inv_cong [of _ s]) simp_all

lemma runtime_of_inv:
  "bridge_inv s \<Longrightarrow> runtime_ok (s_runtime s i)"
  "bridge_inv s \<Longrightarrow> call_from CALL_ORIGIN_CC (s_runtime s i) \<Longrightarrow> lk_state (s_links s i) = LST_UP"
  by (auto simp: bridge_inv_def links_inv_def link_ok_def Let_def)

text \<open>A step that cannot start a call from the CC-CC side.\<close>

lemma bridge_inv_no_new_cc:
  assumes "bridge_inv s" "call_step i s t" "runtime_ok (s_runtime t i)"
    and "abs_call (s_runtime t i) = From_cc \<Longrightarrow> abs_call (s_runtime s i) = From_cc"
  shows "bridge_inv t"
  by (rule bridge_inv_call [OF assms(1-3)])
     (use assms(4) runtime_of_inv(2) [OF assms(1), of i] in \<open>auto simp: abs_call_iff\<close>)

lemma voice_inv:
  assumes "bridge_inv s"
  shows "bridge_inv (on_voice_readable fd inp s)"
proof -
  have v: "bridge_inv (translator_cccc_voice i a s)" for i a
    by (rule bridge_inv_no_new_cc [OF assms call_step_voice])
       (use abs_voice_step [where s = s and i = i] runtime_of_inv(1) [OF assms] in auto)
  have "links_inv (on_link i (\<lambda>l. l\<lparr>lk_last_keepalive_recv := s_now s\<rparr>) s)" for i
  proof (rule links_inv_focus [where s = s and i = i])
    show "base_ok (on_link i (\<lambda>l. l\<lparr>lk_last_keepalive_recv := s_now s\<rparr>) s)"
      by (rule base_on_link) (use assms in \<open>simp_all add: bridge_inv_def links_inv_def\<close>)
  qed (use assms in \<open>auto simp: bridge_inv_def links_inv_def link_ok_def Let_def ssrc_unique_def\<close>)
  then have k: "bridge_inv (on_link i (\<lambda>l. l\<lparr>lk_last_keepalive_recv := s_now s\<rparr>) s)" for i
    using assms by (simp add: bridge_inv_def)
  show ?thesis
    unfolding on_voice_readable_def Let_def
    by (auto split: input.split option.split intro: assms v bridge_inv_emit k)
qed

lemma trial_inv: "bridge_inv s \<Longrightarrow> bridge_inv (on_trial_readable fd inp s)"
  by (auto simp: on_trial_readable_def Let_def bridge_inv_emit split: input.split)

lemma tick_inv:
  assumes "bridge_inv s"
  shows "bridge_inv (translator_tick s)"
proof -
  have "bridge_inv (foldl tick_link s is)" for "is"
    using assms
  proof (induction "is" rule: rev_induct)
    case (snoc i "is")
    let ?s = "foldl tick_link s is"
    have "runtime_ok (s_runtime (tick_link ?s i) i)" "abs_call (s_runtime (tick_link ?s i) i) = From_cc \<Longrightarrow>
        abs_call (s_runtime ?s i) = From_cc"
      using tick_link_runtime [OF runtime_of_inv(1) [OF snoc.IH [OF snoc.prems]], of i]
        runtime_of_inv(1) [OF snoc.IH [OF snoc.prems], of i]
      by (auto simp: runtime_ok_drop split: if_splits)
    then show ?case using bridge_inv_no_new_cc [OF snoc.IH [OF snoc.prems] call_step_tick] by simp
  qed simp
  then show ?thesis by (simp add: translator_tick_def)
qed

section \<open>Reload\<close>

lemma active_inv:
  assumes "links_inv s" "i < n_link (s_cfg s)" "\<not> outbound s i"
  shows "links_inv (on_link i (\<lambda>k. k\<lparr>lk_active := b\<rparr>) s)"
proof (rule links_inv_focus [OF assms(1), where i = i])
  show "base_ok (on_link i (\<lambda>k. k\<lparr>lk_active := b\<rparr>) s)"
    by (rule base_on_link) (use assms(1) in \<open>simp_all add: links_inv_def\<close>)
qed (use assms in \<open>auto simp: links_inv_def link_ok_def Let_def ssrc_unique_def\<close>)

lemma activate_inv:
  assumes "links_inv s" "i < n_link (s_cfg s)" "outbound s i" "\<not> lk_active (s_links s i)"
  defines "t \<equiv> start_outbound_connect i (on_link i (\<lambda>k. k\<lparr>lk_active := True\<rparr>) s)"
  shows "links_inv t" "s_pending t = s_pending s" "s_cfg t = s_cfg s" "j \<noteq> i \<Longrightarrow> s_links t j = s_links s j"
    "lk_active (s_links t i)"
proof -
  let ?a = "on_link i (\<lambda>k. k\<lparr>lk_active := True\<rparr>) s"
  have l: "link_ok s i" and r: "runtime_ok (s_runtime s i)" and b: "base_ok s"
    using assms(1) by (simp_all add: links_inv_def)
  have "base_ok ?a" by (rule base_on_link) (use b in simp_all)
  then have ready: "connect_ready ?a i"
    using l r assms(2-4) by (auto simp: connect_ready_def link_ok_def Let_def)
  note c = connect_ok [OF ready, folded t_def]
  show "links_inv t"
    by (rule links_inv_focus [OF assms(1), where i = i]) (use c r in auto)
  show "s_pending t = s_pending s" "s_cfg t = s_cfg s" "j \<noteq> i \<Longrightarrow> s_links t j = s_links s j"
    "lk_active (s_links t i)"
    using c by auto
qed

text \<open>Taking a link out of service, as a reload and the stop do.\<close>

lemma retire_inv:
  fixes i :: nat
  assumes "links_inv s"
  defines "t \<equiv> stop_link s i"
  shows "links_inv t" "s_pending t = s_pending s" "s_cfg t = s_cfg s" "j \<noteq> i \<Longrightarrow> s_links t j = s_links s j"
    "lk_state (s_links t i) = LST_DOWN" "\<not> lk_active (s_links t i)"
proof -
  have l: "link_ok s i" and r: "runtime_ok (s_runtime s i)" and b: "base_ok s"
    using assms(1) by (simp_all add: links_inv_def)
  define u where "u = cancel_reconnect i (on_link i (\<lambda>k. k\<lparr>lk_active := False\<rparr>) s)"
  have "base_ok (on_link i (\<lambda>k. k\<lparr>lk_active := False\<rparr>) s)" by (rule base_on_link) (use b in simp_all)
  then have bu: "base_ok u" unfolding u_def by (rule base_cancel_reconnect)
  have fu: "s_cfg u = s_cfg s" "s_pending u = s_pending s" "s_runtime u = s_runtime s"
    "s_links u = (s_links s)(i := (s_links s i)\<lparr>lk_active := False, lk_reconnect_timer := None\<rparr>)"
    by (simp_all add: u_def cancel_reconnect_fields)
  have t: "t = (if lk_state (s_links s i) \<noteq> LST_DOWN then teardown_link_connection i u else u)"
    by (simp add: t_def stop_link_def u_def [symmetric] Let_def fu)
  have ready: "teardown_ready u i" if "lk_state (s_links s i) \<noteq> LST_DOWN"
    using that l r bu by (auto simp: teardown_ready_def fu link_ok_def Let_def)
  have "links_inv u" if "lk_state (s_links s i) = LST_DOWN"
    by (rule links_inv_focus [OF assms(1), where i = i])
       (use that bu l r in \<open>auto simp: fu link_ok_def Let_def\<close>)
  moreover have "links_inv (teardown_link_connection i u)" if "lk_state (s_links s i) \<noteq> LST_DOWN"
    by (rule links_inv_focus [OF assms(1), where i = i]) (use teardown_ok [OF ready [OF that]] in \<open>auto simp: fu\<close>)
  ultimately show "links_inv t" by (simp add: t)
  show "s_pending t = s_pending s" "s_cfg t = s_cfg s" "lk_state (s_links t i) = LST_DOWN"
    "\<not> lk_active (s_links t i)"
    using teardown_ok [OF ready] by (auto simp: t fu)
  show "j \<noteq> i \<Longrightarrow> s_links t j = s_links s j"
    using teardown_ok(4) [OF ready, of j] by (auto simp: t fu)
qed

text \<open>The link follows its enabled flag.\<close>

definition follows_config :: "sys \<Rightarrow> nat \<Rightarrow> bool" where
  "follows_config s i \<longleftrightarrow> lk_active (s_links s i) = l_enabled (link_cfg s i) \<and>
     (\<not> l_enabled (link_cfg s i) \<longrightarrow> lk_state (s_links s i) = LST_DOWN)"

lemma reconcile_link_ok:
  assumes "links_inv s" "i < n_link (s_cfg s)"
  defines "t \<equiv> reconcile_link s i"
  shows "links_inv t" "s_pending t = s_pending s" "s_cfg t = s_cfg s" "j \<noteq> i \<Longrightarrow> s_links t j = s_links s j"
    "follows_config t i"
proof -
  have l: "link_ok s i" using assms(1) by (simp add: links_inv_def)
  note act = activate_inv [OF assms(1,2)] and ret = retire_inv [OF assms(1)]
  consider (on) "outbound s i" "l_enabled (link_cfg s i)" "\<not> lk_active (s_links s i)"
      "t = start_outbound_connect i (on_link i (\<lambda>k. k\<lparr>lk_active := True\<rparr>) s)"
    | (off) "outbound s i" "\<not> l_enabled (link_cfg s i)" "lk_active (s_links s i)" "t = stop_link s i"
    | (same) "outbound s i" "l_enabled (link_cfg s i) = lk_active (s_links s i)" "t = s"
    | (inb) "\<not> outbound s i"
        "t = (let u = on_link i (\<lambda>k. k\<lparr>lk_active := l_enabled (link_cfg s i)\<rparr>) s in
          if \<not> l_enabled (link_cfg s i) \<and> lk_state (s_links s i) \<noteq> LST_DOWN then teardown_link_connection i u else u)"
  proof (cases "outbound s i")
    case True
    then show thesis
      using on off same
      by (cases "l_enabled (link_cfg s i)"; cases "lk_active (s_links s i)"; simp add: t_def reconcile_link_def stop_link_def Let_def)
  next
    case False
    then have "l_cc_role (link_cfg s i) \<noteq> CC_ROLE_OUTBOUND" by simp
    then show thesis
      by (intro inb [OF False]) (simp only: t_def reconcile_link_def Let_def if_False simp_thms, simp)
  qed
  then have "links_inv t \<and> s_pending t = s_pending s \<and> s_cfg t = s_cfg s \<and> (j \<noteq> i \<longrightarrow> s_links t j = s_links s j) \<and>
      follows_config t i"
  proof cases
    case on
    then show ?thesis using act [OF on(1,3)] by (simp add: follows_config_def)
  next
    case off
    then show ?thesis using ret by (auto simp: follows_config_def)
  next
    case same
    then show ?thesis using assms(1) l by (auto simp: follows_config_def link_ok_def Let_def)
  next
    case inb
    define u where "u = on_link i (\<lambda>k. k\<lparr>lk_active := l_enabled (link_cfg s i)\<rparr>) s"
    have u: "links_inv u" unfolding u_def by (rule active_inv [OF assms(1,2) inb(1)])
    have fu: "s_pending u = s_pending s" "s_cfg u = s_cfg s"
      "s_links u = (s_links s)(i := (s_links s i)\<lparr>lk_active := l_enabled (link_cfg s i)\<rparr>)"
      by (simp_all add: u_def)
    have t: "t = (if \<not> l_enabled (link_cfg s i) \<and> lk_state (s_links u i) \<noteq> LST_DOWN
        then teardown_link_connection i u else u)"
      by (simp add: inb(2) u_def [symmetric] Let_def fu)
    show ?thesis
    proof (cases "\<not> l_enabled (link_cfg s i) \<and> lk_state (s_links u i) \<noteq> LST_DOWN")
      case True
      note ready = ready_teardown [OF u] and te = t [unfolded if_P [OF True]]
      have r: "teardown_ready u i" using True by (intro ready) simp
      show ?thesis
        using teardown_inv [OF u r] teardown_ok [OF r] True by (simp add: te fu follows_config_def)
    next
      case False
      then show ?thesis using u by (auto simp: t fu follows_config_def)
    qed
  qed
  then show "links_inv t" "s_pending t = s_pending s" "s_cfg t = s_cfg s" "j \<noteq> i \<Longrightarrow> s_links t j = s_links s j"
    "follows_config t i"
    by simp_all
qed

lemma reconcile_links:
  assumes "links_inv s" "k \<le> n_link (s_cfg s)"
  shows "let t = foldl reconcile_link s [0..<k] in links_inv t \<and> s_pending t = s_pending s \<and> s_cfg t = s_cfg s \<and>
     (\<forall>i < k. follows_config t i)"
  using assms(2)
proof (induction k)
  case (Suc k)
  let ?s = "foldl reconcile_link s [0..<k]"
  have IH: "links_inv ?s" "s_pending ?s = s_pending s" "s_cfg ?s = s_cfg s" "\<And>i. i < k \<Longrightarrow> follows_config ?s i"
    using Suc by (simp_all add: Let_def)
  note r = reconcile_link_ok [OF IH(1), of k, unfolded IH(2,3)]
  have "follows_config (reconcile_link ?s k) i" if "i < Suc k" for i
    using that r(3,5) r(4) [of i] IH(3) IH(4) [of i] Suc.prems
    by (cases "i = k") (auto simp: follows_config_def)
  then show ?case using r(1-3) Suc.prems by (simp add: Let_def)
qed (simp add: assms(1))

lemma cccc_reconcile_ok:
  assumes "bridge_inv s"
  shows "bridge_inv (cccc_mux_reconcile s)" "s_cfg (cccc_mux_reconcile s) = s_cfg s"
    "\<forall>i < n_link (s_cfg s). follows_config (cccc_mux_reconcile s) i"
  using reconcile_links [of s "n_link (s_cfg s)"] assms
  by (auto simp: Let_def bridge_inv_def cccc_mux_reconcile_def)

section \<open>The beginning\<close>

lemma blank_inv: "bridge_inv (blank_sys c sock rnd)"
proof -
  have "armed (blank_sys c sock rnd) cb = {}" for cb by (simp add: armed_def blank_sys_def ev_new_def)
  moreover have "held (blank_sys c sock rnd) cb = None" for cb
    by (cases cb) (simp_all add: blank_sys_def zero_link_def zero_pending_def)
  ultimately have "timers_match (blank_sys c sock rnd)" by (simp add: timers_match_def)
  then show ?thesis
    by (simp add: bridge_inv_def links_inv_def base_ok_def ev_ok_new entries_ok_def link_ok_def ssrc_unique_def
        pending_ok_def blank_sys_def zero_link_def zero_pending_def zero_runtime_def runtime_ok_zero [unfolded zero_runtime_def]
        CCCC_ANSWER_NFIELDS_def RXBUF_CAP_def CCCC_QUESTION_NFIELDS_def Let_def)
       (simp add: ev_new_def)
qed

end
