(* ===== verification/Toml.thy ===== *)
theory Toml
  imports C_Text
begin

text \<open>
  \<open>toml.c\<close>: the reader of the configuration file.  The file is the list of its characters;
  \<open>fgets\<close> cuts it into pieces of at most 1023 characters, and each piece is handled on its own.
  Values that a failed parse leaves behind are not kept.
\<close>

section \<open>Values\<close>

datatype toml_value =
    TOML_NONE
  | TOML_STRING string
  | TOML_INT int
  | TOML_BOOL bool
  | TOML_ARRAY "toml_value list"

text \<open>Entries and array-of-tables names are lists in file order, \<open>n\<close> and \<open>n_atable_names\<close> their lengths.\<close>

record toml =
  t_entries :: "(string \<times> string \<times> toml_value) list"
  t_atables :: "(string \<times> nat) list"

definition MAX_ENTRIES :: nat where "MAX_ENTRIES = 1024"
definition MAX_ATABLE_NAMES :: nat where "MAX_ATABLE_NAMES = 8"

datatype toml_error =
    Not_found
  | Malformed_atable nat
  | Too_many_atables nat
  | Malformed_section nat
  | Expected_key_value nat
  | Empty_key nat
  | Too_many_entries
  | Unterminated_array nat
  | Bad_array nat
  | Bad_value nat string

section \<open>Text\<close>

definition trim :: "string \<Rightarrow> string" where
  "trim s = rev (dropWhile is_space (rev (dropWhile is_space s)))"

text \<open>\<open>in_basic\<close> and \<open>in_lit\<close> say whether a quoted string is open.\<close>

fun strip_from :: "bool \<Rightarrow> bool \<Rightarrow> string \<Rightarrow> string" where
  "strip_from in_basic in_lit [] = []"
| "strip_from in_basic in_lit (c # s) =
     (if in_basic then c # strip_from (c \<noteq> CHR 0x22) in_lit s
      else if in_lit then c # strip_from in_basic (c \<noteq> CHR 0x27) s
      else if c = CHR 0x22 then c # strip_from True in_lit s
      else if c = CHR 0x27 then c # strip_from in_basic True s
      else if c = CHR ''#'' then []
      else c # strip_from in_basic in_lit s)"

definition strip_comment :: "string \<Rightarrow> string" where
  "strip_comment line = strip_from False False line"

definition unescape :: "char \<Rightarrow> char" where
  "unescape c = (if c = CHR ''n'' then CHR 0x0A else if c = CHR ''t'' then CHR 0x09
     else if c = CHR ''r'' then CHR 0x0D else c)"

text \<open>The first argument is the room left in the output buffer.\<close>

fun parse_basic :: "nat \<Rightarrow> string \<Rightarrow> string" where
  "parse_basic 0 s = []"
| "parse_basic (Suc r) [] = []"
| "parse_basic (Suc r) (c # s) =
     (if c = CHR 0x22 then []
      else if c = CHR 0x5C \<and> s \<noteq> [] then unescape (hd s) # parse_basic r (tl s)
      else c # parse_basic r s)"

definition parse_basic_string :: "nat \<Rightarrow> string \<Rightarrow> string" where
  "parse_basic_string cap p = parse_basic (cap - 1) p"

text \<open>The whole text as an integer with at least one digit, as \<open>strtoll\<close> and the check of \<open>end\<close> accept it.\<close>

definition strtoll_all :: "string \<Rightarrow> int option" where
  "strtoll_all s =
     (let (v, rest) = strtol10 s in if rest = [] \<and> s \<noteq> [] \<and> is_digit 10 (last s) then Some v else None)"

definition parse_scalar :: "string \<Rightarrow> toml_value option" where
  "parse_scalar tok =
     (if tok \<noteq> [] \<and> hd tok = CHR 0x22 then Some (TOML_STRING (parse_basic_string 512 (tl tok)))
      else if tok \<noteq> [] \<and> hd tok = CHR 0x27
      then Some (TOML_STRING (take 511 (takeWhile (\<lambda>c. c \<noteq> CHR 0x27) (tl tok))))
      else if tok = ''true'' \<or> tok = ''false'' then Some (TOML_BOOL (hd tok = CHR ''t''))
      else map_option TOML_INT (strtoll_all (take 63 (filter (\<lambda>c. c \<noteq> CHR ''_'') tok))))"

section \<open>Arrays\<close>

text \<open>Up to and with the closing quote, at most \<open>room\<close> characters: what was taken, and the rest.\<close>

fun take_quoted :: "char \<Rightarrow> nat \<Rightarrow> string \<Rightarrow> string \<times> string" where
  "take_quoted q 0 s = ([], s)"
| "take_quoted q (Suc room) [] = ([], [])"
| "take_quoted q (Suc room) (c # s) =
     (if c = q then ([c], s) else (let (t, r) = take_quoted q room s in (c # t, r)))"

definition next_element :: "string \<Rightarrow> string \<times> string" where
  "next_element p =
     (if hd p = CHR 0x22 \<or> hd p = CHR 0x27
      then (let (t, r) = take_quoted (hd p) 254 (tl p) in (hd p # t, r))
      else (let t = take 255 (takeWhile (\<lambda>c. c \<noteq> CHR '','') p) in (t, drop (length t) p)))"

lemma take_quoted_length: "length (snd (take_quoted q n s)) \<le> length s"
  by (induction q n s rule: take_quoted.induct) (auto simp: case_prod_beta)

lemma next_element_shorter: "p \<noteq> [] \<Longrightarrow> hd p \<noteq> CHR '','' \<Longrightarrow> length (snd (next_element p)) < length p"
  using take_quoted_length [of "hd p" 254 "tl p"]
  by (cases p) (auto simp: next_element_def case_prod_beta Let_def)

lemma element_shorter:
  assumes "(tok, r) = next_element (dropWhile (\<lambda>c. is_space c \<or> c = CHR '','') body)"
    and "x \<in> set body" "\<not> is_space x" "x \<noteq> CHR '',''"
  shows "length r < length body"
proof -
  let ?p = "dropWhile (\<lambda>c. is_space c \<or> c = CHR '','') body"
  have ne: "?p \<noteq> []" using assms(2-4) by auto
  then have "hd ?p \<noteq> CHR '',''" using hd_dropWhile [OF ne] by auto
  then have "length (snd (next_element ?p)) < length ?p" by (rule next_element_shorter [OF ne])
  then have "length r < length ?p" by (simp add: assms(1) [symmetric])
  then show ?thesis using length_dropWhile_le [of "\<lambda>c. is_space c \<or> c = CHR '',''" body] by linarith
qed

function parse_array :: "string \<Rightarrow> toml_value list option" where
  "parse_array body =
     (let p = dropWhile (\<lambda>c. is_space c \<or> c = CHR '','') body in
      if p = [] then Some []
      else (let (tok, r) = next_element p; t = trim tok in
            if t = [] then parse_array r
            else (case parse_scalar t of
                    None \<Rightarrow> None
                  | Some v \<Rightarrow> map_option (Cons v) (parse_array r))))"
  by pat_completeness auto
termination
  by (relation "measure length") (auto dest: element_shorter)

declare parse_array.simps [simp del]

section \<open>Lines\<close>

definition before :: "char \<Rightarrow> string \<Rightarrow> string option" where
  "before c s = (if c \<in> set s then Some (takeWhile (\<lambda>d. d \<noteq> c) s) else None)"

definition before_last :: "char \<Rightarrow> string \<Rightarrow> string option" where
  "before_last c s = (if c \<in> set s then Some (rev (tl (dropWhile (\<lambda>d. d \<noteq> c) (rev s)))) else None)"

text \<open>One more block of the name: how many there were, or no room for another name.\<close>

definition add_atable :: "string \<Rightarrow> toml \<Rightarrow> (nat \<times> toml) option" where
  "add_atable name t =
     (case find (\<lambda>i. fst (t_atables t ! i) = name) [0..<length (t_atables t)] of
        Some i \<Rightarrow>
          (let (nm, k) = t_atables t ! i in Some (k, t\<lparr>t_atables := (t_atables t)[i := (nm, Suc k)]\<rparr>))
      | None \<Rightarrow>
          if length (t_atables t) \<ge> MAX_ATABLE_NAMES then None
          else Some (0, t\<lparr>t_atables := t_atables t @ [(take 63 name, 1)]\<rparr>))"

definition parse_value :: "nat \<Rightarrow> string \<Rightarrow> string \<Rightarrow> toml_error + toml_value" where
  "parse_value n key val =
     (if val \<noteq> [] \<and> hd val = CHR ''[''
      then (case before_last (CHR '']'') val of
              None \<Rightarrow> Inl (Unterminated_array n)
            | Some b \<Rightarrow> (case parse_array (tl b) of None \<Rightarrow> Inl (Bad_array n) | Some vs \<Rightarrow> Inr (TOML_ARRAY vs)))
      else (case parse_scalar val of None \<Rightarrow> Inl (Bad_value n key) | Some v \<Rightarrow> Inr v))"

definition parse_line :: "nat \<Rightarrow> string \<Rightarrow> toml \<times> string \<Rightarrow> toml_error + toml \<times> string" where
  "parse_line n line = (\<lambda>(t, sec).
     let s = trim (strip_comment (cstr line)) in
     if s = [] then Inr (t, sec)
     else if take 2 s = ''[[''
     then (case strstr s '']]'' of
             None \<Rightarrow> Inl (Malformed_atable n)
           | Some r \<Rightarrow>
               (let name = trim (drop 2 (take (length s - length r) s))
                in case add_atable name t of
                     None \<Rightarrow> Inl (Too_many_atables n)
                   | Some (k, t) \<Rightarrow> Inr (t, take 79 (name @ ''#'' @ fmt_d (int k)))))
     else if hd s = CHR ''[''
     then (case before (CHR '']'') s of
             None \<Rightarrow> Inl (Malformed_section n)
           | Some b \<Rightarrow> Inr (t, take 79 (trim (tl b))))
     else (case before (CHR ''='') s of
             None \<Rightarrow> Inl (Expected_key_value n)
           | Some k \<Rightarrow>
               (let key = trim k; val = trim (drop (Suc (length k)) s)
                in if key = [] then Inl (Empty_key n)
                   else if length (t_entries t) \<ge> MAX_ENTRIES then Inl Too_many_entries
                   else (case parse_value n key val of
                           Inl e \<Rightarrow> Inl e
                         | Inr v \<Rightarrow> Inr (t\<lparr>t_entries := t_entries t @ [(sec, take 63 key, v)]\<rparr>, sec)))))"

section \<open>Files\<close>

function fgets_lines :: "nat \<Rightarrow> string \<Rightarrow> string list" where
  "fgets_lines cap s =
     (if s = [] \<or> cap < 2 then []
      else (let n = min (cap - 1) (Suc (length (takeWhile (\<lambda>c. c \<noteq> CHR 0x0A) s)))
            in take n s # fgets_lines cap (drop n s)))"
  by pat_completeness auto
termination by (relation "measure (length \<circ> snd)") auto

declare fgets_lines.simps [simp del]

fun parse_lines :: "nat \<Rightarrow> string list \<Rightarrow> toml \<times> string \<Rightarrow> toml_error + toml" where
  "parse_lines n [] st = Inr (fst st)"
| "parse_lines n (l # ls) st =
     (case parse_line (Suc n) l st of Inl e \<Rightarrow> Inl e | Inr st \<Rightarrow> parse_lines (Suc n) ls st)"

definition toml_parse :: "string option \<Rightarrow> toml_error + toml" where
  "toml_parse file =
     (case file of
        None \<Rightarrow> Inl Not_found
      | Some s \<Rightarrow> parse_lines 0 (fgets_lines 1024 s) (\<lparr>t_entries = [], t_atables = []\<rparr>, []))"

definition toml_get :: "toml \<Rightarrow> string \<Rightarrow> string \<Rightarrow> toml_value option" where
  "toml_get t section key =
     map_option (\<lambda>(_, _, v). v) (find (\<lambda>(s, k, _). s = section \<and> k = key) (t_entries t))"

definition toml_array_len :: "toml \<Rightarrow> string \<Rightarrow> nat" where
  "toml_array_len t name = (case map_of (t_atables t) name of Some k \<Rightarrow> k | None \<Rightarrow> 0)"

section \<open>No NUL in a string\<close>

text \<open>A line ends at its first NUL, so no string value holds one.\<close>

definition string_ok :: "toml_value \<Rightarrow> bool" where
  "string_ok v \<longleftrightarrow> (\<forall>s. v = TOML_STRING s \<longrightarrow> CHR 0x00 \<notin> set s)"

definition strings_ok :: "toml \<Rightarrow> bool" where
  "strings_ok t \<longleftrightarrow> (\<forall>(_, _, v) \<in> set (t_entries t). string_ok v)"

lemma set_trim: "set (trim s) \<subseteq> set s"
  by (auto simp: trim_def dest!: set_dropWhileD)

lemma set_strip: "set (strip_from b l s) \<subseteq> set s"
proof -
  have "x \<in> set (strip_from b l s) \<Longrightarrow> x \<in> set s" for x
    by (induction b l s rule: strip_from.induct) (auto split: if_splits)
  then show ?thesis by auto
qed

lemma parse_basic_nul: "CHR 0x00 \<notin> set s \<Longrightarrow> CHR 0x00 \<notin> set (parse_basic r s)"
proof (induction r s rule: parse_basic.induct)
  case (3 r c s)
  have "CHR 0x00 \<noteq> unescape (hd s) \<and> CHR 0x00 \<notin> set (tl s)" if "s \<noteq> []"
    using that 3(3) by (cases s) (auto simp: unescape_def)
  then show ?case using 3 by auto
qed simp_all

lemma parse_scalar_string_ok: "CHR 0x00 \<notin> set tok \<Longrightarrow> parse_scalar tok = Some v \<Longrightarrow> string_ok v"
  by (cases tok) (auto simp: parse_scalar_def string_ok_def parse_basic_string_def parse_basic_nul
      split: if_splits dest!: in_set_takeD set_takeWhileD)

lemma add_atable_entries: "add_atable name t = Some (k, t') \<Longrightarrow> t_entries t' = t_entries t"
  by (auto simp: add_atable_def Let_def split: option.splits prod.splits if_splits)

lemma parse_value_string_ok: "CHR 0x00 \<notin> set val \<Longrightarrow> parse_value n key val = Inr v \<Longrightarrow> string_ok v"
  by (auto simp: parse_value_def string_ok_def split: if_splits option.splits
      dest: parse_scalar_string_ok [unfolded string_ok_def])

lemma parse_line_strings_ok:
  assumes "strings_ok t" "parse_line n line (t, sec) = Inr (t', sec')"
  shows "strings_ok t'"
proof -
  let ?s = "trim (strip_comment (cstr line))"
  have "CHR 0x00 \<notin> set (cstr line)" by (auto simp: cstr_def dest: set_takeWhileD)
  then have s: "CHR 0x00 \<notin> set ?s" using set_trim set_strip by (fastforce simp: strip_comment_def)
  have v: "CHR 0x00 \<notin> set (trim (drop k ?s))" for k using s set_trim in_set_dropD by fastforce
  show ?thesis
    using assms parse_value_string_ok [OF v]
    by (auto simp: parse_line_def Let_def strings_ok_def add_atable_entries
        split: if_splits option.splits prod.splits sum.splits)
qed

lemma parse_lines_strings_ok: "strings_ok (fst st) \<Longrightarrow> parse_lines n ls st = Inr t \<Longrightarrow> strings_ok t"
  by (induction n ls st rule: parse_lines.induct) (auto split: sum.splits dest: parse_line_strings_ok)

lemma toml_parse_strings_ok: "toml_parse file = Inr t \<Longrightarrow> strings_ok t"
  by (auto simp: toml_parse_def strings_ok_def split: option.splits dest!: parse_lines_strings_ok [rotated])

lemma toml_get_string_ok:
  assumes "strings_ok t" "toml_get t sec key = Some v"
  shows "string_ok v"
proof -
  obtain e where "find (\<lambda>(s, k, _). s = sec \<and> k = key) (t_entries t) = Some e" "v = snd (snd e)"
    using assms(2) by (auto simp: toml_get_def)
  then have "e \<in> set (t_entries t)" by (auto simp: find_Some_iff in_set_conv_nth)
  then show ?thesis using assms(1) \<open>v = snd (snd e)\<close> by (auto simp: strings_ok_def case_prod_beta)
qed

section \<open>Writing values\<close>

text \<open>How a value has to be written for the reader to give it back.\<close>

definition escape :: "char \<Rightarrow> string" where
  "escape c = (if c = CHR 0x22 \<or> c = CHR 0x5C then [CHR 0x5C, c]
     else if c = CHR 0x0A then [CHR 0x5C, CHR ''n''] else if c = CHR 0x09 then [CHR 0x5C, CHR ''t'']
     else if c = CHR 0x0D then [CHR 0x5C, CHR ''r''] else [c])"

definition quote :: "string \<Rightarrow> string" where
  "quote s = CHR 0x22 # concat (map escape s) @ [CHR 0x22]"

lemma parse_basic_escaped: "parse_basic room (concat (map escape s) @ CHR 0x22 # rest) = take room s"
proof (induction s arbitrary: room)
  case Nil
  then show ?case by (cases room) simp_all
next
  case (Cons c s)
  then show ?case by (cases room) (simp_all add: escape_def unescape_def)
qed

lemma parse_scalar_quote: "parse_scalar (quote s @ rest) = Some (TOML_STRING (take 511 s))"
  by (simp add: parse_scalar_def quote_def parse_basic_string_def parse_basic_escaped)

lemma digit_chars: "is_digit 10 c \<Longrightarrow> c \<noteq> CHR ''_'' \<and> c \<noteq> CHR 0x22 \<and> c \<noteq> CHR 0x27 \<and> c \<noteq> CHR ''t'' \<and> c \<noteq> CHR ''f'' \<and>
    c \<noteq> CHR ''#'' \<and> c \<noteq> CHR ''['' \<and> c \<noteq> CHR ''=''"
  by (auto simp: is_digit_def digit_value_def Let_def)

lemma strtol10_fmt:
  assumes "- (2 ^ 63) \<le> i" "i < 2 ^ 63"
  shows "strtol10 (fmt_d i) = (i, [])"
proof -
  have ds: "\<forall>c \<in> set (show_nat 10 n). is_digit 10 c" for n by (rule all_digits_show) simp_all
  have tw: "takeWhile (is_digit 10) (show_nat 10 n) = show_nat 10 n" for n using ds by simp
  have ld: "dropWhile is_space (show_nat 10 n) = show_nat 10 n" "take_sign (show_nat 10 n) = (False, show_nat 10 n)" for n
    using leading_digits [OF ds, of n "[]"] by simp_all
  have mi: "take_sign (CHR ''-'' # r) = (True, r)" "\<not> is_space (CHR ''-'')" for r
    by (simp_all add: take_sign_def is_space_def)
  show ?thesis
    using assms by (cases "i < 0") (simp_all add: fmt_d_def strtol10_def Let_def tw ld mi digits_value_show)
qed

lemma parse_scalar_fmt:
  assumes "- (2 ^ 63) \<le> i" "i < 2 ^ 63"
  shows "parse_scalar (fmt_d i) = Some (TOML_INT i)"
proof -
  let ?s = "fmt_d i"
  have ds: "\<forall>c \<in> set (show_nat 10 n). is_digit 10 c" for n by (rule all_digits_show) simp_all
  have cs: "\<forall>c \<in> set ?s. c = CHR ''-'' \<or> is_digit 10 c" using ds by (auto simp: fmt_d_def)
  have ne: "?s \<noteq> []" by (simp add: fmt_d_def)
  have hd: "hd ?s = CHR ''-'' \<or> is_digit 10 (hd ?s)" using cs ne by simp
  have "is_digit 10 (last (show_nat 10 n))" for n using ds last_in_set [OF show_nat_nonempty] by blast
  then have la: "is_digit 10 (last ?s)" by (simp add: fmt_d_def)
  have "\<forall>c \<in> set ?s. c \<noteq> CHR ''_''" using cs digit_chars by force
  then have fi: "filter (\<lambda>c. c \<noteq> CHR ''_'') ?s = ?s" by simp
  have "nat \<bar>i\<bar> < 10 ^ 62" using assms by (simp add: nat_less_iff)
  then have "length (show_nat 10 (nat \<bar>i\<bar>)) \<le> 62" by (intro length_show_nat) simp_all
  then have "length ?s \<le> 63" by (auto simp: fmt_d_def)
  then have ta: "take 63 ?s = ?s" by simp
  have "?s \<noteq> ''true''" "?s \<noteq> ''false''" using hd digit_chars [of "hd ?s"] by auto
  then show ?thesis
    using ne hd digit_chars [of "hd ?s"] la
    by (auto simp: parse_scalar_def fi ta strtoll_all_def strtol10_fmt [OF assms])
qed

section \<open>Files of lines\<close>

definition file_of :: "string list \<Rightarrow> string" where
  "file_of ls = concat (map (\<lambda>l. l @ [CHR 0x0A]) ls)"

lemma fgets_file:
  assumes "list_all (\<lambda>l. CHR 0x0A \<notin> set l \<and> length l + 1 < cap) ls"
  shows "fgets_lines cap (file_of ls) = map (\<lambda>l. l @ [CHR 0x0A]) ls"
  using assms
proof (induction ls)
  case (Cons l ls)
  have "takeWhile (\<lambda>c. c \<noteq> CHR 0x0A) (l @ [CHR 0x0A] @ file_of ls) = l"
    using Cons.prems by (subst takeWhile_append2) auto
  moreover have "min (cap - 1) (Suc (length l)) = Suc (length l)" "2 \<le> cap" using Cons.prems by auto
  ultimately show ?case
    using Cons by (subst fgets_lines.simps) (simp add: file_of_def Let_def)
qed (simp add: file_of_def fgets_lines.simps)

section \<open>Setting lines\<close>

definition bare :: "char \<Rightarrow> bool" where
  "bare c \<longleftrightarrow> is_digit 36 c \<or> c = CHR ''_'' \<or> c = CHR ''-''"

text \<open>A key as the sample configuration writes them.\<close>

definition bare_key :: "string \<Rightarrow> bool" where
  "bare_key key \<longleftrightarrow> key \<noteq> [] \<and> list_all bare key \<and> length key \<le> 63"

lemma bare_char:
  "bare c \<Longrightarrow> c \<noteq> CHR 0x00 \<and> c \<noteq> CHR 0x22 \<and> c \<noteq> CHR 0x27 \<and> c \<noteq> CHR ''#'' \<and> c \<noteq> CHR ''='' \<and> c \<noteq> CHR ''['' \<and> \<not> is_space c"
  by (auto simp: bare_def is_digit_def digit_value_def is_space_def Let_def)

text \<open>Characters that neither open a string nor start a comment.\<close>

lemma strip_plain:
  "\<forall>c \<in> set s. c \<noteq> CHR 0x22 \<and> c \<noteq> CHR 0x27 \<and> c \<noteq> CHR ''#'' \<Longrightarrow>
     strip_from False False (s @ r) = s @ strip_from False False r"
  by (induction s) auto

lemma strip_in_quotes:
  "\<forall>c \<in> set s. c \<noteq> CHR 0x22 \<Longrightarrow> strip_from True False (s @ CHR 0x22 # r) = s @ CHR 0x22 # strip_from False False r"
  by (induction s) auto

lemma dropWhile_front: "\<forall>c \<in> set l. P c \<Longrightarrow> r \<noteq> [] \<Longrightarrow> \<not> P (hd r) \<Longrightarrow> dropWhile P (l @ r) = r"
  by (induction l) (cases r, simp_all)+

lemma trim_spaces:
  assumes "\<forall>c \<in> set l. is_space c" "\<forall>c \<in> set r. is_space c" "s \<noteq> []" "\<not> is_space (hd s)" "\<not> is_space (last s)"
  shows "trim (l @ s @ r) = s"
proof -
  have "dropWhile is_space (l @ s @ r) = s @ r" using assms by (intro dropWhile_front) simp_all
  moreover have "dropWhile is_space (rev r @ rev s) = rev s"
    using assms by (intro dropWhile_front) (simp_all add: hd_rev)
  ultimately show ?thesis by (simp add: trim_def)
qed

lemma before_first: "c \<notin> set a \<Longrightarrow> before c (a @ c # b) = Some a"
proof -
  assume "c \<notin> set a"
  then have "takeWhile (\<lambda>d. d \<noteq> c) (a @ c # b) = a" by (induction a) auto
  then show ?thesis by (simp add: before_def)
qed

lemma cstr_front: "CHR 0x00 \<notin> set a \<Longrightarrow> cstr (a @ b) = a @ cstr b"
  by (induction a) (auto simp: cstr_def)

text \<open>What is left of the value when the comment is gone may end in white space.\<close>

lemma parse_setting_raw:
  assumes "bare_key key" "strip_from False False (cstr raw) = val @ w" "\<forall>c \<in> set w. is_space c"
    and "val \<noteq> []" "\<not> is_space (hd val)" "\<not> is_space (last val)" "hd val \<noteq> CHR ''[''"
    and "parse_scalar val = Some v" "length (t_entries t) < MAX_ENTRIES"
  shows "parse_line n (key @ '' = '' @ raw) (t, sec) = Inr (t\<lparr>t_entries := t_entries t @ [(sec, key, v)]\<rparr>, sec)"
proof -
  have k: "key \<noteq> []" "\<forall>c \<in> set key. bare c" "length key \<le> 63" using assms(1) by (simp_all add: bare_key_def list_all_iff)
  then have kc: "\<forall>c \<in> set key. c \<noteq> CHR 0x00 \<and> c \<noteq> CHR 0x22 \<and> c \<noteq> CHR 0x27 \<and> c \<noteq> CHR ''#'' \<and> c \<noteq> CHR ''='' \<and>
      c \<noteq> CHR ''['' \<and> \<not> is_space c" using bare_char by blast
  have eq: "\<not> is_space (CHR ''='')" "is_space (CHR '' '')" by (simp_all add: is_space_def)
  have "CHR 0x00 \<notin> set (key @ '' = '')" using kc by auto
  then have c: "cstr (key @ '' = '' @ raw) = key @ '' = '' @ cstr raw" using cstr_front [of "key @ '' = ''" raw] by simp
  have st: "strip_comment (key @ '' = '' @ cstr raw) = key @ '' = '' @ val @ w"
    unfolding strip_comment_def using kc assms(2) by (subst strip_plain) auto
  have tr: "trim (key @ '' = '' @ val @ w) = key @ '' = '' @ val"
    using trim_spaces [of "[]" w "key @ '' = '' @ val"] kc k(1) assms(3,4,6) by (simp add: hd_append)
  have two: "take 2 (key @ '' = '' @ val) \<noteq> ''[[''" "hd (key @ '' = '' @ val) \<noteq> CHR ''[''"
    using kc k(1) by (cases key; auto)+
  have bf: "before (CHR ''='') (key @ '' = '' @ val) = Some (key @ '' '')"
    using before_first [of "CHR ''=''" "key @ '' ''" "CHR '' '' # val"] kc by auto
  have tk: "trim (key @ '' '') = key"
    using trim_spaces [of "[]" "'' ''" key] kc k(1) eq(2) by simp
  have tv: "trim (CHR '' '' # val) = val"
    using trim_spaces [of "'' ''" "[]" val] assms(4-6) eq(2) by simp
  have pv: "parse_value n key val = Inr v" using assms(7,8) by (simp add: parse_value_def)
  show ?thesis
    using k two assms(9) unfolding parse_line_def c st tr
    by (simp add: Let_def bf [simplified] tk tv pv)
qed

lemma parse_setting:
  assumes "bare_key key" "val \<noteq> []" "\<not> is_space (hd val)" "\<not> is_space (last val)" "CHR 0x00 \<notin> set val"
    and "strip_from False False (val @ [CHR 0x0A]) = val @ [CHR 0x0A]" "hd val \<noteq> CHR ''[''"
    and "parse_scalar val = Some v" "length (t_entries t) < MAX_ENTRIES"
  shows "parse_line n (key @ '' = '' @ val @ [CHR 0x0A]) (t, sec) =
     Inr (t\<lparr>t_entries := t_entries t @ [(sec, key, v)]\<rparr>, sec)"
proof (rule parse_setting_raw [OF assms(1)])
  have "cstr (val @ [CHR 0x0A]) = val @ [CHR 0x0A]" using cstr_front [OF assms(5), of "[CHR 0x0A]"] by (simp add: cstr_def)
  then show "strip_from False False (cstr (val @ [CHR 0x0A])) = val @ [CHR 0x0A]" using assms(6) by simp
qed (use assms in \<open>simp_all add: is_space_def\<close>)

lemma escape_chars: "c \<in> set (escape d) \<Longrightarrow> c = d \<or> c \<in> {CHR 0x5C, CHR ''n'', CHR ''t'', CHR ''r''}"
  by (auto simp: escape_def split: if_splits)

text \<open>
  C40: a setting line written as \<open>key = value\<close> is read back: a string value that holds no double quote
  comes back as it was, whatever comment characters, backslashes or line breaks it holds, up to the
  511 characters of the reader's buffer, and an integer of 64 bits as that integer.
\<close>

theorem setting_roundtrip:
  assumes "bare_key key" "CHR 0x22 \<notin> set s" "CHR 0x00 \<notin> set s" "length (t_entries t) < MAX_ENTRIES"
    and "- (2 ^ 63) \<le> i" "i < 2 ^ 63"
  shows "parse_line n (key @ '' = '' @ quote s @ [CHR 0x0A]) (t, sec) =
      Inr (t\<lparr>t_entries := t_entries t @ [(sec, key, TOML_STRING (take 511 s))]\<rparr>, sec) \<and>
    parse_line n (key @ '' = '' @ fmt_d i @ [CHR 0x0A]) (t, sec) =
      Inr (t\<lparr>t_entries := t_entries t @ [(sec, key, TOML_INT i)]\<rparr>, sec)"
proof
  let ?e = "concat (map escape s)"
  have e: "\<forall>c \<in> set ?e. c \<noteq> CHR 0x22" "CHR 0x00 \<notin> set ?e"
    using assms(2,3) escape_chars by fastforce+
  have "strip_from False False (quote s @ [CHR 0x0A]) = quote s @ [CHR 0x0A]"
    using strip_in_quotes [OF e(1), of "[CHR 0x0A]"] by (simp add: quote_def)
  moreover have "parse_scalar (quote s) = Some (TOML_STRING (take 511 s))"
    using parse_scalar_quote [of s "[]"] by simp
  ultimately show "parse_line n (key @ '' = '' @ quote s @ [CHR 0x0A]) (t, sec) =
      Inr (t\<lparr>t_entries := t_entries t @ [(sec, key, TOML_STRING (take 511 s))]\<rparr>, sec)"
    using e(2) assms(1,4) by (intro parse_setting) (auto simp: quote_def is_space_def)
next
  have ds: "\<forall>c \<in> set (show_nat 10 k). is_digit 10 c" for k by (rule all_digits_show) simp_all
  then have cs: "\<forall>c \<in> set (fmt_d i). c = CHR ''-'' \<or> is_digit 10 c" by (auto simp: fmt_d_def)
  have ne: "fmt_d i \<noteq> []" by (simp add: fmt_d_def)
  have dg: "c = CHR ''-'' \<or> is_digit 10 c \<Longrightarrow> \<not> is_space c \<and> c \<noteq> CHR 0x00 \<and> c \<noteq> CHR 0x22 \<and> c \<noteq> CHR 0x27 \<and>
      c \<noteq> CHR ''#'' \<and> c \<noteq> CHR ''[''" for c
    by (auto simp: is_space_def is_digit_def digit_value_def Let_def)
  have "strip_from False False (fmt_d i @ [CHR 0x0A]) = fmt_d i @ [CHR 0x0A]"
    using strip_plain [of "fmt_d i" "[CHR 0x0A]"] cs dg by auto
  then show "parse_line n (key @ '' = '' @ fmt_d i @ [CHR 0x0A]) (t, sec) =
      Inr (t\<lparr>t_entries := t_entries t @ [(sec, key, TOML_INT i)]\<rparr>, sec)"
    using cs dg ne hd_in_set [OF ne] last_in_set [OF ne] assms(1,4) parse_scalar_fmt [OF assms(5,6)]
    by (intro parse_setting) blast+
qed

lemma setting_roundtrip_witness:
  "parse_line 1 (''passphrase'' @ '' = '' @ quote ''a#b'' @ [CHR 0x0A]) (\<lparr>t_entries = [], t_atables = []\<rparr>, ''openbridge#0'') =
     Inr (\<lparr>t_entries = [(''openbridge#0'', ''passphrase'', TOML_STRING ''a#b'')], t_atables = []\<rparr>, ''openbridge#0'')"
proof -
  have b: "bare_key ''passphrase''" by (simp add: bare_key_def bare_def is_digit_def digit_value_def)
  show ?thesis
    using setting_roundtrip [OF b, of "''a#b''" "\<lparr>t_entries = [], t_atables = []\<rparr>" 0 1 "''openbridge#0''"]
    by (simp add: MAX_ENTRIES_def del: append.simps)
qed




end
