(* ===== verification/Config.thy ===== *)
theory Config
  imports Config_Types Toml
begin

text \<open>
  \<open>config.c\<close>: loading and validating the configuration, and the reload that takes over the
  toggles only.  Each reading function returns its value and the errors it adds; the order of the
  errors is that of the source.
\<close>

section \<open>Errors\<close>

datatype cfg_error =
    Required string string
  | Not_a_string string string
  | Invalid_choice string string string
  | Not_an_integer string string
  | Too_small string string int int
  | Too_large string string int int
  | Not_a_bool string string
  | Not_an_ipv4 string string string
  | Too_many string nat
  | Duplicate_peer_name string nat nat
  | Shared_bind_port string string int
  | Unknown_system string string
  | Duplicate_link_name string nat nat
  | Duplicate_route string int string string
  | Duplicate_inbound string int string string

datatype load_error = Parse_failed toml_error | Config_errors "cfg_error list"

section \<open>Typed access\<close>

definition str_to_upper :: "string \<Rightarrow> string" where
  "str_to_upper s = map to_upper s"

definition trimcpy :: "nat \<Rightarrow> string \<Rightarrow> string" where
  "trimcpy cap src = take (cap - 1) (trim src)"

text \<open>A default is copied into the buffer like the value; without one the buffer is empty.\<close>

definition get_str :: "toml \<Rightarrow> string \<Rightarrow> string \<Rightarrow> bool \<Rightarrow> string \<Rightarrow> nat \<Rightarrow> string \<times> cfg_error list" where
  "get_str t sec key req deflt cap =
     (case toml_get t sec key of
        None \<Rightarrow> (take (cap - 1) deflt, if req then [Required sec key] else [])
      | Some v \<Rightarrow>
          (case v of
             TOML_STRING s \<Rightarrow> (trimcpy cap s, [])
           | _ \<Rightarrow> (take (cap - 1) deflt, [Not_a_string sec key])))"

definition get_choice ::
  "toml \<Rightarrow> string \<Rightarrow> string \<Rightarrow> bool \<Rightarrow> string \<Rightarrow> string list \<Rightarrow> nat \<Rightarrow> string \<times> cfg_error list" where
  "get_choice t sec key req deflt choices cap =
     (case toml_get t sec key of
        None \<Rightarrow> (take (cap - 1) deflt, if req then [Required sec key] else [])
      | Some v \<Rightarrow>
          (case v of
             TOML_STRING s \<Rightarrow>
               (let tmp = str_to_upper (trimcpy 64 s)
                in if tmp \<in> set choices then (take (cap - 1) tmp, [])
                   else (take (cap - 1) deflt, [Invalid_choice sec key s]))
           | _ \<Rightarrow> (take (cap - 1) deflt, [Not_a_string sec key])))"

definition get_int ::
  "toml \<Rightarrow> string \<Rightarrow> string \<Rightarrow> bool \<Rightarrow> int \<Rightarrow> int option \<Rightarrow> int option \<Rightarrow> int \<times> cfg_error list" where
  "get_int t sec key req deflt mn mx =
     (case toml_get t sec key of
        None \<Rightarrow> (deflt, if req then [Required sec key] else [])
      | Some v \<Rightarrow>
          (case v of
             TOML_INT i \<Rightarrow>
               (i, (case mn of Some m \<Rightarrow> if i < m then [Too_small sec key m i] else [] | None \<Rightarrow> []) @
                   (case mx of Some m \<Rightarrow> if i > m then [Too_large sec key m i] else [] | None \<Rightarrow> []))
           | _ \<Rightarrow> (deflt, [Not_an_integer sec key])))"

definition get_bool :: "toml \<Rightarrow> string \<Rightarrow> string \<Rightarrow> bool \<Rightarrow> bool \<Rightarrow> bool \<times> cfg_error list" where
  "get_bool t sec key req deflt =
     (case toml_get t sec key of
        None \<Rightarrow> (deflt, if req then [Required sec key] else [])
      | Some v \<Rightarrow> (case v of TOML_BOOL b \<Rightarrow> (b, []) | _ \<Rightarrow> (deflt, [Not_a_bool sec key])))"

text \<open>
  \<open>inet_pton\<close> for \<open>AF_INET\<close>: four decimal numbers up to 255 without leading zeros, with dots
  between them.  \<open>octets\<close> counts the numbers begun, \<open>cur\<close> is the one being read.
\<close>

fun ipv4_scan :: "nat \<Rightarrow> nat option \<Rightarrow> string \<Rightarrow> bool" where
  "ipv4_scan octets cur [] = (octets = 4 \<and> cur \<noteq> None)"
| "ipv4_scan octets cur (c # s) =
     (if is_digit 10 c
      then let d = digits_value 10 [c] in
        (case cur of
           None \<Rightarrow> octets < 4 \<and> ipv4_scan (Suc octets) (Some d) s
         | Some v \<Rightarrow> v \<noteq> 0 \<and> 10 * v + d \<le> 255 \<and> ipv4_scan octets (Some (10 * v + d)) s)
      else c = CHR ''.'' \<and> cur \<noteq> None \<and> octets < 4 \<and> ipv4_scan octets None s)"

definition is_valid_ipv4 :: "string \<Rightarrow> bool" where
  "is_valid_ipv4 s = ipv4_scan 0 None s"

definition check_ip :: "string \<Rightarrow> string \<Rightarrow> string \<Rightarrow> cfg_error list" where
  "check_ip sec key ip = (if ip \<noteq> [] \<and> \<not> is_valid_ipv4 ip then [Not_an_ipv4 sec key ip] else [])"

section \<open>OpenBridge peers\<close>

definition port_range :: "int option" where "port_range = Some 65535"

definition load_peer :: "toml \<Rightarrow> nat \<Rightarrow> obp_peer_config \<times> cfg_error list" where
  "load_peer t i =
     (let sec = take 79 (''openbridge#'' @ fmt_d (int i));
          (name, e1) = get_str t sec ''name'' True [] 64;
          (enabled, e2) = get_bool t sec ''enabled'' False True;
          (ip, e3) = get_str t sec ''peer_ip'' True [] 64;
          (pport, e4) = get_int t sec ''peer_port'' True 0 (Some 1) port_range;
          (bport, e5) = get_int t sec ''bind_port'' True 0 (Some 1) port_range;
          (nid, e6) = get_int t sec ''network_id'' True 0 (Some 0) None;
          (pres, e7) = get_bool t sec ''preserve_source_peer'' False False;
          (pp, e8) = get_str t sec ''passphrase'' True [] 256
      in (\<lparr>o_name = name, o_enabled = enabled, o_peer_ip = ip, o_peer_port = to_int32 pport,
           o_bind_port = to_int32 bport, o_network_id = of_int nid, o_passphrase = pp,
           o_preserve_source_peer = pres\<rparr>,
          e1 @ e2 @ e3 @ check_ip sec ''peer_ip'' ip @ e4 @ e5 @ e6 @ e7 @ e8))"

text \<open>All pairs of places in the order of the nested loops.\<close>

definition pairs :: "nat \<Rightarrow> (nat \<times> nat) list" where
  "pairs n = concat (map (\<lambda>i. map (Pair i) [Suc i..<n]) [0..<n])"

definition peer_errors :: "obp_peer_config list \<Rightarrow> cfg_error list" where
  "peer_errors ps =
     map (\<lambda>(i, j). Duplicate_peer_name (o_name (ps ! i)) i j)
       (filter (\<lambda>(i, j). o_name (ps ! i) \<noteq> [] \<and> o_name (ps ! i) = o_name (ps ! j)) (pairs (length ps))) @
     map (\<lambda>(i, j). Shared_bind_port (o_name (ps ! i)) (o_name (ps ! j)) (o_bind_port (ps ! i)))
       (filter (\<lambda>(i, j). o_enabled (ps ! i) \<and> o_enabled (ps ! j) \<and> o_bind_port (ps ! i) = o_bind_port (ps ! j))
         (pairs (length ps)))"

definition load_openbridge :: "toml \<Rightarrow> obp_peer_config list \<times> cfg_error list" where
  "load_openbridge t =
     (let n = toml_array_len t ''openbridge'';
          rs = map (load_peer t) [0..<min n CFG_MAX_OPENBRIDGE];
          ps = map fst rs
      in (ps, (if n > CFG_MAX_OPENBRIDGE then [Too_many ''openbridge'' n] else []) @
              concat (map snd rs) @ peer_errors ps))"

section \<open>Links\<close>

definition find_openbridge :: "obp_peer_config list \<Rightarrow> string \<Rightarrow> int" where
  "find_openbridge ps name =
     (case find (\<lambda>i. o_name (ps ! i) = name) [0..<length ps] of Some i \<Rightarrow> int i | None \<Rightarrow> - 1)"

definition load_link :: "toml \<Rightarrow> obp_peer_config list \<Rightarrow> nat \<Rightarrow> link_config \<times> cfg_error list" where
  "load_link t ps i =
     (let sec = take 79 (''link#'' @ fmt_d (int i));
          (name, e1) = get_str t sec ''name'' True [] 64;
          (enabled, e2) = get_bool t sec ''enabled'' False True;
          (cx, e3) = get_bool t sec ''cross_connect_active'' False True;
          (tgid, e4) = get_int t sec ''tgid'' True 0 (Some 0) None;
          (system, e5) = get_str t sec ''openbridge_system'' True [] 64;
          idx = find_openbridge ps system;
          e6 = (if system \<noteq> [] \<and> idx < 0 then [Unknown_system sec system] else []);
          (role, e7) = get_choice t sec ''cc_role'' True ''OUTBOUND'' [''OUTBOUND'', ''INBOUND''] 16;
          outb = (role \<noteq> ''INBOUND'');
          (lid, e8) = get_int t sec ''cc_lid'' True 0 (Some 0) None;
          (ip, e9) = get_str t sec ''cc_remote_ip'' True [] 64;
          (rport, e10) = (if outb then get_int t sec ''cc_remote_port'' True 0 (Some 1) port_range else (- 1, []));
          (vport, e11) = get_int t sec ''cc_remote_voice_port'' True 0 (Some 1) port_range;
          (chan, e12) = get_str t sec ''cc_channel_name'' outb [] 128
      in (\<lparr>l_name = name, l_enabled = enabled, l_cross_connect_active = cx, l_tgid = to_int32 tgid,
           l_openbridge_system = system, l_openbridge_idx = idx,
           l_cc_role = (if outb then CC_ROLE_OUTBOUND else CC_ROLE_INBOUND), l_cc_lid = to_int32 lid,
           l_cc_remote_ip = ip, l_cc_remote_port = to_int32 rport, l_cc_remote_voice_port = to_int32 vport,
           l_cc_channel_name = chan\<rparr>,
          e1 @ e2 @ e3 @ e4 @ e5 @ e6 @ e7 @ e8 @ e9 @ check_ip sec ''cc_remote_ip'' ip @ e10 @ e11 @ e12))"

definition link_errors :: "link_config list \<Rightarrow> cfg_error list" where
  "link_errors ls =
     map (\<lambda>(i, j). Duplicate_link_name (l_name (ls ! i)) i j)
       (filter (\<lambda>(i, j). l_name (ls ! i) \<noteq> [] \<and> l_name (ls ! i) = l_name (ls ! j)) (pairs (length ls))) @
     map (\<lambda>(i, j). Duplicate_route (l_openbridge_system (ls ! i)) (l_tgid (ls ! i)) (l_name (ls ! i)) (l_name (ls ! j)))
       (filter (\<lambda>(i, j). 0 \<le> l_openbridge_idx (ls ! i) \<and> l_openbridge_idx (ls ! i) = l_openbridge_idx (ls ! j) \<and>
          l_tgid (ls ! i) = l_tgid (ls ! j)) (pairs (length ls))) @
     map (\<lambda>(i, j). Duplicate_inbound (l_cc_remote_ip (ls ! i)) (l_cc_lid (ls ! i)) (l_name (ls ! i)) (l_name (ls ! j)))
       (filter (\<lambda>(i, j). l_cc_role (ls ! i) = CC_ROLE_INBOUND \<and> l_cc_role (ls ! j) = CC_ROLE_INBOUND \<and>
          l_cc_remote_ip (ls ! i) = l_cc_remote_ip (ls ! j) \<and> l_cc_lid (ls ! i) = l_cc_lid (ls ! j)) (pairs (length ls)))"

definition load_links :: "toml \<Rightarrow> obp_peer_config list \<Rightarrow> link_config list \<times> cfg_error list" where
  "load_links t ps =
     (let n = toml_array_len t ''link'';
          rs = map (load_link t ps) [0..<min n CFG_MAX_LINKS];
          ls = map fst rs
      in (ls, (if n > CFG_MAX_LINKS then [Too_many ''link'' n] else []) @ concat (map snd rs) @ link_errors ls))"

section \<open>Loading\<close>

definition config_load :: "string option \<Rightarrow> load_error + config" where
  "config_load file =
     (case toml_parse file of
        Inl e \<Rightarrow> Inl (Parse_failed e)
      | Inr t \<Rightarrow>
          (let (lvl, e1) = get_choice t ''global'' ''log_level'' False ''INFO'' [''DEBUG'', ''INFO'', ''WARNING'', ''ERROR''] 16;
               (site, e2) = get_str t ''global'' ''cc_site_name'' False ''cc2obp'' 128;
               (mac, e3) = get_str t ''global'' ''cc_mac_address'' False ''000000000000'' 32;
               (rev, e4) = get_str t ''global'' ''cc_code_revision'' False ''10252'' 32;
               (ver, e5) = get_str t ''global'' ''cc_version'' False ''cc2obp'' 128;
               (os, e6) = get_str t ''global'' ''cc_os_version'' False ''Linux'' 128;
               (ka, e7) = get_int t ''global'' ''cc_keepalive_interval'' False 10 (Some 1) (Some 300);
               (lt, e8) = get_int t ''global'' ''cc_link_timeout'' False 35 (Some 1) (Some 3600);
               (ps, e9) = load_openbridge t;
               (ls, e10) = load_links t ps;
               errs = e1 @ e2 @ e3 @ e4 @ e5 @ e6 @ e7 @ e8 @ e9 @ e10
           in if errs \<noteq> [] then Inl (Config_errors errs)
              else Inr \<lparr>c_log_level = (case log_level_from_str lvl of Some k \<Rightarrow> k | None \<Rightarrow> LOG_INFO),
                c_site_name = site, c_mac_address = mac, c_code_revision = rev, c_version = ver,
                c_os_version = os, c_keepalive_interval = of_int ka, c_link_timeout = of_int lt,
                c_openbridge = ps, c_link = ls\<rparr>))"

text \<open>The pairs of outbound links that the soft check warns of.\<close>

definition config_warn_soft_issues :: "config \<Rightarrow> (nat \<times> nat) list" where
  "config_warn_soft_issues c =
     filter (\<lambda>(i, j). l_cc_role (c_link c ! i) = CC_ROLE_OUTBOUND \<and> l_cc_role (c_link c ! j) = CC_ROLE_OUTBOUND \<and>
        l_cc_remote_ip (c_link c ! i) = l_cc_remote_ip (c_link c ! j) \<and>
        l_cc_remote_port (c_link c ! i) = l_cc_remote_port (c_link c ! j) \<and>
        l_cc_lid (c_link c ! i) = l_cc_lid (c_link c ! j)) (pairs (n_link c))"

section \<open>Reload\<close>

definition toggle_peer :: "obp_peer_config list \<Rightarrow> obp_peer_config \<Rightarrow> obp_peer_config" where
  "toggle_peer fresh p =
     (case find (\<lambda>f. o_name f = o_name p) fresh of None \<Rightarrow> p | Some f \<Rightarrow> p\<lparr>o_enabled := o_enabled f\<rparr>)"

definition toggle_link :: "link_config list \<Rightarrow> link_config \<Rightarrow> link_config" where
  "toggle_link fresh l =
     (case find (\<lambda>f. l_name f = l_name l) fresh of
        None \<Rightarrow> l
      | Some f \<Rightarrow> l\<lparr>l_enabled := l_enabled f, l_cross_connect_active := l_cross_connect_active f\<rparr>)"

definition apply_toggles :: "config \<Rightarrow> config \<Rightarrow> config" where
  "apply_toggles fresh c =
     c\<lparr>c_openbridge := map (toggle_peer (c_openbridge fresh)) (c_openbridge c),
       c_link := map (toggle_link (c_link fresh)) (c_link c)\<rparr>"

definition config_reload_toggles :: "string option \<Rightarrow> config \<Rightarrow> load_error + config" where
  "config_reload_toggles file c =
     (case config_load file of Inl e \<Rightarrow> Inl e | Inr fresh \<Rightarrow> Inr (apply_toggles fresh c))"

section \<open>What a loaded configuration guarantees\<close>

text \<open>
  Every check of the loader but two: that \<open>tgid\<close> and \<open>cc_lid\<close> are not negative is checked before they
  are cast to \<open>int\<close>, and the cast can make a large number negative, so of what is stored only the
  range of an \<open>int\<close> is known.
\<close>

definition port_ok :: "int \<Rightarrow> bool" where
  "port_ok p \<longleftrightarrow> 1 \<le> p \<and> p \<le> 65535"

definition ip_ok :: "string \<Rightarrow> bool" where
  "ip_ok ip \<longleftrightarrow> ip = [] \<or> is_valid_ipv4 ip"

definition peer_ok :: "obp_peer_config \<Rightarrow> bool" where
  "peer_ok p \<longleftrightarrow> fits 64 (o_name p) \<and> fits 64 (o_peer_ip p) \<and> fits 256 (o_passphrase p) \<and> ip_ok (o_peer_ip p) \<and>
     port_ok (o_peer_port p) \<and> port_ok (o_bind_port p)"

definition link_cfg_ok :: "obp_peer_config list \<Rightarrow> link_config \<Rightarrow> bool" where
  "link_cfg_ok ps l \<longleftrightarrow> fits 64 (l_name l) \<and> fits 64 (l_cc_remote_ip l) \<and> fits 128 (l_cc_channel_name l) \<and>
     ip_ok (l_cc_remote_ip l) \<and> port_ok (l_cc_remote_voice_port l) \<and>
     (l_cc_role l = CC_ROLE_OUTBOUND \<longrightarrow> port_ok (l_cc_remote_port l)) \<and>
     - (2 ^ 31) \<le> l_tgid l \<and> l_tgid l < 2 ^ 31 \<and>
     (l_openbridge_idx l < 0 \<longrightarrow> l_openbridge_system l = []) \<and>
     (0 \<le> l_openbridge_idx l \<longrightarrow> l_openbridge_idx l < int (length ps) \<and>
        o_name (ps ! nat (l_openbridge_idx l)) = l_openbridge_system l)"

text \<open>No two different places of the list satisfy the relation.\<close>

definition no_pair :: "('a \<Rightarrow> 'a \<Rightarrow> bool) \<Rightarrow> 'a list \<Rightarrow> bool" where
  "no_pair R xs \<longleftrightarrow> (\<forall>i j. i < j \<and> j < length xs \<longrightarrow> \<not> R (xs ! i) (xs ! j))"

definition same_port :: "obp_peer_config \<Rightarrow> obp_peer_config \<Rightarrow> bool" where
  "same_port p q \<longleftrightarrow> o_enabled p \<and> o_enabled q \<and> o_bind_port p = o_bind_port q"

definition same_route :: "link_config \<Rightarrow> link_config \<Rightarrow> bool" where
  "same_route l m \<longleftrightarrow> 0 \<le> l_openbridge_idx l \<and> l_openbridge_idx l = l_openbridge_idx m \<and> l_tgid l = l_tgid m"

definition same_inbound :: "link_config \<Rightarrow> link_config \<Rightarrow> bool" where
  "same_inbound l m \<longleftrightarrow> l_cc_role l = CC_ROLE_INBOUND \<and> l_cc_role m = CC_ROLE_INBOUND \<and>
     l_cc_remote_ip l = l_cc_remote_ip m \<and> l_cc_lid l = l_cc_lid m"

definition valid_config :: "config \<Rightarrow> bool" where
  "valid_config c \<longleftrightarrow> config_fits c \<and>
     1 \<le> c_keepalive_interval c \<and> c_keepalive_interval c \<le> 300 \<and> 1 \<le> c_link_timeout c \<and> c_link_timeout c \<le> 3600 \<and>
     list_all peer_ok (c_openbridge c) \<and> list_all (link_cfg_ok (c_openbridge c)) (c_link c) \<and>
     no_pair (\<lambda>p q. o_name p \<noteq> [] \<and> o_name p = o_name q) (c_openbridge c) \<and> no_pair same_port (c_openbridge c) \<and>
     no_pair (\<lambda>l m. l_name l \<noteq> [] \<and> l_name l = l_name m) (c_link c) \<and>
     no_pair same_route (c_link c) \<and> no_pair same_inbound (c_link c)"

lemma set_pairs: "(i, j) \<in> set (pairs n) \<longleftrightarrow> i < j \<and> j < n"
  by (auto simp: pairs_def image_iff intro: bexI [of _ i])

lemma no_pair_filter: "filter (\<lambda>(i, j). R (xs ! i) (xs ! j)) (pairs (length xs)) = [] \<longleftrightarrow> no_pair R xs"
  by (auto simp: filter_empty_conv no_pair_def set_pairs)

lemma peer_errors_none:
  "peer_errors ps = [] \<longleftrightarrow> no_pair (\<lambda>p q. o_name p \<noteq> [] \<and> o_name p = o_name q) ps \<and> no_pair same_port ps"
  using no_pair_filter [of "\<lambda>p q. o_name p \<noteq> [] \<and> o_name p = o_name q" ps] no_pair_filter [of same_port ps]
  by (simp add: peer_errors_def same_port_def)

lemma link_errors_none:
  "link_errors ls = [] \<longleftrightarrow> no_pair (\<lambda>l m. l_name l \<noteq> [] \<and> l_name l = l_name m) ls \<and>
     no_pair same_route ls \<and> no_pair same_inbound ls"
  using no_pair_filter [of "\<lambda>l m. l_name l \<noteq> [] \<and> l_name l = l_name m" ls] no_pair_filter [of same_route ls]
    no_pair_filter [of same_inbound ls]
  by (simp add: link_errors_def same_route_def same_inbound_def)

section \<open>Loaded fields\<close>

lemma fits_take: "CHR 0x00 \<notin> set s \<Longrightarrow> 0 < cap \<Longrightarrow> fits cap (take (cap - Suc 0) s)"
  by (auto simp: fits_def dest: in_set_takeD)

lemma get_str_fits:
  assumes "strings_ok t" "CHR 0x00 \<notin> set d" "0 < cap"
  shows "fits cap (fst (get_str t sec key req d cap))"
proof (cases "toml_get t sec key")
  case (Some v)
  then have "string_ok v" by (rule toml_get_string_ok [OF assms(1)])
  then have "CHR 0x00 \<notin> set (trim s)" if "v = TOML_STRING s" for s
    using that set_trim [of s] by (auto simp: string_ok_def)
  then show ?thesis
    using Some assms by (cases v) (simp_all add: get_str_def trimcpy_def fits_take)
qed (simp add: get_str_def fits_take assms)

lemma get_choice_in:
  "snd (get_choice t sec key True d cs cap) = [] \<Longrightarrow>
     \<exists>c \<in> set cs. fst (get_choice t sec key True d cs cap) = take (cap - 1) c"
  by (auto simp: get_choice_def Let_def split: option.splits toml_value.splits if_splits)

lemma get_int_range:
  assumes "snd (get_int t sec key req d (Some m) mx) = []" "\<not> req \<Longrightarrow> m \<le> d \<and> (\<forall>k. mx = Some k \<longrightarrow> d \<le> k)"
  shows "m \<le> fst (get_int t sec key req d (Some m) mx) \<and>
    (\<forall>k. mx = Some k \<longrightarrow> fst (get_int t sec key req d (Some m) mx) \<le> k)"
  using assms by (cases req) (auto simp: get_int_def split: option.splits toml_value.splits if_splits)

lemma get_port:
  "snd (get_int t sec key True d (Some 1) port_range) = [] \<Longrightarrow>
     port_ok (to_int32 (fst (get_int t sec key True d (Some 1) port_range)))"
  using get_int_range [of t sec key True d 1 port_range]
  by (simp add: port_ok_def port_range_def to_int32_def)

lemma check_ip_ok: "check_ip sec key ip = [] \<Longrightarrow> ip_ok ip"
  by (auto simp: check_ip_def ip_ok_def split: if_splits)

lemma to_int32_range: "- 2147483648 \<le> to_int32 i \<and> to_int32 i < 2147483648"
  using pos_mod_bound [of "2 ^ 32" i] pos_mod_sign [of "2 ^ 32" i] by (auto simp: to_int32_def Let_def)

lemma load_peer_ok:
  assumes "strings_ok t" "snd (load_peer t i) = []"
  shows "peer_ok (fst (load_peer t i))"
  using assms
  by (auto simp: load_peer_def Let_def case_prod_beta peer_ok_def get_str_fits get_port check_ip_ok)

lemma find_openbridge_ok:
  "find_openbridge ps nm < 0 \<or> find_openbridge ps nm < int (length ps) \<and> o_name (ps ! nat (find_openbridge ps nm)) = nm"
  by (auto simp: find_openbridge_def find_Some_iff split: option.splits)

lemma load_link_ok:
  assumes "strings_ok t" "snd (load_link t ps i) = []"
  shows "link_cfg_ok ps (fst (load_link t ps i))"
proof -
  note f = find_openbridge_ok [of ps]
  show ?thesis
    using assms f [of "l_openbridge_system (fst (load_link t ps i))"]
    by (auto simp: load_link_def Let_def case_prod_beta link_cfg_ok_def get_str_fits get_port check_ip_ok to_int32_range
        split: if_splits)
qed

section \<open>The loader\<close>

lemma load_list_ok:
  assumes "concat (map snd (map f [0..<n])) = []" "\<And>i. snd (f i) = [] \<Longrightarrow> P (fst (f i))"
  shows "list_all P (map fst (map f [0..<n]))"
  using assms by (auto simp: list_all_iff)

lemma load_openbridge_ok:
  assumes "strings_ok t" "load_openbridge t = (ps, [])"
  shows "list_all peer_ok ps" "length ps \<le> CFG_MAX_OPENBRIDGE" "peer_errors ps = []"
proof -
  have ps: "ps = map fst (map (load_peer t) [0..<min (toml_array_len t ''openbridge'') CFG_MAX_OPENBRIDGE])"
    and e: "concat (map snd (map (load_peer t) [0..<min (toml_array_len t ''openbridge'') CFG_MAX_OPENBRIDGE])) = []"
    and "peer_errors ps = []"
    using assms(2) by (auto simp: load_openbridge_def Let_def)
  show "list_all peer_ok ps"
    unfolding ps by (rule load_list_ok [OF e]) (rule load_peer_ok [OF assms(1)])
  show "length ps \<le> CFG_MAX_OPENBRIDGE" by (simp add: ps)
  show "peer_errors ps = []" by fact
qed

lemma load_links_ok:
  assumes "strings_ok t" "load_links t ps = (ls, [])"
  shows "list_all (link_cfg_ok ps) ls" "length ls \<le> CFG_MAX_LINKS" "link_errors ls = []"
proof -
  have ls: "ls = map fst (map (load_link t ps) [0..<min (toml_array_len t ''link'') CFG_MAX_LINKS])"
    and e: "concat (map snd (map (load_link t ps) [0..<min (toml_array_len t ''link'') CFG_MAX_LINKS])) = []"
    and "link_errors ls = []"
    using assms(2) by (auto simp: load_links_def Let_def)
  show "list_all (link_cfg_ok ps) ls"
    unfolding ls by (rule load_list_ok [OF e]) (rule load_link_ok [OF assms(1)])
  show "length ls \<le> CFG_MAX_LINKS" by (simp add: ls)
  show "link_errors ls = []" by fact
qed

lemma config_load_parts:
  assumes "config_load file = Inr c"
  shows "\<exists>t. toml_parse file = Inr t \<and> load_openbridge t = (c_openbridge c, []) \<and>
    load_links t (c_openbridge c) = (c_link c, []) \<and>
    c_site_name c = fst (get_str t ''global'' ''cc_site_name'' False ''cc2obp'' 128) \<and>
    c_mac_address c = fst (get_str t ''global'' ''cc_mac_address'' False ''000000000000'' 32) \<and>
    c_code_revision c = fst (get_str t ''global'' ''cc_code_revision'' False ''10252'' 32) \<and>
    c_version c = fst (get_str t ''global'' ''cc_version'' False ''cc2obp'' 128) \<and>
    c_os_version c = fst (get_str t ''global'' ''cc_os_version'' False ''Linux'' 128) \<and>
    (\<exists>ka. c_keepalive_interval c = of_int ka \<and> 1 \<le> ka \<and> ka \<le> 300) \<and>
    (\<exists>lt. c_link_timeout c = of_int lt \<and> 1 \<le> lt \<and> lt \<le> 3600)"
proof (cases "toml_parse file")
  case (Inr t)
  have e: "snd (get_int t ''global'' ''cc_keepalive_interval'' False 10 (Some 1) (Some 300)) = []"
    "snd (get_int t ''global'' ''cc_link_timeout'' False 35 (Some 1) (Some 3600)) = []"
    "snd (load_openbridge t) = []" "snd (load_links t (fst (load_openbridge t))) = []"
    using assms Inr by (auto simp: config_load_def Let_def case_prod_beta split: if_splits)
  have "c_openbridge c = fst (load_openbridge t)" "c_link c = fst (load_links t (fst (load_openbridge t)))"
    using assms Inr by (auto simp: config_load_def Let_def case_prod_beta split: if_splits)
  then have l: "load_openbridge t = (c_openbridge c, [])" "load_links t (c_openbridge c) = (c_link c, [])"
    using e(3,4) by (simp_all add: prod_eq_iff)
  have "c_site_name c = fst (get_str t ''global'' ''cc_site_name'' False ''cc2obp'' 128) \<and>
    c_mac_address c = fst (get_str t ''global'' ''cc_mac_address'' False ''000000000000'' 32) \<and>
    c_code_revision c = fst (get_str t ''global'' ''cc_code_revision'' False ''10252'' 32) \<and>
    c_version c = fst (get_str t ''global'' ''cc_version'' False ''cc2obp'' 128) \<and>
    c_os_version c = fst (get_str t ''global'' ''cc_os_version'' False ''Linux'' 128)"
    using assms Inr by (auto simp: config_load_def Let_def case_prod_beta split: if_splits)
  moreover have "\<exists>ka. c_keepalive_interval c = of_int ka \<and> 1 \<le> ka \<and> ka \<le> 300"
    "\<exists>lt. c_link_timeout c = of_int lt \<and> 1 \<le> lt \<and> lt \<le> 3600"
    using Inr assms get_int_range [OF e(1), simplified] get_int_range [OF e(2), simplified]
    by (auto simp: config_load_def Let_def case_prod_beta split: if_splits simp del: of_int_eq_iff)
  ultimately show ?thesis
    using Inr l by (intro exI [of _ t]) blast
qed (use assms in \<open>simp add: config_load_def\<close>)

lemma valid_config_loaded:
  assumes "config_load file = Inr c"
  shows "valid_config c"
proof -
  obtain t where t: "toml_parse file = Inr t" "load_openbridge t = (c_openbridge c, [])"
      "load_links t (c_openbridge c) = (c_link c, [])"
      "c_site_name c = fst (get_str t ''global'' ''cc_site_name'' False ''cc2obp'' 128)"
      "c_mac_address c = fst (get_str t ''global'' ''cc_mac_address'' False ''000000000000'' 32)"
      "c_code_revision c = fst (get_str t ''global'' ''cc_code_revision'' False ''10252'' 32)"
      "c_version c = fst (get_str t ''global'' ''cc_version'' False ''cc2obp'' 128)"
      "c_os_version c = fst (get_str t ''global'' ''cc_os_version'' False ''Linux'' 128)"
      "1 \<le> c_keepalive_interval c" "c_keepalive_interval c \<le> 300" "1 \<le> c_link_timeout c" "c_link_timeout c \<le> 3600"
    using config_load_parts [OF assms] by auto
  have ok: "strings_ok t" by (rule toml_parse_strings_ok [OF t(1)])
  note p = load_openbridge_ok [OF ok t(2)] and l = load_links_ok [OF ok t(3)]
  have f: "fits 128 (c_site_name c)" "fits 32 (c_mac_address c)" "fits 32 (c_code_revision c)"
    "fits 128 (c_version c)" "fits 128 (c_os_version c)"
    unfolding t(4-8) by (rule get_str_fits [OF ok]; simp)+
  show ?thesis
    using p l f t(9-12)
    by (auto simp: valid_config_def config_fits_def n_openbridge_def n_link_def peer_errors_none link_errors_none
        list_all_iff peer_ok_def link_cfg_ok_def)
qed

section \<open>What a reload changes\<close>

lemma toggle_peer_fields [simp]:
  "o_name (toggle_peer fs p) = o_name p" "o_peer_ip (toggle_peer fs p) = o_peer_ip p"
  "o_peer_port (toggle_peer fs p) = o_peer_port p" "o_bind_port (toggle_peer fs p) = o_bind_port p"
  "o_network_id (toggle_peer fs p) = o_network_id p" "o_passphrase (toggle_peer fs p) = o_passphrase p"
  "o_preserve_source_peer (toggle_peer fs p) = o_preserve_source_peer p"
  by (simp_all add: toggle_peer_def split: option.split)

lemma toggle_link_fields [simp]:
  "l_name (toggle_link fs l) = l_name l" "l_tgid (toggle_link fs l) = l_tgid l"
  "l_openbridge_system (toggle_link fs l) = l_openbridge_system l"
  "l_openbridge_idx (toggle_link fs l) = l_openbridge_idx l" "l_cc_role (toggle_link fs l) = l_cc_role l"
  "l_cc_lid (toggle_link fs l) = l_cc_lid l" "l_cc_remote_ip (toggle_link fs l) = l_cc_remote_ip l"
  "l_cc_remote_port (toggle_link fs l) = l_cc_remote_port l"
  "l_cc_remote_voice_port (toggle_link fs l) = l_cc_remote_voice_port l"
  "l_cc_channel_name (toggle_link fs l) = l_cc_channel_name l"
  by (simp_all add: toggle_link_def split: option.split)

lemma apply_toggles_fields [simp]:
  "c_openbridge (apply_toggles fresh c) = map (toggle_peer (c_openbridge fresh)) (c_openbridge c)"
  "c_link (apply_toggles fresh c) = map (toggle_link (c_link fresh)) (c_link c)"
  "n_link (apply_toggles fresh c) = n_link c" "n_openbridge (apply_toggles fresh c) = n_openbridge c"
  "c_keepalive_interval (apply_toggles fresh c) = c_keepalive_interval c"
  "c_link_timeout (apply_toggles fresh c) = c_link_timeout c"
  by (simp_all add: apply_toggles_def n_link_def n_openbridge_def)

lemma same_toggled [simp]:
  "same_route (toggle_link fs l) (toggle_link fs m) = same_route l m"
  "same_inbound (toggle_link fs l) (toggle_link fs m) = same_inbound l m"
  by (simp_all add: same_route_def same_inbound_def)

lemma no_pair_map: "no_pair R (map f xs) = no_pair (\<lambda>x y. R (f x) (f y)) xs"
  by (auto simp: no_pair_def)

lemma valid_apply_toggles:
  assumes "valid_config c" "no_pair same_port (c_openbridge (apply_toggles fresh c))"
  shows "valid_config (apply_toggles fresh c)"
proof -
  have "config_fits (apply_toggles fresh c)"
    using assms(1) by (simp add: valid_config_def config_fits_def list_all_iff apply_toggles_def n_link_def n_openbridge_def)
  moreover have "link_cfg_ok (map (toggle_peer fs) ps) (toggle_link ls l) \<longleftrightarrow> link_cfg_ok ps l" for fs ps ls l
    by (auto simp: link_cfg_ok_def nat_less_iff)
  moreover have "peer_ok (toggle_peer fs p) = peer_ok p" for fs p by (simp add: peer_ok_def)
  ultimately show ?thesis
    using assms by (simp add: valid_config_def no_pair_map list_all_iff)
qed

end
