(* ===== verification/Config_Use.thy ===== *)
theory Config_Use
  imports Config Cccc_Link
begin

text \<open>
  What the checks of the loader are for: no frame and no connection has two links to go to, and a
  reload changes nothing but the toggles.  The last property is about what the toggles can break.
\<close>

section \<open>A file\<close>

definition demo_lines :: "string list" where
  "demo_lines =
     [''[[openbridge]]'', ''name = '' @ quote ''HBL'', ''peer_ip = '' @ quote ''10.0.0.2'', ''peer_port = 62001'',
      ''bind_port = 62002 # ours'', ''network_id = 3112345'', ''passphrase = '' @ quote ''secret'',
      ''[[link]]'', ''name = '' @ quote ''STATE'', ''cross_connect_active = true'', ''tgid = 3120'',
      ''openbridge_system = '' @ quote ''HBL'', ''cc_role = '' @ quote ''inbound'', ''cc_lid = 12'',
      ''cc_remote_ip = '' @ quote ''10.0.0.3'', ''cc_remote_voice_port = 42422'']"

lemmas parse_basic_numeral = parse_basic.simps(2,3) [of "pred_numeral k" for k, folded numeral_eq_Suc]

lemma first_index: "show_nat 10 0 = ''0''"
  by code_simp

lemmas line_eval = parse_line_def quote_def escape_def cstr_def strip_comment_def trim_def is_space_def before_def
  parse_value_def parse_scalar_def parse_basic_string_def parse_basic_numeral unescape_def MAX_ENTRIES_def
  strtoll_all_def is_digit_def digit_value_def strtol10_def take_sign_def digits_value_def add_atable_def
  MAX_ATABLE_NAMES_def fmt_d_def first_index

definition demo_toml :: toml where
  "demo_toml = \<lparr>t_entries =
     [(''openbridge#0'', ''name'', TOML_STRING ''HBL''), (''openbridge#0'', ''peer_ip'', TOML_STRING ''10.0.0.2''),
      (''openbridge#0'', ''peer_port'', TOML_INT 62001), (''openbridge#0'', ''bind_port'', TOML_INT 62002),
      (''openbridge#0'', ''network_id'', TOML_INT 3112345), (''openbridge#0'', ''passphrase'', TOML_STRING ''secret''),
      (''link#0'', ''name'', TOML_STRING ''STATE''), (''link#0'', ''cross_connect_active'', TOML_BOOL True),
      (''link#0'', ''tgid'', TOML_INT 3120), (''link#0'', ''openbridge_system'', TOML_STRING ''HBL''),
      (''link#0'', ''cc_role'', TOML_STRING ''inbound''), (''link#0'', ''cc_lid'', TOML_INT 12),
      (''link#0'', ''cc_remote_ip'', TOML_STRING ''10.0.0.3''), (''link#0'', ''cc_remote_voice_port'', TOML_INT 42422)],
   t_atables = [(''openbridge'', 1), (''link'', 1)]\<rparr>"

lemma demo_parsed: "toml_parse (Some (file_of demo_lines)) = Inr demo_toml"
proof -
  have f: "fgets_lines 1024 (file_of demo_lines) = map (\<lambda>l. l @ [CHR 0x0A]) demo_lines"
    by (rule fgets_file) (simp add: demo_lines_def quote_def escape_def)
  show ?thesis
    unfolding toml_parse_def option.case f
    by (simp add: demo_lines_def line_eval demo_toml_def)
qed


lemma load_text:
  "str_to_upper ''inbound'' = ''INBOUND''" "is_valid_ipv4 ''10.0.0.2''" "is_valid_ipv4 ''10.0.0.3''"
  by code_simp+

lemmas field_eval = get_choice_def get_str_def get_int_def get_bool_def toml_get_def trimcpy_def trim_def is_space_def
  check_ip_def port_range_def

lemma demo_load_peer: "load_peer demo_toml 0 = (demo_peer, [])"
  by (simp add: load_peer_def demo_toml_def field_eval fmt_d_def first_index load_text demo_peer_def to_int32_def)
lemma demo_load_link:
  "load_link demo_toml [demo_peer] 0 =
     (demo_link\<lparr>l_cc_role := CC_ROLE_INBOUND, l_cc_remote_port := - 1, l_cc_channel_name := []\<rparr>, [])"
  by (simp add: load_link_def demo_toml_def field_eval fmt_d_def first_index load_text find_openbridge_def
    demo_peer_def demo_link_def to_int32_def)

lemma demo_loaded:
  "\<exists>c. config_load (Some (file_of demo_lines)) = Inr c \<and> c_openbridge c = [demo_peer] \<and>
     c_link c = [demo_link\<lparr>l_cc_role := CC_ROLE_INBOUND, l_cc_remote_port := - 1, l_cc_channel_name := []\<rparr>]"
proof -
  have n: "toml_array_len demo_toml ''openbridge'' = 1" "toml_array_len demo_toml ''link'' = 1"
    by (simp_all add: toml_array_len_def demo_toml_def)
  have p: "load_openbridge demo_toml = ([demo_peer], [])"
    by (simp add: load_openbridge_def n CFG_MAX_OPENBRIDGE_def demo_load_peer peer_errors_def pairs_def)
  have l: "snd (load_links demo_toml [demo_peer]) = []"
    "fst (load_links demo_toml [demo_peer]) =
       [demo_link\<lparr>l_cc_role := CC_ROLE_INBOUND, l_cc_remote_port := - 1, l_cc_channel_name := []\<rparr>]"
    by (simp_all add: load_links_def n CFG_MAX_LINKS_def demo_load_link link_errors_def pairs_def)
  have g: "toml_get demo_toml ''global'' key = None" for key by (simp add: toml_get_def demo_toml_def)
  show ?thesis
    by (simp add: config_load_def demo_parsed p l case_prod_beta get_choice_def get_str_def get_int_def g n_link_def
        Let_def demo_link_def)
qed

section \<open>Routing\<close>

lemma no_pair_eq:
  assumes "no_pair R xs" "i < length xs" "j < length xs" "R (xs ! i) (xs ! j)" "R (xs ! j) (xs ! i)"
  shows "i = j"
  using assms by (cases i j rule: linorder_cases) (auto simp: no_pair_def)

lemma of_int_tgid_inj:
  assumes "(of_int a :: u32) = of_int b" "- (2 ^ 31) \<le> a" "a < 2 ^ 31" "- (2 ^ 31) \<le> b" "b < 2 ^ 31"
  shows "a = b"
proof -
  have "a mod 2 ^ 32 = b mod 2 ^ 32" using assms(1) by (simp add: word_of_int_eq_iff take_bit_eq_mod)
  then have "2 ^ 32 dvd a - b" by (simp add: mod_eq_dvd_iff)
  then obtain k where "a - b = 2 ^ 32 * k" by (rule dvdE)
  moreover have "\<bar>a - b\<bar> < 2 ^ 32" using assms(2-5) by auto
  ultimately show ?thesis by (cases "k = 0") auto
qed

text \<open>
  C14: under a valid configuration every frame and every connection has at most one link to go to.
  A frame from OpenBridge peer \<open>p\<close> with the group of a link \<open>i\<close> of that peer goes to link \<open>i\<close>, whatever other
  links there are, and a Question from the address of an enabled inbound link with its LID goes to
  that link, whether or not it has a peer; neither depends on the order of the links in the file.
\<close>

theorem routing_is_unambiguous:
  assumes "valid_config c"
  shows "(\<forall>i < n_link c. \<forall>p. l_openbridge_idx (c_link c ! i) = int p \<longrightarrow>
      find_obp_link c p (of_int (l_tgid (c_link c ! i))) = Some i) \<and>
    (\<forall>j < n_link c. l_cc_role (c_link c ! j) = CC_ROLE_INBOUND \<and> l_enabled (c_link c ! j) \<longrightarrow>
      match_inbound c (l_cc_remote_ip (c_link c ! j)) (l_cc_lid (c_link c ! j)) = Some j)"
proof (intro conjI allI impI)
  have v: "no_pair same_route (c_link c)" "no_pair same_inbound (c_link c)"
    and r: "\<And>k. k < n_link c \<Longrightarrow> - (2 ^ 31) \<le> l_tgid (c_link c ! k) \<and> l_tgid (c_link c ! k) < 2 ^ 31"
    using assms by (auto simp: valid_config_def list_all_length link_cfg_ok_def n_link_def)
  fix i p assume i: "i < n_link c" "l_openbridge_idx (c_link c ! i) = int p"
  show "find_obp_link c p (of_int (l_tgid (c_link c ! i))) = Some i"
    unfolding find_obp_link_def
  proof (rule find_only [OF i(1)])
    fix k assume k: "k < n_link c" "l_openbridge_idx (c_link c ! k) = int p \<and>
      (of_int (l_tgid (c_link c ! k)) :: u32) = of_int (l_tgid (c_link c ! i))"
    then have "l_tgid (c_link c ! k) = l_tgid (c_link c ! i)"
      using r [OF k(1)] r [OF i(1)] by (intro of_int_tgid_inj) simp_all
    then show "k = i"
      using k i by (intro no_pair_eq [OF v(1)]) (simp_all add: same_route_def n_link_def)
  qed (use i(2) in simp)
next
  have v: "no_pair same_inbound (c_link c)" using assms by (simp add: valid_config_def)
  fix j assume j: "j < n_link c" "l_cc_role (c_link c ! j) = CC_ROLE_INBOUND \<and> l_enabled (c_link c ! j)"
  show "match_inbound c (l_cc_remote_ip (c_link c ! j)) (l_cc_lid (c_link c ! j)) = Some j"
    unfolding match_inbound_def
  proof (rule find_only [OF j(1)])
    fix k assume k: "k < n_link c" "l_cc_role (c_link c ! k) = CC_ROLE_INBOUND \<and> l_enabled (c_link c ! k) \<and>
      l_cc_remote_ip (c_link c ! k) = l_cc_remote_ip (c_link c ! j) \<and> l_cc_lid (c_link c ! k) = l_cc_lid (c_link c ! j)"
    then show "k = j"
      using j by (intro no_pair_eq [OF v]) (simp_all add: same_inbound_def n_link_def)
  qed (use j(2) in simp)
qed

lemma demo_valid:
  obtains c where "config_load (Some (file_of demo_lines)) = Inr c" "valid_config c" "c_openbridge c = [demo_peer]"
    "c_link c = [demo_link\<lparr>l_cc_role := CC_ROLE_INBOUND, l_cc_remote_port := - 1, l_cc_channel_name := []\<rparr>]"
  using demo_loaded valid_config_loaded by blast

lemma routing_is_unambiguous_witness:
  "\<exists>c. config_load (Some (file_of demo_lines)) = Inr c \<and> find_obp_link c 0 3120 = Some 0 \<and>
     match_inbound c ''10.0.0.3'' 12 = Some 0"
proof -
  obtain c where c: "config_load (Some (file_of demo_lines)) = Inr c" "valid_config c"
      "c_link c = [demo_link\<lparr>l_cc_role := CC_ROLE_INBOUND, l_cc_remote_port := - 1, l_cc_channel_name := []\<rparr>]"
    by (rule demo_valid)
  show ?thesis
    using routing_is_unambiguous [OF c(2)] c(1,3) by (auto simp: n_link_def demo_link_def)
qed

section \<open>Loading\<close>

text \<open>
  C15: a configuration that loads satisfies everything the loader promises: every string fits its
  array, the counts are within the limits, addresses and ports are well formed, the timers are in
  their ranges, every link refers to the peer it names, names are unique, no two enabled peers share
  a local port, no two links share a peer and group, and no two inbound links an address and LID.
\<close>

theorem loaded_config_valid:
  assumes "config_load file = Inr c"
  shows "valid_config c"
  using assms by (rule valid_config_loaded)

lemma loaded_config_valid_witness: "\<exists>c. config_load (Some (file_of demo_lines)) = Inr c \<and> valid_config c"
  using demo_loaded loaded_config_valid by blast

section \<open>Reloading\<close>

lemma unique_by_name:
  assumes "no_pair (\<lambda>p q. nm p \<noteq> [] \<and> nm p = nm q) xs" "f \<in> set xs" "nm f = n" "n \<noteq> []"
  shows "find (\<lambda>x. nm x = n) xs = Some f"
proof (cases "find (\<lambda>x. nm x = n) xs")
  case None
  then show ?thesis using assms(2,3) by (auto simp: find_None_iff)
next
  case (Some g)
  then obtain i j where "i < length xs" "xs ! i = g" "nm g = n" "j < length xs" "xs ! j = f"
    using assms(2) by (auto simp: find_Some_iff in_set_conv_nth)
  moreover from this have "i = j" using assms(3,4) by (intro no_pair_eq [OF assms(1)]) simp_all
  ultimately show ?thesis using Some by simp
qed

lemma name_absent: "n \<notin> nm ` set xs \<Longrightarrow> find (\<lambda>x. nm x = n) xs = None"
  by (auto simp: find_None_iff)

text \<open>The configuration with all toggles off.\<close>

definition without_toggles :: "config \<Rightarrow> config" where
  "without_toggles c = c\<lparr>c_openbridge := map (\<lambda>p. p\<lparr>o_enabled := False\<rparr>) (c_openbridge c),
     c_link := map (\<lambda>l. l\<lparr>l_enabled := False, l_cross_connect_active := False\<rparr>) (c_link c)\<rparr>"

lemma without_toggles_apply: "without_toggles (apply_toggles fresh c) = without_toggles c"
  by (auto simp: without_toggles_def apply_toggles_def toggle_peer_def toggle_link_def split: option.split)

definition toggles_from :: "config \<Rightarrow> config \<Rightarrow> config \<Rightarrow> bool" where
  "toggles_from fresh c c' \<longleftrightarrow>
     (\<forall>i < n_openbridge c. let p = c_openbridge c ! i; p' = c_openbridge c' ! i in
        (\<forall>f \<in> set (c_openbridge fresh). o_name f = o_name p \<and> o_name p \<noteq> [] \<longrightarrow> o_enabled p' = o_enabled f) \<and>
        (o_name p \<notin> o_name ` set (c_openbridge fresh) \<longrightarrow> p' = p)) \<and>
     (\<forall>i < n_link c. let l = c_link c ! i; l' = c_link c' ! i in
        (\<forall>f \<in> set (c_link fresh). l_name f = l_name l \<and> l_name l \<noteq> [] \<longrightarrow>
           l_enabled l' = l_enabled f \<and> l_cross_connect_active l' = l_cross_connect_active f) \<and>
        (l_name l \<notin> l_name ` set (c_link fresh) \<longrightarrow> l' = l))"

lemma toggles_from_apply:
  assumes "valid_config fresh"
  shows "toggles_from fresh c (apply_toggles fresh c)"
proof -
  note v = assms [unfolded valid_config_def]
  have "o_enabled (toggle_peer (c_openbridge fresh) p) = o_enabled f"
    if "f \<in> set (c_openbridge fresh)" "o_name f = o_name p" "o_name p \<noteq> []" for p f
    using unique_by_name [of o_name "c_openbridge fresh" f "o_name p"] v that by (simp add: toggle_peer_def)
  moreover have "toggle_peer (c_openbridge fresh) p = p" if "o_name p \<notin> o_name ` set (c_openbridge fresh)" for p
    by (simp add: toggle_peer_def name_absent [OF that])
  moreover have "l_enabled (toggle_link (c_link fresh) l) = l_enabled f \<and>
      l_cross_connect_active (toggle_link (c_link fresh) l) = l_cross_connect_active f"
    if "f \<in> set (c_link fresh)" "l_name f = l_name l" "l_name l \<noteq> []" for l f
    using unique_by_name [of l_name "c_link fresh" f "l_name l"] v that by (simp add: toggle_link_def)
  moreover have "toggle_link (c_link fresh) l = l" if "l_name l \<notin> l_name ` set (c_link fresh)" for l
    by (simp add: toggle_link_def name_absent [OF that])
  ultimately show ?thesis by (simp add: toggles_from_def n_openbridge_def n_link_def Let_def)
qed

text \<open>Peers of one reload keep their ports apart when the file still gives every peer its port.\<close>

lemma ports_stay_apart:
  assumes "valid_config c" "valid_config fresh"
    and "\<And>p. p \<in> set (c_openbridge c) \<Longrightarrow> o_name p \<noteq> []"
    and "\<And>p. p \<in> set (c_openbridge c) \<Longrightarrow> \<exists>f \<in> set (c_openbridge fresh). o_name f = o_name p \<and> o_bind_port f = o_bind_port p"
  shows "no_pair same_port (c_openbridge (apply_toggles fresh c))"
  unfolding no_pair_def
proof (intro allI impI notI)
  fix i j assume ij: "i < j \<and> j < length (c_openbridge (apply_toggles fresh c))"
    and sp: "same_port (c_openbridge (apply_toggles fresh c) ! i) (c_openbridge (apply_toggles fresh c) ! j)"
  define p where "p = c_openbridge c ! i"
  define q where "q = c_openbridge c ! j"
  have len: "i < length (c_openbridge c)" "j < length (c_openbridge c)" using ij by simp_all
  then have pq: "p \<in> set (c_openbridge c)" "q \<in> set (c_openbridge c)" by (simp_all add: p_def q_def)
  obtain f g where f: "f \<in> set (c_openbridge fresh)" "o_name f = o_name p" "o_bind_port f = o_bind_port p"
    and g: "g \<in> set (c_openbridge fresh)" "o_name g = o_name q" "o_bind_port g = o_bind_port q"
    using assms(4) pq by metis
  have "o_name p \<noteq> o_name q"
    using assms(1) assms(3) [OF pq(1)] ij len by (auto simp: valid_config_def no_pair_def p_def q_def)
  have "find (\<lambda>x. o_name x = o_name p) (c_openbridge fresh) = Some f"
    "find (\<lambda>x. o_name x = o_name q) (c_openbridge fresh) = Some g"
    using assms(2,3) pq f g by (auto simp: valid_config_def intro: unique_by_name)
  then have "same_port f g"
    using sp len f(3) g(3) by (simp add: same_port_def toggle_peer_def p_def [symmetric] q_def [symmetric])
  then have "same_port g f" by (auto simp: same_port_def)
  obtain a b where ab: "a < length (c_openbridge fresh)" "c_openbridge fresh ! a = f"
      "b < length (c_openbridge fresh)" "c_openbridge fresh ! b = g"
    using f(1) g(1) by (auto simp: in_set_conv_nth)
  have "a = b"
    using assms(2) ab \<open>same_port f g\<close> \<open>same_port g f\<close>
    by (intro no_pair_eq [of same_port "c_openbridge fresh"]) (simp_all add: valid_config_def)
  then show False using ab f(2) g(2) \<open>o_name p \<noteq> o_name q\<close> by simp
qed

text \<open>
  C26: a reload changes only the toggles: \<open>enabled\<close> of the peers and \<open>enabled\<close> and
  \<open>cross_connect_active\<close> of the links.  Each takes the value of the entry of that name in the file;
  what is not in the file any more keeps its toggles.  The configuration stays valid if all peers
  have names and the file still has every one of them with its local port.
\<close>

theorem reload_changes_toggles_only:
  assumes "config_reload_toggles file c = Inr c'"
  shows "\<exists>fresh. config_load file = Inr fresh \<and> without_toggles c' = without_toggles c \<and> toggles_from fresh c c' \<and>
    (valid_config c \<and> (\<forall>p \<in> set (c_openbridge c). o_name p \<noteq> [] \<and>
       (\<exists>f \<in> set (c_openbridge fresh). o_name f = o_name p \<and> o_bind_port f = o_bind_port p)) \<longrightarrow> valid_config c')"
proof -
  obtain fresh where f: "config_load file = Inr fresh" "c' = apply_toggles fresh c"
    using assms by (auto simp: config_reload_toggles_def split: sum.splits)
  have v: "valid_config fresh" by (rule valid_config_loaded [OF f(1)])
  have "valid_config c'" if "valid_config c" "\<forall>p \<in> set (c_openbridge c). o_name p \<noteq> [] \<and>
       (\<exists>f \<in> set (c_openbridge fresh). o_name f = o_name p \<and> o_bind_port f = o_bind_port p)"
    unfolding f(2) by (rule valid_apply_toggles [OF that(1) ports_stay_apart [OF that(1) v]]) (use that(2) in auto)
  then show ?thesis using f v without_toggles_apply toggles_from_apply by blast
qed

lemma reload_changes_toggles_only_witness:
  "\<exists>c'. config_reload_toggles (Some (file_of demo_lines)) demo_config = Inr c' \<and>
     without_toggles c' = without_toggles demo_config"
proof -
  obtain c where "config_load (Some (file_of demo_lines)) = Inr c" by (rule demo_valid)
  then have "config_reload_toggles (Some (file_of demo_lines)) demo_config = Inr (apply_toggles c demo_config)"
    by (simp add: config_reload_toggles_def)
  then show ?thesis using reload_changes_toggles_only by blast
qed

section \<open>What a reload can break\<close>

lemma no_pair_two: "no_pair R [x, y] \<longleftrightarrow> \<not> R x y" "no_pair R [x]"
proof -
  have "\<not> R x y" if "no_pair R [x, y]"
    using that unfolding no_pair_def by (elim allE [of _ 0] allE [of _ 1]) simp
  then show "no_pair R [x, y] \<longleftrightarrow> \<not> R x y" by (auto simp: no_pair_def less_Suc_eq)
qed (simp add: no_pair_def)

text \<open>
  C31: a reload does not look at the local ports.  If the running configuration has two peers on one
  local port, of which then at most one is enabled, and the new file loads and has both names enabled,
  which it may because it gives them other ports, the reload succeeds and the running
  configuration has two enabled peers on the same port: it is no longer one that the loader accepts.
\<close>

theorem reload_can_share_bind_port:
  assumes "config_load file = Inr fresh"
    and "i < j" "j < n_openbridge c" "o_bind_port (c_openbridge c ! i) = o_bind_port (c_openbridge c ! j)"
    and "f \<in> set (c_openbridge fresh)" "o_enabled f" "o_name f = o_name (c_openbridge c ! i)" "o_name f \<noteq> []"
    and "g \<in> set (c_openbridge fresh)" "o_enabled g" "o_name g = o_name (c_openbridge c ! j)" "o_name g \<noteq> []"
  shows "\<exists>d. config_reload_toggles file c = Inr d \<and> j < n_openbridge d \<and>
    o_enabled (c_openbridge d ! i) \<and> o_enabled (c_openbridge d ! j) \<and>
    o_bind_port (c_openbridge d ! i) = o_bind_port (c_openbridge d ! j) \<and> \<not> valid_config d"
proof (intro exI conjI)
  let ?d = "apply_toggles fresh c"
  have len: "i < length (c_openbridge c)" "j < length (c_openbridge c)" using assms(2,3) by (simp_all add: n_openbridge_def)
  show "config_reload_toggles file c = Inr ?d" by (simp add: config_reload_toggles_def assms(1))
  show "j < n_openbridge ?d" using assms(3) by (simp add: n_openbridge_def)
  note tg = toggles_from_apply [OF valid_config_loaded [OF assms(1)], of c, unfolded toggles_from_def Let_def]
  show en: "o_enabled (c_openbridge ?d ! i)" "o_enabled (c_openbridge ?d ! j)"
    using tg assms(2,3,5-12) by (auto dest: order_less_trans)
  have "o_bind_port (toggle_peer fs p) = o_bind_port p" for fs p by (simp add: toggle_peer_def split: option.split)
  then show port: "o_bind_port (c_openbridge ?d ! i) = o_bind_port (c_openbridge ?d ! j)"
    using assms(4) len by simp
  have "\<not> no_pair same_port (c_openbridge ?d)"
    using en port assms(2) len by (auto simp: no_pair_def same_port_def)
  then show "\<not> valid_config ?d" by (simp add: valid_config_def)
qed

text \<open>Two files with two peers: on one local port with the second one disabled, and on two ports.\<close>

definition pair_lines :: "string \<Rightarrow> string \<Rightarrow> string list" where
  "pair_lines en port =
     [''[[openbridge]]'', ''name = '' @ quote ''A'', ''peer_ip = '' @ quote ''10.0.0.2'', ''peer_port = 62001'',
      ''bind_port = 62002'', ''network_id = 1'', ''passphrase = '' @ quote ''p'',
      ''[[openbridge]]'', ''name = '' @ quote ''B'', ''enabled = '' @ en, ''peer_ip = '' @ quote ''10.0.0.3'', ''peer_port = 62001'',
      ''bind_port = '' @ port, ''network_id = 1'', ''passphrase = '' @ quote ''p'']"

definition pair_toml :: "bool \<Rightarrow> int \<Rightarrow> toml" where
  "pair_toml en port = \<lparr>t_entries =
     [(''openbridge#0'', ''name'', TOML_STRING ''A''), (''openbridge#0'', ''peer_ip'', TOML_STRING ''10.0.0.2''),
      (''openbridge#0'', ''peer_port'', TOML_INT 62001), (''openbridge#0'', ''bind_port'', TOML_INT 62002),
      (''openbridge#0'', ''network_id'', TOML_INT 1), (''openbridge#0'', ''passphrase'', TOML_STRING ''p''),
      (''openbridge#1'', ''name'', TOML_STRING ''B''), (''openbridge#1'', ''enabled'', TOML_BOOL en),
      (''openbridge#1'', ''peer_ip'', TOML_STRING ''10.0.0.3''),
      (''openbridge#1'', ''peer_port'', TOML_INT 62001), (''openbridge#1'', ''bind_port'', TOML_INT port),
      (''openbridge#1'', ''network_id'', TOML_INT 1), (''openbridge#1'', ''passphrase'', TOML_STRING ''p'')],
   t_atables = [(''openbridge'', 2)]\<rparr>"

lemma second_index: "show_nat 10 (Suc 0) = ''1''"
  by code_simp

abbreviation pair_text :: "string \<Rightarrow> string \<Rightarrow> string list" where
  "pair_text en port \<equiv> map (\<lambda>l. l @ [CHR 0x0A]) (pair_lines en port)"

lemma first_peer:
  "parse_lines 0 (take 7 (pair_text en port) @ ls) (\<lparr>t_entries = [], t_atables = []\<rparr>, []) =
   parse_lines 7 ls (\<lparr>t_entries = take 6 (t_entries (pair_toml on k)), t_atables = [(''openbridge'', 1)]\<rparr>, ''openbridge#0'')"
  by (simp add: pair_lines_def pair_toml_def line_eval second_index) (simp add: numeral_eq_Suc)

lemma second_peer:
  "parse_lines 7 (drop 7 (pair_text ''false'' ''62002''))
     (\<lparr>t_entries = take 6 (t_entries (pair_toml on k)), t_atables = [(''openbridge'', 1)]\<rparr>, ''openbridge#0'') =
   Inr (pair_toml False 62002)"
  "parse_lines 7 (drop 7 (pair_text ''true'' ''62003''))
     (\<lparr>t_entries = take 6 (t_entries (pair_toml on k)), t_atables = [(''openbridge'', 1)]\<rparr>, ''openbridge#0'') =
   Inr (pair_toml True 62003)"
  by (simp_all add: pair_lines_def pair_toml_def line_eval second_index)

lemma pair_parsed:
  "toml_parse (Some (file_of (pair_lines ''false'' ''62002''))) = Inr (pair_toml False 62002)"
  "toml_parse (Some (file_of (pair_lines ''true'' ''62003''))) = Inr (pair_toml True 62003)"
proof -
  let ?a = "pair_lines ''false'' ''62002''" and ?b = "pair_lines ''true'' ''62003''"
  have fa: "fgets_lines 1024 (file_of ?a) = pair_text ''false'' ''62002''"
    and fb: "fgets_lines 1024 (file_of ?b) = pair_text ''true'' ''62003''"
    by (rule fgets_file, simp add: pair_lines_def quote_def escape_def)+
  have two: "parse_lines 0 (pair_text en port) (\<lparr>t_entries = [], t_atables = []\<rparr>, []) =
      parse_lines 7 (drop 7 (pair_text en port))
        (\<lparr>t_entries = take 6 (t_entries (pair_toml True 0)), t_atables = [(''openbridge'', 1)]\<rparr>, ''openbridge#0'')" for en port
    using first_peer [of en port "drop 7 (pair_text en port)" True 0] by (simp only: append_take_drop_id)
  show "toml_parse (Some (file_of ?a)) = Inr (pair_toml False 62002)"
    "toml_parse (Some (file_of ?b)) = Inr (pair_toml True 62003)"
    unfolding toml_parse_def option.case fa fb two by (rule second_peer)+
qed

definition pair_peers :: "bool \<Rightarrow> int \<Rightarrow> obp_peer_config list" where
  "pair_peers en port =
     [demo_peer\<lparr>o_name := ''A'', o_network_id := 1, o_passphrase := ''p''\<rparr>,
      demo_peer\<lparr>o_name := ''B'', o_enabled := en, o_peer_ip := ''10.0.0.3'', o_bind_port := port, o_network_id := 1,
        o_passphrase := ''p''\<rparr>]"

lemma pair_loaded:
  assumes "toml_parse file = Inr (pair_toml en port)" "en = (port \<noteq> 62002)" "port \<in> {62002, 62003}"
  shows "\<exists>c. config_load file = Inr c \<and> c_openbridge c = pair_peers en port"
proof -
  let ?t = "pair_toml en port"
  have n: "toml_array_len ?t ''openbridge'' = 2" "toml_array_len ?t ''link'' = 0"
    by (simp_all add: toml_array_len_def pair_toml_def)
  have p: "load_peer ?t 0 = (pair_peers en port ! 0, [])" "load_peer ?t (Suc 0) = (pair_peers en port ! 1, [])"
    using assms(3)
    by (auto simp: load_peer_def pair_toml_def field_eval fmt_d_def first_index second_index load_text demo_peer_def
        to_int32_def pair_peers_def)
  have "[0..<min 2 CFG_MAX_OPENBRIDGE] = [0, Suc 0]" by (simp add: CFG_MAX_OPENBRIDGE_def upt_rec)
  moreover have "peer_errors (pair_peers en port) = []"
    unfolding peer_errors_none using assms(2) by (simp add: pair_peers_def no_pair_two same_port_def demo_peer_def)
  moreover have "[pair_peers en port ! 0, pair_peers en port ! 1] = pair_peers en port" by (simp add: pair_peers_def)
  ultimately have "load_openbridge ?t = (pair_peers en port, [])"
    by (simp add: load_openbridge_def n CFG_MAX_OPENBRIDGE_def p Let_def)
  moreover have "load_links ?t ps = ([], [])" for ps
    by (simp add: load_links_def n CFG_MAX_LINKS_def link_errors_def pairs_def)
  moreover have "toml_get ?t ''global'' key = None" for key by (simp add: toml_get_def pair_toml_def)
  ultimately show ?thesis
    by (simp add: config_load_def assms(1) case_prod_beta get_choice_def get_str_def get_int_def n_link_def Let_def)
qed

lemma reload_can_share_bind_port_witness:
  "\<exists>c d. config_load (Some (file_of (pair_lines ''false'' ''62002''))) = Inr c \<and>
     config_reload_toggles (Some (file_of (pair_lines ''true'' ''62003''))) c = Inr d \<and> valid_config c \<and> \<not> valid_config d"
proof -
  obtain c where c: "config_load (Some (file_of (pair_lines ''false'' ''62002''))) = Inr c" "c_openbridge c = pair_peers False 62002"
    using pair_loaded [OF pair_parsed(1)] by auto
  obtain fresh where f: "config_load (Some (file_of (pair_lines ''true'' ''62003''))) = Inr fresh"
      "c_openbridge fresh = pair_peers True 62003"
    using pair_loaded [OF pair_parsed(2)] by auto
  have "\<exists>d. config_reload_toggles (Some (file_of (pair_lines ''true'' ''62003''))) c = Inr d \<and> \<not> valid_config d"
    using reload_can_share_bind_port [OF f(1), of 0 1 c "pair_peers True 62003 ! 0" "pair_peers True 62003 ! 1"] c(2) f(2)
    by (auto simp: pair_peers_def n_openbridge_def demo_peer_def)
  then show ?thesis using c(1) valid_config_loaded [OF c(1)] by blast
qed

end
