(* ===== verification/Net.thy ===== *)
theory Net
  imports Config "HOL-Library.State_Monad"
begin

text \<open>
  \<open>net.c\<close>, the socket helpers, as programs over system calls in the state monad.  The system is an
  input: its answer to a call may depend on how many calls were made before.  A negative result is
  the negated \<open>errno\<close>, which stands for the -1 that the C function returns; an answer also carries
  the address and port that \<open>accept\<close> and \<open>recvfrom\<close> fill in.  The calls and their answers are
  recorded, oldest first.
\<close>

unbundle bit_operations_syntax

section \<open>System calls\<close>

datatype sock_type = SOCK_DGRAM | SOCK_STREAM

datatype syscall =
    Sys_getaddrinfo string int
  | Sys_socket sock_type
  | Sys_reuseaddr int
  | Sys_bind int string u16
  | Sys_listen int int
  | Sys_accept int
  | Sys_connect int string int
  | Sys_getfl int
  | Sys_setfl int int
  | Sys_so_error int
  | Sys_sendto int bytes string u16
  | Sys_recvfrom int nat
  | Sys_close int

type_synonym answer = "int \<times> string \<times> int"

record os =
  os_answer :: "nat \<Rightarrow> syscall \<Rightarrow> answer"
  os_trace :: "(syscall \<times> answer) list"

definition syscall :: "syscall \<Rightarrow> (os, answer) state" where
  "syscall c = State (\<lambda>w. let r = os_answer w (length (os_trace w)) c in (r, w\<lparr>os_trace := os_trace w @ [(c, r)]\<rparr>))"

definition do_call :: "syscall \<Rightarrow> (os, int) state" where
  "do_call c = do { r \<leftarrow> syscall c; State_Monad.return (fst r) }"

definition EINPROGRESS :: int where "EINPROGRESS = 115"
definition O_NONBLOCK :: int where "O_NONBLOCK = 2048"

section \<open>The helpers\<close>

definition close_fail :: "int \<Rightarrow> (os, int) state" where
  "close_fail fd = do { _ \<leftarrow> do_call (Sys_close fd); State_Monad.return (- 1) }"

definition udp_socket :: "(os, int) state" where
  "udp_socket = do { fd \<leftarrow> do_call (Sys_socket SOCK_DGRAM); State_Monad.return (if fd < 0 then - 1 else fd) }"

definition udp_connect :: "string \<Rightarrow> int \<Rightarrow> (os, int) state" where
  "udp_connect host port = do {
     found \<leftarrow> do_call (Sys_getaddrinfo host port);
     if found \<noteq> 0 then State_Monad.return (- 1)
     else do {
       fd \<leftarrow> do_call (Sys_socket SOCK_DGRAM);
       if fd < 0 then State_Monad.return (- 1)
       else do {
         r \<leftarrow> do_call (Sys_connect fd host port);
         if r < 0 then close_fail fd else State_Monad.return fd } } }"

definition any_ip :: "string \<Rightarrow> string" where
  "any_ip ip = (if ip = [] then ''0.0.0.0'' else ip)"

definition udp_bind :: "string \<Rightarrow> int \<Rightarrow> (os, int) state" where
  "udp_bind ip port = do {
     fd \<leftarrow> do_call (Sys_socket SOCK_DGRAM);
     if fd < 0 then State_Monad.return (- 1)
     else do {
       _ \<leftarrow> do_call (Sys_reuseaddr fd);
       if \<not> is_valid_ipv4 (any_ip ip) then close_fail fd
       else do {
         r \<leftarrow> do_call (Sys_bind fd (any_ip ip) (word_of_int port));
         if r < 0 then close_fail fd else State_Monad.return fd } } }"

definition udp_sendto :: "int \<Rightarrow> bytes \<Rightarrow> string \<Rightarrow> int \<Rightarrow> (os, int) state" where
  "udp_sendto fd buf ip port =
     (if \<not> is_valid_ipv4 ip then State_Monad.return (- 1)
      else do { r \<leftarrow> do_call (Sys_sendto fd buf ip (word_of_int port)); State_Monad.return (if r < 0 then - 1 else r) })"

definition udp_recvfrom :: "int \<Rightarrow> nat \<Rightarrow> (os, int \<times> string \<times> int) state" where
  "udp_recvfrom fd cap = do {
     (n, ip, port) \<leftarrow> syscall (Sys_recvfrom fd cap);
     State_Monad.return (if n < 0 then (- 1, [], 0) else (n, ip, port)) }"

definition set_nonblocking :: "int \<Rightarrow> (os, int) state" where
  "set_nonblocking fd = do {
     fl \<leftarrow> do_call (Sys_getfl fd);
     if fl < 0 then State_Monad.return (- 1) else do_call (Sys_setfl fd (fl OR O_NONBLOCK)) }"

definition tcp_listen :: "string \<Rightarrow> int \<Rightarrow> (os, int) state" where
  "tcp_listen ip port = do {
     fd \<leftarrow> do_call (Sys_socket SOCK_STREAM);
     if fd < 0 then State_Monad.return (- 1)
     else do {
       _ \<leftarrow> do_call (Sys_reuseaddr fd);
       if \<not> is_valid_ipv4 (any_ip ip) then close_fail fd
       else do {
         r \<leftarrow> do_call (Sys_bind fd (any_ip ip) (word_of_int port));
         if r < 0 then close_fail fd
         else do {
           l \<leftarrow> do_call (Sys_listen fd 16);
           if l < 0 then close_fail fd
           else do {
             b \<leftarrow> set_nonblocking fd;
             if b < 0 then close_fail fd else State_Monad.return fd } } } } }"

definition tcp_accept :: "int \<Rightarrow> (os, int \<times> string \<times> int) state" where
  "tcp_accept listen_fd = do {
     (fd, ip, port) \<leftarrow> syscall (Sys_accept listen_fd);
     if fd < 0 then State_Monad.return (- 1, [], 0)
     else do {
       b \<leftarrow> set_nonblocking fd;
       if b < 0 then do { r \<leftarrow> close_fail fd; State_Monad.return (r, [], 0) }
       else State_Monad.return (fd, ip, port) } }"

definition tcp_connect_start :: "string \<Rightarrow> int \<Rightarrow> (os, int) state" where
  "tcp_connect_start ip port = do {
     fd \<leftarrow> do_call (Sys_socket SOCK_STREAM);
     if fd < 0 then State_Monad.return (- 1)
     else do {
       b \<leftarrow> set_nonblocking fd;
       if b < 0 then close_fail fd
       else if \<not> is_valid_ipv4 ip then close_fail fd
       else do {
         r \<leftarrow> do_call (Sys_connect fd ip (uint (word_of_int port :: u16)));
         if r < 0 \<and> r \<noteq> - EINPROGRESS then close_fail fd else State_Monad.return fd } } }"

text \<open>The second result is what \<open>sockerr\<close> is set to; the answer to \<open>SO_ERROR\<close> is the pending error.\<close>

definition tcp_connect_finish :: "int \<Rightarrow> (os, int \<times> int) state" where
  "tcp_connect_finish fd = do {
     err \<leftarrow> do_call (Sys_so_error fd);
     State_Monad.return (if err < 0 then (- 1, - err) else (if err = 0 then 0 else - 1, err)) }"

section \<open>Descriptors\<close>

fun creates :: "syscall \<Rightarrow> bool" where
  "creates (Sys_socket _) = True"
| "creates (Sys_accept _) = True"
| "creates _ = False"

text \<open>The descriptors that a sequence of calls has created, and those it has closed.\<close>

definition opened :: "(syscall \<times> answer) list \<Rightarrow> int list" where
  "opened tr = map (fst \<circ> snd) (filter (\<lambda>(c, r). creates c \<and> 0 \<le> fst r) tr)"

definition closed :: "(syscall \<times> answer) list \<Rightarrow> int list" where
  "closed tr = concat (map (\<lambda>(c, r). case c of Sys_close fd \<Rightarrow> [fd] | _ \<Rightarrow> []) tr)"

fun made_nonblocking :: "int \<Rightarrow> (syscall \<times> answer) list \<Rightarrow> bool" where
  "made_nonblocking fd [] = False"
| "made_nonblocking fd ((c, r) # tr) =
     ((case c of Sys_setfl f fl \<Rightarrow> f = fd \<and> bit fl 11 \<and> 0 \<le> fst r | _ \<Rightarrow> False) \<or> made_nonblocking fd tr)"

text \<open>
  A helper hands out exactly the one descriptor that it has created and closes none, or it fails with
  -1 and has closed whatever it created; \<open>P\<close> is what it promises of the descriptor.
\<close>

definition clean :: "(int \<Rightarrow> (syscall \<times> answer) list \<Rightarrow> bool) \<Rightarrow> (os, int) state \<Rightarrow> bool" where
  "clean P m \<longleftrightarrow> (\<forall>w. \<exists>tr. let (fd, w') = run_state m w in
     os_trace w' = os_trace w @ tr \<and>
     (if 0 \<le> fd then opened tr = [fd] \<and> closed tr = [] \<and> P fd tr else fd = - 1 \<and> closed tr = opened tr))"

lemma run_call: "run_state (do_call c) w =
    (let r = os_answer w (length (os_trace w)) c in (fst r, w\<lparr>os_trace := os_trace w @ [(c, r)]\<rparr>))"
  by (simp add: do_call_def syscall_def Let_def)

lemma trace_simps [simp]:
  "opened [] = []" "closed [] = []"
  "opened ((c, r) # tr) = (if creates c \<and> 0 \<le> fst r then fst r # opened tr else opened tr)"
  "closed ((c, r) # tr) = (case c of Sys_close fd \<Rightarrow> fd # closed tr | _ \<Rightarrow> closed tr)"
  by (simp_all add: opened_def closed_def split: syscall.split)

lemma nonblock_bit: "bit (fl OR O_NONBLOCK) 11"
  by (simp add: O_NONBLOCK_def bit_or_iff)

lemmas helper_defs = clean_def udp_socket_def udp_connect_def udp_bind_def tcp_listen_def tcp_connect_start_def tcp_accept_def
  set_nonblocking_def close_fail_def run_call Let_def

text \<open>
  C30: no socket helper loses a descriptor, whatever the system answers.  Each hands out the one
  descriptor that it has opened, or returns -1 with everything closed again; the descriptors of the
  TCP helpers have been made nonblocking.
\<close>

theorem helpers_never_leak:
  "clean (\<lambda>_ _. True) udp_socket \<and> clean (\<lambda>_ _. True) (udp_connect ip port) \<and> clean (\<lambda>_ _. True) (udp_bind ip port) \<and>
   clean made_nonblocking (tcp_listen ip port) \<and> clean made_nonblocking (tcp_connect_start ip port) \<and>
   clean made_nonblocking (do { r \<leftarrow> tcp_accept lfd; State_Monad.return (fst r) })"
proof (intro conjI)
  show "clean (\<lambda>_ _. True) udp_socket" "clean (\<lambda>_ _. True) (udp_connect ip port)" "clean (\<lambda>_ _. True) (udp_bind ip port)"
    by (auto simp: helper_defs)
  show "clean made_nonblocking (tcp_listen ip port)" by (auto simp: helper_defs nonblock_bit)
  show "clean made_nonblocking (tcp_connect_start ip port)" by (auto simp: helper_defs nonblock_bit)
  show "clean made_nonblocking (do { r \<leftarrow> tcp_accept lfd; State_Monad.return (fst r) })"
    by (auto simp: helper_defs nonblock_bit syscall_def split: prod.split)
qed

text \<open>A connect that is refused at once fails the start already, not only \<open>tcp_connect_finish\<close>.\<close>

lemma refused_at_once:
  assumes "is_valid_ipv4 ip" "\<And>n t. os_answer w n (Sys_socket t) = (7, [], 0)" "\<And>n fd. os_answer w n (Sys_getfl fd) = (0, [], 0)"
    "\<And>n fd fl. os_answer w n (Sys_setfl fd fl) = (0, [], 0)" "\<And>n fd i q. os_answer w n (Sys_connect fd i q) = (- 111, [], 0)"
  shows "fst (run_state (tcp_connect_start ip port) w) = - 1"
  using assms by (simp add: helper_defs EINPROGRESS_def)

end
