(* ===== verification/Lines.thy ===== *)
theory Lines
  imports Cccc_Link
begin

text \<open>
  The line buffer of the control channel (\<open>feed_bytes\<close>): a locale for any buffer in a state, with the
  two buffers of the program, those of a link and of an unidentified connection, as its instances.
  What the peer writes arrives line by line however the network cuts it into reads.
\<close>

section \<open>Lines and their bytes\<close>

definition line_fits :: "nat \<Rightarrow> string \<Rightarrow> bool" where
  "line_fits cap l \<longleftrightarrow> Suc (length l) < cap \<and> set l \<inter> {CHR 0x00, CHR 0x0A, CHR 0x0D} = {}"

definition wire :: "string list \<Rightarrow> bytes" where
  "wire ls = List.map char_byte (concat (List.map (\<lambda>l. l @ newline) ls))"

lemma wire_simps: "wire [] = []" "wire (l # ls) = List.map char_byte l @ [0x0A] @ wire ls"
  by (simp_all add: wire_def char_byte_def)

lemma byte_char_inverse: "byte_char (char_byte c) = c"
proof -
  have "of_char c < (256 :: nat)" using of_char_mod_256 [of c, where 'a = nat] by (metis mod_less_divisor zero_less_numeral)
  then show ?thesis by (simp add: byte_char_def char_byte_def unat_of_nat)
qed

lemma byte_char_newline: "byte_char 0x0A = CHR 0x0A"
  using byte_char_inverse [of "CHR 0x0A"] by (simp add: char_byte_def)

lemma char_byte_newline: "char_byte c = 0x0A \<longleftrightarrow> c = CHR 0x0A"
proof
  assume "char_byte c = 0x0A"
  then have "byte_char (char_byte c) = byte_char 0x0A" by simp
  then show "c = CHR 0x0A" by (simp only: byte_char_inverse byte_char_newline)
qed (simp add: char_byte_def)

lemma line_end_line:
  assumes "line_fits cap l"
  shows "line_end (l @ newline) = l"
proof -
  have "l ! (length l - 1) \<noteq> CHR 0x0D" if "l \<noteq> []"
  proof -
    have "l ! (length l - 1) \<in> set l" using that by (intro nth_mem) simp
    then show ?thesis using assms by (auto simp: line_fits_def)
  qed
  then have "line_end (l @ newline) = cstr l"
    by (cases "l = []") (simp_all add: line_end_def Let_def nth_append)
  also have "\<dots> = l" using assms by (auto simp: cstr_def line_fits_def intro!: takeWhile_eq_all_conv [THEN iffD2])
  finally show ?thesis .
qed

lemma feed_append: "feed_bytes get put cap cb (xs @ ys) s = feed_bytes get put cap cb ys (feed_bytes get put cap cb xs s)"
  by (induction xs arbitrary: s) (simp_all add: Let_def)

lemma feed_chunks:
  "foldl (\<lambda>s c. feed_bytes get put cap cb c s) s cs = feed_bytes get put cap cb (concat cs) s"
  by (induction cs arbitrary: s) (simp_all add: feed_append)

section \<open>A buffer in a state\<close>

text \<open>What the handler of a line sees: the line with its newline is still in the buffer, and afterwards it is empty.\<close>

definition deliver :: "(string \<Rightarrow> 's \<Rightarrow> 's) \<Rightarrow> (string \<Rightarrow> 's \<Rightarrow> 's) \<Rightarrow> string \<Rightarrow> 's \<Rightarrow> 's" where
  "deliver put cb l s = put [] (cb l (put (l @ newline) s))"

locale line_buffer =
  fixes get :: "'s \<Rightarrow> string" and put :: "string \<Rightarrow> 's \<Rightarrow> 's" and cap :: nat
  assumes get_put: "get (put b s) = b"
    and put_put: "put b (put a s) = put b s"
    and put_get: "put (get s) s = s"
begin

lemma feed_text:
  assumes "CHR 0x0A \<notin> set l" "length (get s) + length l < cap"
  shows "feed_bytes get put cap cb (List.map char_byte l) s = put (get s @ l) s"
  using assms
proof (induction l arbitrary: s)
  case (Cons c l)
  have "c \<noteq> CHR 0x0A" "length (get s) < cap - 1" using Cons.prems by auto
  then show ?case
    using Cons.prems Cons.IH [of "put (get s @ [c]) s"]
    by (simp add: Let_def char_byte_newline byte_char_inverse get_put put_put)
qed (simp add: put_get)

lemma feed_line:
  assumes "line_fits cap l" "get s = []"
  shows "feed_bytes get put cap cb (List.map char_byte l @ [0x0A]) s = deliver put cb l s"
proof -
  have "feed_bytes get put cap cb (List.map char_byte l) s = put l s"
    using feed_text [of l s cb] assms by (simp add: line_fits_def)
  moreover have "length l < cap - 1" using assms(1) by (auto simp: line_fits_def)
  ultimately show ?thesis
    using assms line_end_line [OF assms(1)]
    by (simp add: feed_append Let_def get_put put_put deliver_def line_fits_def byte_char_newline)
qed

lemma feed_lines:
  assumes "\<forall>l \<in> set ls. line_fits cap l" "get s = []"
  shows "feed_bytes get put cap cb (wire ls) s = fold (deliver put cb) ls s"
  using assms
proof (induction ls arbitrary: s)
  case (Cons l ls)
  have "feed_bytes get put cap cb (wire (l # ls)) s =
      feed_bytes get put cap cb (wire ls) (feed_bytes get put cap cb (List.map char_byte l @ [0x0A]) s)"
    by (simp only: wire_simps feed_append [symmetric] append_assoc)
  also have "\<dots> = feed_bytes get put cap cb (wire ls) (deliver put cb l s)"
    using Cons.prems by (simp add: feed_line)
  also have "\<dots> = fold (deliver put cb) ls (deliver put cb l s)"
    using Cons.prems by (intro Cons.IH) (simp_all add: deliver_def get_put)
  finally show ?case by simp
qed (simp add: wire_simps)

end

section \<open>The two buffers of the program\<close>

interpretation link_buf: line_buffer "\<lambda>s. lk_rxbuf (s_links s i)" "\<lambda>buf. on_link i (\<lambda>l. l\<lparr>lk_rxbuf := buf\<rparr>)" RXBUF_CAP for i
  by unfold_locales (simp_all add: on_link_def)

interpretation pending_buf: line_buffer "\<lambda>s. p_rxbuf (s_pending s k)" "\<lambda>buf. on_pending k (\<lambda>p. p\<lparr>p_rxbuf := buf\<rparr>)" RXBUF_CAP for k
  by unfold_locales (simp_all add: on_pending_def)

definition deliver_link :: "nat \<Rightarrow> string \<Rightarrow> sys \<Rightarrow> sys" where
  "deliver_link i = deliver (\<lambda>buf. on_link i (\<lambda>l. l\<lparr>lk_rxbuf := buf\<rparr>)) (link_on_line i)"

definition deliver_pending :: "nat \<Rightarrow> string \<Rightarrow> sys \<Rightarrow> sys" where
  "deliver_pending k = deliver (\<lambda>buf. on_pending k (\<lambda>p. p\<lparr>p_rxbuf := buf\<rparr>)) (pending_on_line k)"

text \<open>A series of reads, each of at most the 1024 bytes that one \<open>recv\<close> takes.\<close>

definition link_reads :: "nat \<Rightarrow> bytes list \<Rightarrow> sys \<Rightarrow> sys" where
  "link_reads i cs s = foldl (\<lambda>s c. on_link_tcp_readable i (In_bytes c) s) s cs"

definition pending_reads :: "nat \<Rightarrow> bytes list \<Rightarrow> sys \<Rightarrow> sys" where
  "pending_reads k cs s = foldl (\<lambda>s c. on_pending_readable k (In_bytes c) s) s cs"

definition cut_of :: "bytes list \<Rightarrow> string list \<Rightarrow> bool" where
  "cut_of cs ls \<longleftrightarrow> concat cs = wire ls \<and> (\<forall>c \<in> set cs. length c \<le> 1024)"

lemma reads_feed:
  assumes "\<forall>c \<in> set cs. length c \<le> 1024"
  shows "link_reads i cs s = feed_link i (link_on_line i) (concat cs) s"
    "pending_reads k cs s = feed_pending k (pending_on_line k) (concat cs) s"
  using assms
  by (induction cs arbitrary: s)
     (simp_all add: link_reads_def pending_reads_def on_link_tcp_readable_def on_pending_readable_def
       feed_link_def feed_pending_def feed_append)

text \<open>
  The lines of the control channel survive the network: however the bytes of a sequence of lines are
  cut into reads, a link and an unidentified connection handle exactly these lines, in their order,
  each once, with nothing left in the buffer in between.
\<close>

lemma link_reads_lines:
  assumes "cut_of cs ls" "\<forall>l \<in> set ls. line_fits RXBUF_CAP l" "lk_rxbuf (s_links s i) = []"
  shows "link_reads i cs s = fold (deliver_link i) ls s"
  using assms link_buf.feed_lines [of ls s i] by (simp add: cut_of_def reads_feed feed_link_def deliver_link_def)

lemma pending_reads_lines:
  assumes "cut_of cs ls" "\<forall>l \<in> set ls. line_fits RXBUF_CAP l" "p_rxbuf (s_pending s k) = []"
  shows "pending_reads k cs s = fold (deliver_pending k) ls s"
  using assms pending_buf.feed_lines [of ls s k] by (simp add: cut_of_def reads_feed feed_pending_def deliver_pending_def)

end
