(* ===== verification/Handshake.thy ===== *)
theory Handshake
  imports Link_Life Lines
begin

text \<open>
  The handshake of a link from both sides, over the lines of \<open>Lines\<close>: what the seven lines of an
  Answer decide, what the eight lines of a Question decide, and that a bridge's own texts bring the
  other side's link up.
\<close>

section \<open>Lines that are collected\<close>

lemma collect_answer:
  assumes "lk_state (s_links s i) = LST_HANDSHAKING" "ls \<noteq> []"
    and "length (lk_hslines (s_links s i)) + length ls < CCCC_ANSWER_NFIELDS"
  shows "fold (deliver_link i) ls s =
    on_link i (\<lambda>l. l\<lparr>lk_hslines := lk_hslines l @ List.map (take 255) ls, lk_rxbuf := []\<rparr>) s"
  using assms
proof (induction ls arbitrary: s)
  case (Cons l ls)
  let ?t = "on_link i (\<lambda>k. k\<lparr>lk_hslines := lk_hslines k @ [take 255 l], lk_rxbuf := []\<rparr>) s"
  have step: "deliver_link i l s = ?t"
    using Cons.prems by (simp add: deliver_link_def deliver_def link_on_line_def Let_def) (simp add: on_link_def)
  show ?case
  proof (cases "ls = []")
    case False
    have "fold (deliver_link i) ls ?t =
        on_link i (\<lambda>k. k\<lparr>lk_hslines := lk_hslines k @ List.map (take 255) ls, lk_rxbuf := []\<rparr>) ?t"
      using Cons.prems False by (intro Cons.IH) simp_all
    then show ?thesis by (simp add: step) (simp add: on_link_def)
  qed (simp add: step)
qed simp

lemma collect_question:
  assumes "ls \<noteq> []" "length (p_qlines (s_pending s k)) + length ls < CCCC_QUESTION_NFIELDS"
  shows "fold (deliver_pending k) ls s =
    on_pending k (\<lambda>p. p\<lparr>p_qlines := p_qlines p @ List.map (take 255) ls, p_rxbuf := []\<rparr>) s"
  using assms
proof (induction ls arbitrary: s)
  case (Cons l ls)
  let ?t = "on_pending k (\<lambda>p. p\<lparr>p_qlines := p_qlines p @ [take 255 l], p_rxbuf := []\<rparr>) s"
  have step: "deliver_pending k l s = ?t"
    using Cons.prems by (simp add: deliver_pending_def deliver_def pending_on_line_def Let_def) (simp add: on_pending_def)
  show ?case
  proof (cases "ls = []")
    case False
    have "fold (deliver_pending k) ls ?t =
        on_pending k (\<lambda>p. p\<lparr>p_qlines := p_qlines p @ List.map (take 255) ls, p_rxbuf := []\<rparr>) ?t"
      using Cons.prems False by (intro Cons.IH) simp_all
    then show ?thesis by (simp add: step) (simp add: on_pending_def)
  qed (simp add: step)
qed simp

section \<open>The Answer\<close>

lemma teardown_down:
  "lk_state (s_links (teardown_link_connection i s) i) = LST_DOWN"
  "\<not> lk_has_sync_source (s_links (teardown_link_connection i s) i)"
  "lk_reconnect_timer (s_links (teardown_link_connection i s) i) =
     (if outbound s i \<and> lk_active (s_links s i) then Some (ev_next_id (s_loop s)) else lk_reconnect_timer (s_links s i))"
proof -
  let ?m = "maybe_down (lk_state (s_links s i) = LST_UP) i (reset_link i s)"
  note k = call_step_keeps [OF maybe_down_step(1) [of i "reset_link i s" "lk_state (s_links s i) = LST_UP"]]
  have "ev_next_id (s_loop (reset_link i s)) = ev_next_id (s_loop s)"
    by (simp add: reset_link_def close_link_fd_def cancel_keepalive_def Let_def ev_del_fd_def ev_del_fd_write_def
        ev_timer_cancel_def split: option.split)
  then show "lk_state (s_links (teardown_link_connection i s) i) = LST_DOWN"
    "\<not> lk_has_sync_source (s_links (teardown_link_connection i s) i)"
    "lk_reconnect_timer (s_links (teardown_link_connection i s) i) =
       (if outbound s i \<and> lk_active (s_links s i) then Some (ev_next_id (s_loop s)) else lk_reconnect_timer (s_links s i))"
    using k by (simp_all add: teardown_parts Let_def schedule_fields reset_link_fields)
qed

text \<open>The link that the last line of an Answer leaves behind.\<close>

definition answered :: "sys \<Rightarrow> nat \<Rightarrow> string list \<Rightarrow> sys \<Rightarrow> bool" where
  "answered s i ls t \<longleftrightarrow>
     (if ls ! 0 = CCCC_CODEC_AMBE \<and> atoi (ls ! 1) = CCCC_MS_PER_FRAME
      then lk_state (s_links t i) = LST_UP \<and> lk_keepalive_timer (s_links t i) \<noteq> None \<and>
        lk_last_keepalive_recv (s_links t i) = s_now s \<and> lk_has_sync_source (s_links t i) = lk_has_sync_source (s_links s i) \<and>
        lk_sync_source (s_links t i) = lk_sync_source (s_links s i) \<and> lk_fd (s_links t i) = lk_fd (s_links s i)
      else lk_state (s_links t i) = LST_DOWN \<and> \<not> lk_has_sync_source (s_links t i) \<and>
        (outbound s i \<and> lk_active (s_links s i) \<longrightarrow> lk_reconnect_timer (s_links t i) \<noteq> None))"

lemma finish_answered:
  assumes "lk_hslines (s_links u i) = ls"
    and "u = on_link i (\<lambda>l. l\<lparr>lk_rxbuf := b, lk_hslines := ls\<rparr>) s"
  shows "answered s i ls (on_link i (\<lambda>l. l\<lparr>lk_rxbuf := []\<rparr>) (finish_outbound_handshake i u))"
proof -
  have "s_links (translator_cccc_link_up i v) = s_links v" for v by (simp add: translator_cccc_link_up_def on_runtime_def)
  then show ?thesis
    by (auto simp: answered_def finish_outbound_handshake_def assms(2) Let_def arm_keepalive_def rearm_fields teardown_down)
       (simp_all add: on_link_def)
qed

lemma answer_lines:
  assumes "lk_state (s_links s i) = LST_HANDSHAKING" "lk_hslines (s_links s i) = []" "length ls = CCCC_ANSWER_NFIELDS"
    and "\<forall>l \<in> set ls. length l < 256"
  shows "answered s i ls (fold (deliver_link i) ls s)"
proof -
  obtain ks l where ls: "ls = ks @ [l]" "length ks = 6"
    using assms(3) by (cases ls rule: rev_cases) (auto simp: CCCC_ANSWER_NFIELDS_def)
  have short: "List.map (take 255) ks = ks" "take 255 l = l"
    using assms(4) by (auto simp: ls(1) less_Suc_eq_le numeral_eq_Suc intro!: map_idI)
  have ne: "ks \<noteq> []" using ls(2) by auto
  let ?s = "on_link i (\<lambda>k. k\<lparr>lk_hslines := ks, lk_rxbuf := []\<rparr>) s"
  have "fold (deliver_link i) ks s = ?s"
    using collect_answer [OF assms(1) ne] assms(2) ls(2) short(1)
    by (auto simp: CCCC_ANSWER_NFIELDS_def on_link_def)
  then have "fold (deliver_link i) ls s = on_link i (\<lambda>k. k\<lparr>lk_rxbuf := []\<rparr>)
      (finish_outbound_handshake i (on_link i (\<lambda>k. k\<lparr>lk_rxbuf := l @ newline, lk_hslines := ls\<rparr>) s))"
    using assms(1) ls(2) short(2)
    by (simp add: ls(1) deliver_link_def deliver_def link_on_line_def Let_def CCCC_ANSWER_NFIELDS_def)
       (simp add: on_link_def)
  then show ?thesis by (simp add: finish_answered)
qed

section \<open>The Question\<close>

lemma teardown_frame:
  "s_cfg (teardown_link_connection i s) = s_cfg s" "s_pending (teardown_link_connection i s) = s_pending s"
  "s_now (teardown_link_connection i s) = s_now s" "s_wall (teardown_link_connection i s) = s_wall s"
proof -
  have r: "s_now (reset_link i s) = s_now s" "s_wall (reset_link i s) = s_wall s"
    by (simp_all add: reset_link_def close_link_fd_def cancel_keepalive_def Let_def access_defs)
  have m: "s_wall (maybe_down b i u) = s_wall u" for b u
    using maybe_down_step(1) [of i u b] by (auto simp: call_step_def only_sends_def)
  have d: "s_now (schedule_reconnect i u) = s_now u" "s_wall (schedule_reconnect i u) = s_wall u" for u
    by (simp_all add: schedule_reconnect_def case_prod_beta access_defs)
  note k = call_step_keeps [OF maybe_down_step(1) [of i "reset_link i s" "lk_state (s_links s i) = LST_UP"]]
  show "s_cfg (teardown_link_connection i s) = s_cfg s" "s_pending (teardown_link_connection i s) = s_pending s"
    "s_now (teardown_link_connection i s) = s_now s" "s_wall (teardown_link_connection i s) = s_wall s"
    using k r m d by (simp_all add: teardown_parts Let_def schedule_fields reset_link_fields)
qed

text \<open>A connection becomes the link's: it is up under the number of the Question and the Answer is sent last.\<close>

definition taken_over :: "sys \<Rightarrow> nat \<Rightarrow> int \<Rightarrow> u32 \<Rightarrow> sys \<Rightarrow> bool" where
  "taken_over s i fd v t \<longleftrightarrow>
     lk_state (s_links t i) = LST_UP \<and> lk_fd (s_links t i) = fd \<and> lk_has_sync_source (s_links t i) \<and>
     lk_sync_source (s_links t i) = v \<and> lk_last_keepalive_recv (s_links t i) = s_now s \<and>
     lk_keepalive_timer (s_links t i) \<noteq> None \<and>
     last (s_out t) = Tcp_send fd (build_answer (s_wall s) (c_site_name (s_cfg s)) (c_os_version (s_cfg s)) (c_version (s_cfg s)))"

lemma accept_result:
  "taken_over s i (p_fd (s_pending s k)) v (accept_question k i v s)"
  "s_pending (accept_question k i v s) =
     (s_pending s)(k := (s_pending s k)\<lparr>p_timeout_timer := None, p_in_use := False, p_fd := - 1\<rparr>)"
  "s_cfg (accept_question k i v s) = s_cfg s"
proof -
  define a where "a = (if lk_state (s_links s i) \<noteq> LST_DOWN then teardown_link_connection i s else s)"
  have a: "s_cfg a = s_cfg s" "s_pending a = s_pending s" "s_now a = s_now s" "s_wall a = s_wall s"
    by (simp_all add: a_def teardown_frame)
  have out: "s_out (free_pending k False u) = s_out u" "s_out (translator_cccc_link_up i u) = s_out u"
    "s_links (translator_cccc_link_up i u) = s_links u" "s_pending (translator_cccc_link_up i u) = s_pending u"
    "s_out (rearm_keepalive i u) = s_out u" "s_cfg (translator_cccc_link_up i u) = s_cfg u" for u
    by (simp_all add: free_pending_def translator_cccc_link_up_def rearm_keepalive_def case_prod_beta Let_def access_defs)
  show "taken_over s i (p_fd (s_pending s k)) v (accept_question k i v s)"
    by (simp add: accept_question_def a_def [symmetric] taken_over_def Let_def out free_pending_fields arm_keepalive_def
        rearm_fields tcp_send_def a) (simp add: a out access_defs)
  show "s_pending (accept_question k i v s) =
     (s_pending s)(k := (s_pending s k)\<lparr>p_timeout_timer := None, p_in_use := False, p_fd := - 1\<rparr>)"
    by (simp add: accept_question_def a_def [symmetric] Let_def out free_pending_fields arm_keepalive_def
        rearm_fields tcp_send_def a)
  show "s_cfg (accept_question k i v s) = s_cfg s"
    by (simp add: accept_question_def a_def [symmetric] Let_def out free_pending_fields arm_keepalive_def
        rearm_fields tcp_send_def a)
qed

text \<open>What the eighth line of a Question decides, by its first two fields.\<close>

definition questioned :: "sys \<Rightarrow> nat \<Rightarrow> string list \<Rightarrow> sys \<Rightarrow> bool" where
  "questioned s k ls t \<longleftrightarrow>
     (let v = ucast (strtoul 16 (ls ! 0)); fd = p_fd (s_pending s k) in
      \<not> p_in_use (s_pending t k) \<and>
      (case match_inbound (s_cfg s) (p_src_ip (s_pending s k)) (atoi (ls ! 1)) of
         None \<Rightarrow> s_links t = s_links s \<and> (0 \<le> fd \<longrightarrow> last (s_out t) = Close fd)
       | Some i \<Rightarrow>
           if find_link_by_ssrc s v \<in> {None, Some i} then taken_over s i fd v t
           else s_links t = s_links s \<and> (0 \<le> fd \<longrightarrow> last (s_out t) = Close fd)))"

lemma find_ssrc_cong: "s_links t = s_links s \<Longrightarrow> s_cfg t = s_cfg s \<Longrightarrow> find_link_by_ssrc t v = find_link_by_ssrc s v"
  by (simp add: find_link_by_ssrc_def)

lemma complete_cases:
  assumes "u = on_pending k (\<lambda>p. p\<lparr>p_rxbuf := b, p_qlines := ls\<rparr>) s"
  shows "handle_question_complete k u =
    (case match_inbound (s_cfg s) (p_src_ip (s_pending s k)) (atoi (ls ! 1)) of
       None \<Rightarrow> free_pending k True (cancel_pending_timer k u)
     | Some i \<Rightarrow>
         if find_link_by_ssrc s (ucast (strtoul 16 (ls ! 0))) \<in> {None, Some i}
         then accept_question k i (ucast (strtoul 16 (ls ! 0))) (cancel_pending_timer k u)
         else free_pending k True (cancel_pending_timer k u))"
proof -
  have c: "s_links (cancel_pending_timer k u) = s_links s" "s_cfg (cancel_pending_timer k u) = s_cfg s"
    by (simp_all add: cancel_pending_fields assms)
  show ?thesis
    unfolding handle_question_complete_def Let_def cancel_pending_timer_def [symmetric] c(2) find_ssrc_cong [OF c, symmetric]
    by (auto simp: cancel_pending_fields assms split: option.split)
qed

lemma complete_slot:
  "s_pending (handle_question_complete k u) =
     (s_pending u)(k := (s_pending u k)\<lparr>p_timeout_timer := None, p_in_use := False, p_fd := - 1\<rparr>)"
  "s_cfg (handle_question_complete k u) = s_cfg u"
  by (rule handle_question_cases [of k u]; simp add: free_pending_fields accept_result(2,3) cancel_pending_fields)+

lemma complete_questioned:
  assumes "u = on_pending k (\<lambda>p. p\<lparr>p_rxbuf := b, p_qlines := ls\<rparr>) s"
  shows "questioned s k ls (on_pending k (\<lambda>p. p\<lparr>p_rxbuf := []\<rparr>) (handle_question_complete k u))"
proof -
  let ?c = "cancel_pending_timer k u" and ?v = "ucast (strtoul 16 (ls ! 0)) :: u32" and ?fd = "p_fd (s_pending s k)"
  have c: "s_links ?c = s_links s" "s_cfg ?c = s_cfg s" "p_fd (s_pending ?c k) = ?fd" "s_now ?c = s_now s" "s_wall ?c = s_wall s"
    by (simp_all add: cancel_pending_fields assms) (simp_all add: cancel_pending_timer_def access_defs)
  have refuse: "0 \<le> ?fd \<Longrightarrow> last (s_out (free_pending k True ?c)) = Close ?fd"
    using c(3) by (simp add: free_pending_eq cancel_pending_fields) (simp add: cancel_pending_timer_def access_defs)
  have taken: "taken_over s i ?fd ?v (accept_question k i ?v ?c)" for i
    using accept_result(1) [of ?c i k ?v] by (simp add: taken_over_def c)
  have o: "s_out (on_pending k f w) = s_out w" for f w by (simp add: on_pending_def)
  show ?thesis
    unfolding questioned_def Let_def complete_cases [OF assms]
    using refuse taken
    by (auto simp: free_pending_fields accept_result(2) c(1) o taken_over_def split: option.split)
qed

lemma question_fold:
  assumes "p_qlines (s_pending s k) = []" "length ls = CCCC_QUESTION_NFIELDS" "\<forall>l \<in> set ls. length l < 256"
  shows "\<exists>b. fold (deliver_pending k) ls s = on_pending k (\<lambda>p. p\<lparr>p_rxbuf := []\<rparr>)
      (handle_question_complete k (on_pending k (\<lambda>p. p\<lparr>p_rxbuf := b, p_qlines := ls\<rparr>) s))"
proof -
  obtain ks l where ls: "ls = ks @ [l]" "length ks = 7"
    using assms(2) by (cases ls rule: rev_cases) (auto simp: CCCC_QUESTION_NFIELDS_def)
  have short: "List.map (take 255) ks = ks" "take 255 l = l"
    using assms(3) by (auto simp: ls(1) less_Suc_eq_le numeral_eq_Suc intro!: map_idI)
  have ne: "ks \<noteq> []" using ls(2) by auto
  let ?s = "on_pending k (\<lambda>p. p\<lparr>p_qlines := ks, p_rxbuf := []\<rparr>) s"
  have "fold (deliver_pending k) ks s = ?s"
    using collect_question [OF ne] assms(1) ls(2) short(1)
    by (auto simp: CCCC_QUESTION_NFIELDS_def on_pending_def)
  then have "fold (deliver_pending k) ls s = on_pending k (\<lambda>p. p\<lparr>p_rxbuf := []\<rparr>)
      (handle_question_complete k (on_pending k (\<lambda>p. p\<lparr>p_rxbuf := l @ newline, p_qlines := ls\<rparr>) s))"
    using ls(2) short(2)
    by (simp add: ls(1) deliver_pending_def deliver_def pending_on_line_def Let_def CCCC_QUESTION_NFIELDS_def)
       (simp add: on_pending_def)
  then show ?thesis by blast
qed

lemma question_lines:
  assumes "p_qlines (s_pending s k) = []" "length ls = CCCC_QUESTION_NFIELDS" "\<forall>l \<in> set ls. length l < 256"
  shows "questioned s k ls (fold (deliver_pending k) ls s)"
  using question_fold [OF assms] complete_questioned by auto

text \<open>The slot is free but still holds the eight fields.\<close>

lemma question_slot:
  assumes "p_qlines (s_pending s k) = []" "length ls = CCCC_QUESTION_NFIELDS" "\<forall>l \<in> set ls. length l < 256"
  defines "u \<equiv> fold (deliver_pending k) ls s"
  shows "p_qlines (s_pending u k) = ls" "p_fd (s_pending u k) = - 1" "p_src_ip (s_pending u k) = p_src_ip (s_pending s k)"
    "s_cfg u = s_cfg s"
  using question_fold [OF assms(1-3)] by (auto simp: u_def complete_slot)

section \<open>The texts of the bridge itself\<close>

definition line_text :: "string \<Rightarrow> bool" where
  "line_text l \<longleftrightarrow> length l < 128 \<and> set l \<inter> {CHR 0x00, CHR 0x0A, CHR 0x0D} = {}"

definition question_fields :: "u32 \<Rightarrow> int \<Rightarrow> string \<Rightarrow> string \<Rightarrow> string \<Rightarrow> string \<Rightarrow> string \<Rightarrow> string list" where
  "question_fields v lid channel sitename mac coderev os =
     [fmt_x v, fmt_d lid @ '' '', channel, sitename, CCCC_CONNTYPE_SERVER_INBOUND, mac, coderev, os]"

definition answer_fields :: "int \<times> int \<Rightarrow> string \<Rightarrow> string \<Rightarrow> string \<Rightarrow> string list" where
  "answer_fields clock sitename os version =
     [CCCC_CODEC_AMBE, fmt_d CCCC_MS_PER_FRAME, fmt_d (fst clock) @ '' '' @ fmt_d (snd clock), version, sitename, ''0'', os]"

lemma fields_wire:
  "List.map char_byte (build_question v lid channel sitename mac coderev os) =
     wire (question_fields v lid channel sitename mac coderev os)"
  "List.map char_byte (build_answer clock sitename os version) = wire (answer_fields clock sitename os version)"
  by (simp_all add: build_question_def question_fields_def build_answer_def answer_fields_def wire_def)

lemma not_control: "is_digit base c \<Longrightarrow> c \<notin> {CHR 0x00, CHR 0x0A, CHR 0x0D}"
  by (auto simp: is_digit_def digit_value_def split: if_splits)

lemma number_texts:
  "set (fmt_x v) \<inter> {CHR 0x00, CHR 0x0A, CHR 0x0D} = {}" "set (fmt_d i) \<inter> {CHR 0x00, CHR 0x0A, CHR 0x0D} = {}"
proof -
  show "set (fmt_x v) \<inter> {CHR 0x00, CHR 0x0A, CHR 0x0D} = {}"
  proof -
    have "\<forall>c \<in> set (fmt_x v). is_digit 16 c" unfolding fmt_x_def by (rule all_digits_show) simp_all
    then show ?thesis using not_control by blast
  qed
  have "CHR ''-'' \<notin> {CHR 0x00, CHR 0x0A, CHR 0x0D}" by simp
  then show "set (fmt_d i) \<inter> {CHR 0x00, CHR 0x0A, CHR 0x0D} = {}"
    using set_fmt_d not_control by blast
qed

lemma question_fields_fit:
  assumes "\<bar>lid\<bar> < 2 ^ 31" "\<forall>l \<in> {channel, sitename, mac, coderev, os}. line_text l"
  shows "\<forall>l \<in> set (question_fields v lid channel sitename mac coderev os). line_fits RXBUF_CAP l \<and> length l < 256"
  using assms length_fmt_x [of v] length_fmt_d [of lid] number_texts(1) [of v] number_texts(2) [of lid]
  by (simp add: question_fields_def line_fits_def line_text_def RXBUF_CAP_def CCCC_CONNTYPE_SERVER_INBOUND_def)

lemma answer_fields_fit:
  assumes "\<bar>fst clock\<bar> < 2 ^ 63" "\<bar>snd clock\<bar> < 2 ^ 63" "\<forall>l \<in> {sitename, os, version}. line_text l"
  shows "\<forall>l \<in> set (answer_fields clock sitename os version). line_fits RXBUF_CAP l \<and> length l < 256"
  using assms length_fmt_d_long [of "fst clock"] length_fmt_d_long [of "snd clock"] number_texts(2) [of "fst clock"]
    number_texts(2) [of "snd clock"] length_fmt_d [of 60] number_texts(2) [of 60]
  by (simp add: answer_fields_def line_fits_def line_text_def RXBUF_CAP_def CCCC_CODEC_AMBE_def CCCC_MS_PER_FRAME_def)

lemma ucast_strtoul_fmt_x: "ucast (strtoul 16 (fmt_x v)) = v"
proof -
  have "unat v < 2 ^ 64" using unat_u32_less [of v] by simp
  then have "strtoul 16 (fmt_x v @ []) = of_nat (unat v)"
    unfolding fmt_x_def by (intro strtoul_show) simp_all
  moreover have "ucast (ucast v :: u64) = v" by (rule bit_word_eqI) (simp add: bit_simps)
  ultimately show ?thesis by simp
qed

lemma atoi_fmt_d:
  assumes "0 \<le> i" "i < 2 ^ 31" "rest = [] \<or> \<not> is_digit 10 (hd rest)"
  shows "atoi (fmt_d i @ rest) = i"
proof -
  have "fmt_d i = show_nat 10 (nat i)" using assms(1) by (simp add: fmt_d_def)
  then show ?thesis
    using atoi_digits [of "show_nat 10 (nat i)" rest] all_digits_show [of 10 "nat i"] assms
    by (simp add: digits_value_show nat_less_iff)
qed

lemma question_says:
  assumes "0 \<le> lid" "lid < 2 ^ 31"
  shows "ucast (strtoul 16 (question_fields v lid a b m r w ! 0)) = v" "atoi (question_fields v lid a b m r w ! Suc 0) = lid"
    "length (question_fields v lid a b m r w) = CCCC_QUESTION_NFIELDS"
proof -
  have "\<not> is_digit 10 (CHR '' '')" by (simp add: is_digit_def digit_value_def)
  then show "atoi (question_fields v lid a b m r w ! Suc 0) = lid" using assms by (simp add: question_fields_def atoi_fmt_d)
qed (simp_all add: question_fields_def ucast_strtoul_fmt_x CCCC_QUESTION_NFIELDS_def)

lemma answer_says:
  "answer_fields clock b w x ! 0 = CCCC_CODEC_AMBE" "atoi (answer_fields clock b w x ! Suc 0) = CCCC_MS_PER_FRAME"
  "length (answer_fields clock b w x) = CCCC_ANSWER_NFIELDS"
  using atoi_fmt_d [of 60 "[]"] by (simp_all add: answer_fields_def CCCC_ANSWER_NFIELDS_def CCCC_MS_PER_FRAME_def)

section \<open>Properties\<close>

text \<open>
  C21: seven lines decide an outbound handshake, however their bytes are cut into reads.  Codec AMBE
  and a frame time of 60 ms bring the link up, under its SSRC, on its connection and with a keepalive
  timer; anything else takes it down without an SSRC and, if it is in service, with a reconnect.
\<close>

theorem answer_decides:
  assumes "lk_state (s_links s i) = LST_HANDSHAKING" "lk_hslines (s_links s i) = []" "lk_rxbuf (s_links s i) = []"
    and "length ls = CCCC_ANSWER_NFIELDS" "\<forall>l \<in> set ls. line_fits RXBUF_CAP l \<and> length l < 256" "cut_of cs ls"
  shows "answered s i ls (link_reads i cs s)"
  using link_reads_lines [OF assms(6) _ assms(3)] answer_lines [OF assms(1,2,4)] assms(5) by simp

definition demo_handshaking :: sys where
  "demo_handshaking = on_link 0 (\<lambda>l. l\<lparr>lk_state := LST_HANDSHAKING, lk_fd := 11, lk_has_sync_source := True,
     lk_sync_source := 0xABCD\<rparr>) demo_sys"

lemma answer_decides_witness:
  "lk_state (s_links (link_reads 0 [wire [''AMBE'', ''60'', ''0 0'', ''V'', ''S'', ''0'', ''O'']] demo_handshaking) 0) = LST_UP"
proof -
  let ?ls = "[''AMBE'', ''60'', ''0 0'', ''V'', ''S'', ''0'', ''O'']"
  have "cut_of [wire ?ls] ?ls" by (simp add: cut_of_def wire_def)
  moreover have "\<forall>l \<in> set ?ls. line_fits RXBUF_CAP l \<and> length l < 256" by (simp add: line_fits_def RXBUF_CAP_def)
  moreover have "lk_state (s_links demo_handshaking 0) = LST_HANDSHAKING" "lk_hslines (s_links demo_handshaking 0) = []"
    "lk_rxbuf (s_links demo_handshaking 0) = []"
    by (simp_all add: demo_handshaking_def on_link_def) (simp_all add: demo_defs)
  ultimately have "answered demo_handshaking 0 ?ls (link_reads 0 [wire ?ls] demo_handshaking)"
    by (intro answer_decides) (simp_all add: CCCC_ANSWER_NFIELDS_def)
  moreover have "atoi ''60'' = 60" by code_simp
  ultimately show ?thesis by (simp add: answered_def CCCC_CODEC_AMBE_def CCCC_MS_PER_FRAME_def)
qed

text \<open>
  C22: eight lines decide an unidentified connection, however their bytes are cut into reads.  The
  first enabled inbound link of that address and LID takes the connection over, under the SSRC of the
  Question, with the Answer sent last, unless another link has that SSRC; otherwise the connection
  is closed and no link changes.  The slot is free in every case.
\<close>

theorem question_decides:
  assumes "p_qlines (s_pending s k) = []" "p_rxbuf (s_pending s k) = []"
    and "length ls = CCCC_QUESTION_NFIELDS" "\<forall>l \<in> set ls. line_fits RXBUF_CAP l \<and> length l < 256" "cut_of cs ls"
  shows "questioned s k ls (pending_reads k cs s)"
  using pending_reads_lines [OF assms(5) _ assms(2)] question_lines [OF assms(1,3)] assms(4) by simp

definition demo_waiting :: sys where
  "demo_waiting = accept_connection demo_sys (20, ''10.0.0.3'')"

lemma demo_waiting_slot:
  "p_qlines (s_pending demo_waiting 0) = []" "p_rxbuf (s_pending demo_waiting 0) = []" "p_fd (s_pending demo_waiting 0) = 20"
  "p_src_ip (s_pending demo_waiting 0) = ''10.0.0.3''" "s_cfg demo_waiting = demo_config" "s_links demo_waiting = (\<lambda>_. zero_link)"
proof -
  have f: "find (\<lambda>k. \<not> p_in_use (s_pending demo_sys k)) [0..<MAX_PENDING] = Some 0"
    unfolding find_Some_iff by (intro exI [of _ 0]) (simp add: MAX_PENDING_def demo_defs)
  show "p_qlines (s_pending demo_waiting 0) = []" "p_rxbuf (s_pending demo_waiting 0) = []" "p_fd (s_pending demo_waiting 0) = 20"
    "p_src_ip (s_pending demo_waiting 0) = ''10.0.0.3''" "s_cfg demo_waiting = demo_config" "s_links demo_waiting = (\<lambda>_. zero_link)"
    by (simp_all add: demo_waiting_def accept_connection_def f Let_def access_defs case_prod_beta zero_pending_def)
       (simp_all add: demo_sys_def blank_sys_def)
qed

lemma demo_match: "match_inbound demo_config ''10.0.0.3'' 3 = Some 1"
  by (simp add: match_inbound_def demo_config_def demo_link_def n_link_def upt_rec numeral_2_eq_2)

lemma demo_no_ssrc: "find_link_by_ssrc demo_waiting v = None"
  by (simp add: find_ssrc_None demo_waiting_slot zero_link_def)

lemma question_decides_witness:
  "lk_state (s_links (pending_reads 0 [wire (question_fields 0xBEEF 3 ''C'' ''S'' ''M'' ''R'' ''O'')] demo_waiting) 1) = LST_UP"
proof -
  let ?ls = "question_fields 0xBEEF 3 ''C'' ''S'' ''M'' ''R'' ''O''"
  have "length (wire ?ls) \<le> 1024"
    using length_fmt_x [of "0xBEEF"] length_fmt_d [of 3] by (simp add: wire_def question_fields_def CCCC_CONNTYPE_SERVER_INBOUND_def)
  then have "cut_of [wire ?ls] ?ls" by (simp add: cut_of_def)
  moreover have "\<forall>l \<in> set ?ls. line_fits RXBUF_CAP l \<and> length l < 256"
    by (rule question_fields_fit) (simp_all add: line_text_def)
  ultimately have "questioned demo_waiting 0 ?ls (pending_reads 0 [wire ?ls] demo_waiting)"
    by (intro question_decides) (simp_all add: question_says demo_waiting_slot)
  moreover have "atoi (?ls ! Suc 0) = 3" using question_says(2) [of 3] by simp
  ultimately show ?thesis
    by (simp add: questioned_def demo_waiting_slot demo_match demo_no_ssrc taken_over_def Let_def)
qed

end
