(* ===== verification/Link_Props.thy ===== *)
theory Link_Props
  imports Handshake
begin

text \<open>
  Properties of a link over several events: a handshake between two bridges, the end of a link whose
  peer falls silent, keepalives that are sent back, and what a line after a complete Question does.
\<close>

section \<open>Two bridges meet\<close>

lemma connect_sends_question:
  assumes "on_connect_writable i fd (In_sockerr 0) s = Some t"
  shows "lk_state (s_links t i) = LST_HANDSHAKING" "lk_has_sync_source (s_links t i)" "s_cfg t = s_cfg s"
    "lk_hslines (s_links t i) = lk_hslines (s_links s i)" "lk_rxbuf (s_links t i) = lk_rxbuf (s_links s i)"
    "last (s_out t) = Tcp_send (lk_fd (s_links s i)) (build_question (lk_sync_source (s_links t i)) (l_cc_lid (link_cfg s i))
       (l_cc_channel_name (link_cfg s i)) (c_site_name (s_cfg s)) (c_mac_address (s_cfg s)) (c_code_revision (s_cfg s))
       (c_os_version (s_cfg s)))"
  using assms
  by (auto simp: on_connect_writable_def Let_def bind_eq_Some_conv tcp_send_def dest!: mint_Some)
     (auto simp: access_defs)

text \<open>
  C7: two bridges that are configured for each other bring their link up.  When a connect succeeds, a
  Question is sent; read by the other side in any pieces, it gives that side's inbound link the SSRC
  and an Answer is sent; read in any pieces, this brings the outbound link up under the same SSRC.
\<close>

theorem handshakes_meet:
  assumes connect: "on_connect_writable i fd (In_sockerr 0) a0 = Some a"
    and fresh: "lk_hslines (s_links a0 i) = []" "lk_rxbuf (s_links a0 i) = []"
    and slot: "p_qlines (s_pending b k) = []" "p_rxbuf (s_pending b k) = []"
    and match: "match_inbound (s_cfg b) (p_src_ip (s_pending b k)) (l_cc_lid (link_cfg a0 i)) = Some j"
    and free: "find_link_by_ssrc b (lk_sync_source (s_links a i)) \<in> {None, Some j}"
    and lid: "0 \<le> l_cc_lid (link_cfg a0 i)" "l_cc_lid (link_cfg a0 i) < 2 ^ 31"
    and texts: "\<forall>l \<in> {l_cc_channel_name (link_cfg a0 i), c_site_name (s_cfg a0), c_mac_address (s_cfg a0),
        c_code_revision (s_cfg a0), c_os_version (s_cfg a0)}. line_text l"
      "\<forall>l \<in> {c_site_name (s_cfg b), c_os_version (s_cfg b), c_version (s_cfg b)}. line_text l"
    and clock: "\<bar>fst (s_wall b)\<bar> < 2 ^ 63" "\<bar>snd (s_wall b)\<bar> < 2 ^ 63"
    and question: "last (s_out a) = Tcp_send x q" "concat cs = List.map char_byte q" "\<forall>c \<in> set cs. length c \<le> 1024"
    and answer: "last (s_out (pending_reads k cs b)) = Tcp_send y r" "concat ds = List.map char_byte r"
      "\<forall>c \<in> set ds. length c \<le> 1024"
  shows "lk_state (s_links (pending_reads k cs b) j) = LST_UP \<and> lk_state (s_links (link_reads i ds a) i) = LST_UP \<and>
    lk_sync_source (s_links (pending_reads k cs b) j) = lk_sync_source (s_links (link_reads i ds a) i)"
proof -
  note c = connect_sends_question [OF connect]
  let ?v = "lk_sync_source (s_links a i)" and ?lid = "l_cc_lid (link_cfg a0 i)" and ?t = "pending_reads k cs b"
  let ?qs = "question_fields ?v ?lid (l_cc_channel_name (link_cfg a0 i)) (c_site_name (s_cfg a0)) (c_mac_address (s_cfg a0))
      (c_code_revision (s_cfg a0)) (c_os_version (s_cfg a0))"
  let ?as = "answer_fields (s_wall b) (c_site_name (s_cfg b)) (c_os_version (s_cfg b)) (c_version (s_cfg b))"
  have q: "cut_of cs ?qs" using question c(6) by (auto simp: cut_of_def simp flip: fields_wire)
  have "questioned b k ?qs ?t"
    using pending_reads_lines [OF q _ slot(2)] question_lines [OF slot(1), of ?qs] question_fields_fit [OF _ texts(1), of ?lid ?v] lid
    by (simp add: question_says)
  then have t: "taken_over b j (p_fd (s_pending b k)) ?v ?t"
    using match free question_says(1,2) [OF lid] by (simp add: questioned_def Let_def)
  have r: "cut_of ds ?as" using answer t by (auto simp: cut_of_def taken_over_def simp flip: fields_wire)
  have "answered a i ?as (link_reads i ds a)"
    using link_reads_lines [OF r] answer_lines [OF c(1), of ?as] answer_fields_fit [OF clock texts(2)] fresh c(4,5)
    by (simp add: answer_says)
  then show ?thesis using t by (simp add: answered_def answer_says taken_over_def)
qed

definition demo_connecting :: sys where
  "demo_connecting = on_link 0 (\<lambda>l. l\<lparr>lk_state := LST_CONNECTING, lk_active := True, lk_fd := 11\<rparr>)
     (demo_sys\<lparr>s_cfg := demo_config\<lparr>c_link := [demo_link\<lparr>l_cc_lid := 3\<rparr>]\<rparr>\<rparr>)"

lemma demo_connects:
  obtains a where "on_connect_writable 0 11 (In_sockerr 0) demo_connecting = Some a" "lk_sync_source (s_links a 0) = 1"
proof -
  let ?s = "on_link 0 (\<lambda>l. l\<lparr>lk_state := LST_HANDSHAKING\<rparr>) (on_loop (ev_del_fd_write 11) demo_connecting)"
  have "find_link_by_ssrc (?s\<lparr>s_nrand := 1\<rparr>) 1 = None"
    unfolding find_ssrc_None
    by (simp add: demo_connecting_def on_link_def on_loop_def n_link_def) (simp add: demo_defs)
  then have "mint_sync_source ?s = Some (1, ?s\<lparr>s_nrand := 1\<rparr>)"
    by (subst mint_sync_source.simps)
       (simp add: next_rand_def demo_connecting_def on_link_def on_loop_def, simp add: demo_sys_def blank_sys_def)
  then have "\<exists>a. on_connect_writable 0 11 (In_sockerr 0) demo_connecting = Some a \<and> lk_sync_source (s_links a 0) = 1"
    by (simp add: on_connect_writable_def Let_def tcp_send_def)
  then show thesis using that by blast
qed

lemma demo_fields:
  "c_site_name demo_config = ''SITE''" "c_mac_address demo_config = ''001122334455''" "c_code_revision demo_config = ''1''"
  "c_os_version demo_config = ''L''" "c_version demo_config = ''1''" "l_cc_channel_name demo_link = ''CHAN''"
  by (simp_all add: demo_config_def demo_link_def)

lemma handshakes_meet_witness:
  "\<exists>a. on_connect_writable 0 11 (In_sockerr 0) demo_connecting = Some a \<and>
     lk_sync_source (s_links (pending_reads 0 [List.map char_byte (build_question 1 3 ''CHAN'' ''SITE'' ''001122334455'' ''1'' ''L'')]
       demo_waiting) 1) =
     lk_sync_source (s_links (link_reads 0 [List.map char_byte (build_answer (0, 0) ''SITE'' ''L'' ''1'')] a) 0)"
proof -
  obtain a where a: "on_connect_writable 0 11 (In_sockerr 0) demo_connecting = Some a" "lk_sync_source (s_links a 0) = 1"
    by (rule demo_connects)
  have c: "s_cfg demo_connecting = demo_config\<lparr>c_link := [demo_link\<lparr>l_cc_lid := 3\<rparr>]\<rparr>" "lk_fd (s_links demo_connecting 0) = 11"
    "lk_hslines (s_links demo_connecting 0) = []" "lk_rxbuf (s_links demo_connecting 0) = []" "s_wall demo_waiting = (0, 0)"
    by (simp_all add: demo_connecting_def zero_link_def on_link_def)
       (simp_all add: demo_waiting_def accept_connection_def case_prod_beta access_defs demo_sys_def blank_sys_def zero_link_def
         split: option.split)
  let ?q = "build_question 1 3 ''CHAN'' ''SITE'' ''001122334455'' ''1'' ''L''" and ?r = "build_answer (0, 0) ''SITE'' ''L'' ''1''"
  let ?t = "pending_reads 0 [List.map char_byte ?q] demo_waiting"
  have texts: "line_text ''CHAN''" "line_text ''SITE''" "line_text ''001122334455''" "line_text ''1''" "line_text ''L''"
    by (simp_all add: line_text_def)
  have short: "length ?q \<le> 1024" "length ?r \<le> 1024"
    using length_build_question [of 3 "''CHAN''" "''SITE''" "''001122334455''" "''1''" "''L''" 1]
      length_build_answer [of "(0, 0)" "''SITE''" "''L''" "''1''"] by simp_all
  have q: "last (s_out a) = Tcp_send 11 ?q"
    using connect_sends_question(6) [OF a(1)] a(2) by (simp add: c demo_fields)
  let ?ls = "question_fields 1 3 ''CHAN'' ''SITE'' ''001122334455'' ''1'' ''L''"
  have "\<forall>l \<in> set ?ls. line_fits RXBUF_CAP l \<and> length l < 256" by (rule question_fields_fit) (use texts in simp_all)
  then have "questioned demo_waiting 0 ?ls ?t"
    using pending_reads_lines [of "[List.map char_byte ?q]" ?ls] question_lines [of demo_waiting 0 ?ls] short(1)
    by (simp add: question_says demo_waiting_slot cut_of_def fields_wire [symmetric])
  then have t: "last (s_out ?t) = Tcp_send 20 ?r"
    using question_says [of 3] by (simp add: questioned_def demo_waiting_slot demo_match demo_no_ssrc taken_over_def Let_def c demo_fields)
  have "lk_state (s_links ?t 1) = LST_UP \<and> lk_state (s_links (link_reads 0 [List.map char_byte ?r] a) 0) = LST_UP \<and>
      lk_sync_source (s_links ?t 1) = lk_sync_source (s_links (link_reads 0 [List.map char_byte ?r] a) 0)"
    by (rule handshakes_meet [OF a(1) c(3,4) demo_waiting_slot(1,2) _ _ _ _ _ _ _ _ q _ _ t])
       (use texts short c in \<open>simp_all add: demo_waiting_slot demo_match demo_no_ssrc demo_fields\<close>)
  then show ?thesis using a(1) by (intro exI [of _ a]) simp
qed

section \<open>A silent peer\<close>

text \<open>The keepalive timer of a link fires one interval later and nothing else happens.\<close>

definition quiet_round :: "nat \<Rightarrow> sys \<Rightarrow> sys" where
  "quiet_round i s =
     (case lk_keepalive_timer (s_links s i) of
        None \<Rightarrow> s
      | Some h \<Rightarrow> keepalive_cb i (fired h (s\<lparr>s_now := s_now s + c_keepalive_interval (s_cfg s)\<rparr>)))"

definition keepalive_to :: "nat \<Rightarrow> sys \<Rightarrow> effect" where
  "keepalive_to i s = Udp_send (s_voice_fd s) (build_keepalive (lk_sync_source (s_links s i)))
     (l_cc_remote_ip (link_cfg s i)) (l_cc_remote_voice_port (link_cfg s i))"

text \<open>What stays as it was while the link is still waited for.\<close>

definition waited :: "nat \<Rightarrow> nat \<Rightarrow> sys \<Rightarrow> sys \<Rightarrow> bool" where
  "waited i k s t \<longleftrightarrow>
     lk_state (s_links t i) = LST_UP \<and> lk_keepalive_timer (s_links t i) \<noteq> None \<and>
     s_now t = s_now s + of_nat k * c_keepalive_interval (s_cfg s) \<and>
     lk_last_keepalive_recv (s_links t i) = lk_last_keepalive_recv (s_links s i) \<and> s_cfg t = s_cfg s \<and>
     keepalive_to i t = keepalive_to i s \<and> lk_active (s_links t i) = lk_active (s_links s i) \<and>
     s_out t = s_out s @ replicate k (keepalive_to i s)"

lemma quiet_round_waited:
  assumes "waited i k s t" "lk_last_keepalive_recv (s_links s i) = s_now s"
  shows "if of_nat (Suc k) * c_keepalive_interval (s_cfg s) \<le> c_link_timeout (s_cfg s)
     then waited i (Suc k) s (quiet_round i t)
     else lk_state (s_links (quiet_round i t) i) = LST_DOWN \<and> \<not> lk_has_sync_source (s_links (quiet_round i t) i) \<and>
       (outbound s i \<and> lk_active (s_links s i) \<longrightarrow> lk_reconnect_timer (s_links (quiet_round i t) i) \<noteq> None)"
proof -
  obtain h where h: "lk_keepalive_timer (s_links t i) = Some h" using assms(1) by (auto simp: waited_def)
  define u where "u = on_link i (\<lambda>l. l\<lparr>lk_keepalive_timer := None\<rparr>)
    (fired h (t\<lparr>s_now := s_now t + c_keepalive_interval (s_cfg t)\<rparr>))"
  define w where "w = emit (keepalive_to i s) u"
  have f: "s_cfg u = s_cfg s" "s_now u = s_now s + of_nat (Suc k) * c_keepalive_interval (s_cfg s)"
    "s_links u i = (s_links t i)\<lparr>lk_keepalive_timer := None\<rparr>" "s_out u = s_out t" "s_voice_fd u = s_voice_fd t"
    using assms(1) by (simp_all add: u_def fired_def on_link_def on_loop_def waited_def algebra_simps)
  have "udp_send_to_link i (build_keepalive (lk_sync_source (s_links u i))) u = w"
    using assms(1) f by (simp add: w_def udp_send_to_link_def keepalive_to_def waited_def)
  moreover have "s_now w - lk_last_keepalive_recv (s_links w i) = of_nat (Suc k) * c_keepalive_interval (s_cfg s)"
    "s_cfg w = s_cfg s"
    using assms f by (simp_all add: w_def emit_def waited_def)
  moreover have "quiet_round i t = (if lk_state (s_links u i) \<noteq> LST_UP then u
      else let v = udp_send_to_link i (build_keepalive (lk_sync_source (s_links u i))) u in
        if s_now v - lk_last_keepalive_recv (s_links v i) > c_link_timeout (s_cfg v) then teardown_link_connection i v
        else rearm_keepalive i v)"
    by (simp only: quiet_round_def h option.case keepalive_cb_def u_def Let_def)
  ultimately have r: "quiet_round i t = (if of_nat (Suc k) * c_keepalive_interval (s_cfg s) \<le> c_link_timeout (s_cfg s)
      then rearm_keepalive i w else teardown_link_connection i w)"
    using assms(1) f(3) by (simp add: Let_def waited_def not_less)
  have "waited i (Suc k) s (rearm_keepalive i w)"
    using assms(1) f
    by (simp add: waited_def rearm_fields keepalive_to_def replicate_append_same [symmetric] w_def)
       (simp add: rearm_keepalive_def case_prod_beta access_defs)
  then show ?thesis
    using assms(1) f by (auto simp: r teardown_down w_def waited_def)
qed

lemma quiet_rounds_waited:
  assumes "waited i 0 s s" "lk_last_keepalive_recv (s_links s i) = s_now s" "0 < c_keepalive_interval (s_cfg s)"
    and "of_nat k * c_keepalive_interval (s_cfg s) \<le> c_link_timeout (s_cfg s)"
  shows "waited i k s ((quiet_round i ^^ k) s)"
  using assms(4)
proof (induction k)
  case (Suc k)
  have "of_nat k * c_keepalive_interval (s_cfg s) \<le> of_nat (Suc k) * c_keepalive_interval (s_cfg s)"
    using assms(3) by (simp add: algebra_simps)
  then have "waited i k s ((quiet_round i ^^ k) s)" using Suc by (intro Suc.IH) linarith
  then show ?case using quiet_round_waited [OF _ assms(2)] Suc.prems by simp
qed (simp add: assms(1))

text \<open>
  C8: a link whose peer falls silent is given up in time and not before.  While its age is within the
  timeout, every round sends one keepalive and the link stays up; the first round after that takes it
  down without an SSRC and, if it is an outbound link in service, with a reconnect.
\<close>

theorem silent_peer_is_dropped:
  fixes n :: nat
  assumes "lk_state (s_links s i) = LST_UP" "lk_keepalive_timer (s_links s i) \<noteq> None"
    and "lk_last_keepalive_recv (s_links s i) = s_now s" "0 < c_keepalive_interval (s_cfg s)" "0 \<le> c_link_timeout (s_cfg s)"
    and "n = nat \<lfloor>c_link_timeout (s_cfg s) / c_keepalive_interval (s_cfg s)\<rfloor>"
  shows "waited i n s ((quiet_round i ^^ n) s) \<and>
    lk_state (s_links ((quiet_round i ^^ Suc n) s) i) = LST_DOWN \<and>
    \<not> lk_has_sync_source (s_links ((quiet_round i ^^ Suc n) s) i) \<and>
    (outbound s i \<and> lk_active (s_links s i) \<longrightarrow> lk_reconnect_timer (s_links ((quiet_round i ^^ Suc n) s) i) \<noteq> None)"
proof -
  let ?q = "c_link_timeout (s_cfg s) / c_keepalive_interval (s_cfg s)"
  have q: "0 \<le> ?q" using assms(4,5) by simp
  then have "of_nat n = (of_int \<lfloor>?q\<rfloor> :: rat)" by (simp add: assms(6))
  then have n: "of_nat n \<le> ?q" "?q < of_nat (Suc n)" by linarith+
  have w: "waited i 0 s s" using assms(1,2) by (simp add: waited_def)
  have wn: "waited i n s ((quiet_round i ^^ n) s)"
    using n(1) assms(4) by (intro quiet_rounds_waited [OF w assms(3,4)]) (simp add: pos_le_divide_eq)
  have "\<not> of_nat (Suc n) * c_keepalive_interval (s_cfg s) \<le> c_link_timeout (s_cfg s)"
    using n(2) assms(4) by (simp add: pos_divide_less_eq not_le)
  then show ?thesis using quiet_round_waited [OF wn assms(3)] wn by simp
qed

definition demo_watched :: sys where
  "demo_watched = arm_keepalive 0 (on_link 0 (\<lambda>l. l\<lparr>lk_active := True\<rparr>) demo_up)"

lemma silent_peer_is_dropped_witness:
  "length (s_out ((quiet_round 0 ^^ 3) demo_watched)) = 3 \<and>
     lk_state (s_links ((quiet_round 0 ^^ 4) demo_watched) 0) = LST_DOWN"
proof -
  have w: "lk_state (s_links demo_watched 0) = LST_UP" "lk_keepalive_timer (s_links demo_watched 0) \<noteq> None"
    "lk_last_keepalive_recv (s_links demo_watched 0) = s_now demo_watched" "s_cfg demo_watched = demo_config"
    "s_out demo_watched = []"
    by (simp_all add: demo_watched_def arm_keepalive_def rearm_fields demo_up_def)
       (simp_all add: rearm_keepalive_def case_prod_beta access_defs demo_sys_def blank_sys_def)
  have c: "c_keepalive_interval demo_config = 10" "c_link_timeout demo_config = 35" by (simp_all add: demo_config_def)
  have "\<lfloor>35 / 10 :: rat\<rfloor> = 3" by (rule floor_unique) simp_all
  then show ?thesis
    using silent_peer_is_dropped [OF w(1-3), where n = 3] w(5)
    by (simp add: w(4) c waited_def eval_nat_numeral)
qed

section \<open>Reflected keepalives\<close>

text \<open>
  A side of a link: its address and port as the other one sees them, and its state.  A datagram that
  arrives there is followed by the one that is sent back to where it came from, if there is one.
\<close>

type_synonym side = "string \<times> int \<times> sys"

definition send_back :: "bytes \<Rightarrow> side \<Rightarrow> side \<Rightarrow> (bytes \<times> side) option" where
  "send_back d from to =
     (case (from, to) of ((ip, port, _), (own_ip, own_port, s)) \<Rightarrow>
        let t = on_voice_readable (s_voice_fd s) (In_datagram d ip port) s in
        case drop (length (s_out s)) (s_out t) of
          [Udp_send fd d' ip' port'] \<Rightarrow> if (ip', port') = (ip, port) then Some (d', own_ip, own_port, t) else None
        | _ \<Rightarrow> None)"

text \<open>The datagram is on its way from the first side to the second; whether it survives so many hops.\<close>

fun survives :: "nat \<Rightarrow> bytes \<Rightarrow> side \<Rightarrow> side \<Rightarrow> bool" where
  "survives 0 d a b = True"
| "survives (Suc n) d a b = (case send_back d a b of None \<Rightarrow> False | Some (d', b') \<Rightarrow> survives n d' b' a)"

lemma keepalive_fields: "length (build_keepalive v) = 16" "build_keepalive v ! Suc 0 AND 0x7F = 127" "rd32 (build_keepalive v) 8 = v"
proof -
  have k: "build_keepalive v = (CCCC_RTP_VPXCC # CCCC_RTP_PT_KEEPALIVE # wr16 0 @ wr32 0) @ wr32 v @ wr32 CCCC_KEEPALIVE_PAYLOAD"
    by (simp add: build_keepalive_def)
  show "length (build_keepalive v) = 16" "build_keepalive v ! Suc 0 AND 0x7F = 127"
    by (simp_all add: k CCCC_RTP_PT_KEEPALIVE_def)
  show "rd32 (build_keepalive v) 8 = v"
    unfolding k by (subst rd_at(1)) (simp_all add: rd_front rd32_wr32)
qed

lemma keepalive_reflected:
  assumes "find_link_by_ssrc s v = Some i" "l_cc_remote_ip (link_cfg s i) = ip"
  shows "on_voice_readable fd (In_datagram (build_keepalive v) ip port) s =
    emit (Udp_send fd (build_keepalive v) ip port) (on_link i (\<lambda>l. l\<lparr>lk_last_keepalive_recv := s_now s\<rparr>) s)"
  using assms
  by (simp add: on_voice_readable_def Let_def keepalive_fields CCCC_KEEPALIVE_LEN_def CCCC_RTP_PT_KEEPALIVE_def)

text \<open>
  C29: between two bridges a keepalive is never lost and never ends.  Each side sends every keepalive of
  the link back to where it came from, also one that it has sent itself and that has been sent back
  already, so a single keepalive travels to and fro for ever.
\<close>

theorem keepalives_bounce_for_ever:
  assumes "find_link_by_ssrc a v = Some i" "l_cc_remote_ip (link_cfg a i) = ip_b"
    and "find_link_by_ssrc b v = Some j" "l_cc_remote_ip (link_cfg b j) = ip_a"
  shows "survives n (build_keepalive v) (ip_a, port_a, a) (ip_b, port_b, b)"
  using assms
proof (induction n arbitrary: a b i j ip_a ip_b port_a port_b)
  case (Suc n)
  define t where "t = emit (Udp_send (s_voice_fd b) (build_keepalive v) ip_a port_a)
    (on_link j (\<lambda>l. l\<lparr>lk_last_keepalive_recv := s_now b\<rparr>) b)"
  have "s_out t = s_out b @ [Udp_send (s_voice_fd b) (build_keepalive v) ip_a port_a]"
    by (simp add: t_def emit_def on_link_def)
  then have "send_back (build_keepalive v) (ip_a, port_a, a) (ip_b, port_b, b) = Some (build_keepalive v, ip_b, port_b, t)"
    using keepalive_reflected [OF Suc.prems(3,4), of "s_voice_fd b" port_a] by (simp add: send_back_def t_def Let_def)
  moreover have t: "s_cfg t = s_cfg b" "\<And>k. lk_sync_source (s_links t k) = lk_sync_source (s_links b k)"
    "\<And>k. lk_has_sync_source (s_links t k) = lk_has_sync_source (s_links b k)"
    by (simp_all add: t_def emit_def on_link_def)
  then have "find_link_by_ssrc t v = Some j" using Suc.prems(3) by (simp add: find_link_by_ssrc_def)
  then have "survives n (build_keepalive v) (ip_b, port_b, t) (ip_a, port_a, a)"
    using Suc.prems t(1) by (intro Suc.IH) simp_all
  ultimately show ?case by simp
qed simp

lemma keepalives_bounce_for_ever_witness:
  "survives 1000 (build_keepalive 0xABCD) (''10.0.0.3'', 42422, demo_up) (''10.0.0.3'', 42422, demo_up)"
proof -
  have "find_link_by_ssrc demo_up 0xABCD = Some 0"
    unfolding find_link_by_ssrc_def
    by (rule find_only) (auto simp: demo_up_def on_link_def n_link_def demo_defs split: if_splits)
  moreover have "l_cc_remote_ip (link_cfg demo_up 0) = ''10.0.0.3''" by (simp add: demo_up_def on_link_def demo_defs)
  ultimately show ?thesis by (intro keepalives_bounce_for_ever)
qed

section \<open>A line too many\<close>

lemma teardown_closes:
  assumes "0 \<le> lk_fd (s_links s i)"
  shows "Close (lk_fd (s_links s i)) \<in> set (s_out (teardown_link_connection i s))"
proof -
  let ?r = "reset_link i s" and ?b = "lk_state (s_links s i) = LST_UP"
  have "Close (lk_fd (s_links s i)) \<in> set (s_out ?r)"
    using assms by (simp add: reset_link_def close_link_fd_def cancel_keepalive_def Let_def access_defs)
  moreover have "set (s_out ?r) \<subseteq> set (s_out (maybe_down ?b i ?r))"
    using maybe_down_step(1) [of i ?r ?b] by (auto simp: call_step_def only_sends_def)
  moreover have "s_out (schedule_reconnect i u) = s_out u" for u
    by (simp add: schedule_reconnect_def case_prod_beta access_defs)
  ultimately show ?thesis by (auto simp: teardown_parts Let_def)
qed

lemma accept_closes:
  assumes "lk_state (s_links s i) \<noteq> LST_DOWN" "0 \<le> lk_fd (s_links s i)"
  shows "Close (lk_fd (s_links s i)) \<in> set (s_out (accept_question k i v s))"
proof -
  have "s_out (free_pending k False u) = s_out u" "s_out (rearm_keepalive i u) = s_out u" for u
    by (simp_all add: free_pending_def rearm_keepalive_def case_prod_beta Let_def access_defs)
  then show ?thesis
    using assms(1) teardown_closes [OF assms(2)]
    by (simp add: accept_question_def Let_def translator_cccc_link_up_def arm_keepalive_def tcp_send_def access_defs)
qed

lemma completed_twice:
  assumes "bridge_inv u" "length (p_qlines (s_pending u k)) = CCCC_QUESTION_NFIELDS" "p_fd (s_pending u k) = - 1"
    and "match_inbound (s_cfg u) (p_src_ip (s_pending u k)) (atoi (p_qlines (s_pending u k) ! 1)) = Some i"
    and "taken_over s i fd (ucast (strtoul 16 (p_qlines (s_pending u k) ! 0))) u" "0 \<le> fd"
  shows "lk_state (s_links (deliver_pending k x u) i) = LST_UP \<and> lk_fd (s_links (deliver_pending k x u) i) = - 1 \<and>
    Close fd \<in> set (s_out (deliver_pending k x u))"
proof -
  let ?v = "ucast (strtoul 16 (p_qlines (s_pending u k) ! 0)) :: u32"
  define w where "w = on_pending k (\<lambda>p. p\<lparr>p_rxbuf := x @ newline\<rparr>) u"
  let ?c = "cancel_pending_timer k w"
  have d: "deliver_pending k x u = on_pending k (\<lambda>p. p\<lparr>p_rxbuf := []\<rparr>) (handle_question_complete k w)"
    using assms(2) by (simp add: deliver_pending_def deliver_def pending_on_line_def Let_def w_def)
  have up: "lk_has_sync_source (s_links u i)" "lk_sync_source (s_links u i) = ?v" "lk_state (s_links u i) = LST_UP"
    "lk_fd (s_links u i) = fd"
    using assms(5) by (simp_all add: taken_over_def)
  have "find_link_by_ssrc u ?v = Some i"
    unfolding find_link_by_ssrc_def
    by (rule find_only) (use up assms(1,4) in \<open>auto simp: bridge_inv_def links_inv_def ssrc_unique_def link_ok_def Let_def\<close>)
  moreover have c: "s_links ?c = s_links u" "s_cfg ?c = s_cfg u" "p_fd (s_pending ?c k) = - 1"
    using assms(3) by (simp_all add: cancel_pending_fields w_def)
  ultimately have "find_link_by_ssrc ?c ?v = Some i" using find_ssrc_cong [OF c(1,2)] by simp
  then have h: "handle_question_complete k w = accept_question k i ?v ?c"
    using assms(4) by (simp add: handle_question_complete_def Let_def cancel_pending_timer_def [symmetric] c(2))
      (simp add: cancel_pending_fields w_def)
  have "taken_over ?c i (- 1) ?v (accept_question k i ?v ?c)" using accept_result(1) [of ?c i k ?v] c(3) by simp
  moreover have "Close fd \<in> set (s_out (accept_question k i ?v ?c))"
    using accept_closes [of ?c i k ?v] up assms(6) by (simp add: c(1))
  moreover have "s_out (on_pending k f v) = s_out v" for f v by (simp add: on_pending_def)
  ultimately show ?thesis by (simp add: d h taken_over_def)
qed

text \<open>
  C28: a line that follows a Question in the same read undoes the connection.  The Question is
  accepted, then the extra line completes the freed slot once more: the link that has just come up
  closes its socket and counts as up on descriptor -1.
\<close>

theorem extra_line_kills_connection:
  assumes "bridge_inv s" "p_qlines (s_pending s k) = []" "p_rxbuf (s_pending s k) = []" "0 \<le> p_fd (s_pending s k)"
    and "length ls = CCCC_QUESTION_NFIELDS" "\<forall>l \<in> set (ls @ [x]). line_fits RXBUF_CAP l \<and> length l < 256"
    and "match_inbound (s_cfg s) (p_src_ip (s_pending s k)) (atoi (ls ! 1)) = Some i"
    and "find_link_by_ssrc s (ucast (strtoul 16 (ls ! 0))) \<in> {None, Some i}"
    and "length c \<le> 1024" "c = wire (ls @ [x])"
  shows "lk_state (s_links (on_pending_readable k (In_bytes c) s) i) = LST_UP \<and>
    lk_fd (s_links (on_pending_readable k (In_bytes c) s) i) = - 1 \<and>
    Close (p_fd (s_pending s k)) \<in> set (s_out (on_pending_readable k (In_bytes c) s))"
proof -
  have cut: "cut_of [c] (ls @ [x])" using assms(9,10) by (simp add: cut_of_def)
  define u where "u = fold (deliver_pending k) ls s"
  have "length (wire ls) \<le> length c" by (simp add: assms(10) wire_def)
  then have "length (wire ls) \<le> 1024" using assms(9) by simp
  then have "cut_of [wire ls] ls" by (simp add: cut_of_def)
  then have "u = on_pending_readable k (In_bytes (wire ls)) s"
    using pending_reads_lines [of "[wire ls]" ls s k] assms(3,6) by (simp add: u_def pending_reads_def)
  then have inv: "bridge_inv u" using pending_readable_inv [OF assms(1)] by simp
  have short: "\<forall>l \<in> set ls. length l < 256" using assms(6) by simp
  note q = question_slot [OF assms(2,5) short, folded u_def]
  have "questioned s k ls u" unfolding u_def by (rule question_lines [OF assms(2,5) short])
  then have t: "taken_over s i (p_fd (s_pending s k)) (ucast (strtoul 16 (p_qlines (s_pending u k) ! 0))) u"
    unfolding questioned_def Let_def assms(7) option.case if_P [OF assms(8)] q(1) by blast
  have "lk_state (s_links (deliver_pending k x u) i) = LST_UP \<and> lk_fd (s_links (deliver_pending k x u) i) = - 1 \<and>
      Close (p_fd (s_pending s k)) \<in> set (s_out (deliver_pending k x u))"
    by (rule completed_twice [OF inv _ q(2) _ t assms(4)]) (simp_all only: q assms(5,7))
  moreover have "deliver_pending k x u = on_pending_readable k (In_bytes c) s"
    using pending_reads_lines [OF cut _ assms(3)] assms(6) by (simp add: pending_reads_def u_def)
  ultimately show ?thesis by simp
qed

lemma extra_line_kills_connection_witness:
  "lk_fd (s_links (on_pending_readable 0 (In_bytes (wire (question_fields 0xBEEF 3 ''C'' ''S'' ''M'' ''R'' ''O'' @ [[]]))) demo_waiting) 1) = - 1"
proof -
  let ?ls = "question_fields 0xBEEF 3 ''C'' ''S'' ''M'' ''R'' ''O''"
  have inv: "bridge_inv demo_waiting"
    unfolding demo_waiting_def demo_sys_def by (rule accept_connection_inv [OF blank_inv])
  have "\<forall>l \<in> set ?ls. line_fits RXBUF_CAP l \<and> length l < 256"
    by (rule question_fields_fit) (simp_all add: line_text_def)
  then have fit: "\<forall>l \<in> set (?ls @ [[]]). line_fits RXBUF_CAP l \<and> length l < 256" by (simp add: line_fits_def RXBUF_CAP_def)
  have short: "length (wire (?ls @ [[]])) \<le> 1024"
    using length_fmt_x [of "0xBEEF"] length_fmt_d [of 3] by (simp add: wire_def question_fields_def CCCC_CONNTYPE_SERVER_INBOUND_def)
  have m: "match_inbound (s_cfg demo_waiting) (p_src_ip (s_pending demo_waiting 0)) (atoi (?ls ! 1)) = Some 1"
    using question_says(2) [of 3] demo_match by (simp add: demo_waiting_slot)
  show ?thesis
    using extra_line_kills_connection [OF inv demo_waiting_slot(1,2) _ _ fit m _ short refl] demo_no_ssrc
    by (simp add: demo_waiting_slot question_says)
qed

end
