(* ===== verification/Main_Loop.thy ===== *)
theory Main_Loop
  imports Link_Life Config Obp_Link
begin

text \<open>
  \<open>main.c\<close> and the reception on the OpenBridge sockets: the startup, the periodic tick with the
  deferred reload and shutdown, the command line, and the dispatch of every callback from the event
  loop.  Everything the running program does is a sequence of \<open>bridge_step\<close>s, and the invariant of
  the links holds in every state it reaches.
\<close>

section \<open>Reception on an OpenBridge socket\<close>

definition on_obp_readable :: "nat \<Rightarrow> input \<Rightarrow> sys \<Rightarrow> sys" where
  "on_obp_readable idx inp s =
     (case inp of
        In_datagram data src_ip src_port \<Rightarrow>
          (if obp_verdict (peer_cfg s idx) data src_ip src_port = Accepted
           then translator_obp_dmrd_received idx (take OBP_DMRD_BODY_LEN data) s else s)
      | _ \<Rightarrow> s)"

section \<open>Reload and tick\<close>

definition TICK_INTERVAL_S :: rat where "TICK_INTERVAL_S = 1"

text \<open>\<open>file\<close> is what the configuration file holds at that moment; a file that does not load changes nothing.\<close>

definition do_reload :: "string option \<Rightarrow> sys \<Rightarrow> sys" where
  "do_reload file s =
     (case config_reload_toggles file (s_cfg s) of
        Inl e \<Rightarrow> s
      | Inr c \<Rightarrow> obp_mux_reconcile (cccc_mux_reconcile (s\<lparr>s_cfg := c\<rparr>)))"

definition tick_cb :: "string option \<Rightarrow> sys \<Rightarrow> sys" where
  "tick_cb file s =
     (let s = translator_tick s;
          s = (if s_reload_requested s then do_reload file (s\<lparr>s_reload_requested := False\<rparr>) else s)
      in if s_shutdown_requested s then on_loop ev_stop s else snd (timer_after TICK_INTERVAL_S Tick_cb s))"

definition on_sighup :: "sys \<Rightarrow> sys" where
  "on_sighup s = s\<lparr>s_reload_requested := True\<rparr>"

definition on_sigterm :: "sys \<Rightarrow> sys" where
  "on_sigterm s = s\<lparr>s_shutdown_requested := True\<rparr>"

section \<open>Dispatch\<close>

fun run_timer_cb :: "string option \<Rightarrow> timer_cb \<Rightarrow> sys \<Rightarrow> sys" where
  "run_timer_cb file (Reconnect_cb i) s = reconnect_cb i s"
| "run_timer_cb file (Keepalive_cb i) s = keepalive_cb i s"
| "run_timer_cb file (Pending_timeout_cb k) s = pending_timeout_cb k s"
| "run_timer_cb file Tick_cb s = tick_cb file s"

fun run_fd_cb :: "fd_cb \<Rightarrow> int \<Rightarrow> input \<Rightarrow> sys \<Rightarrow> sys option" where
  "run_fd_cb (On_obp_readable idx) fd inp s = Some (on_obp_readable idx inp s)"
| "run_fd_cb (On_link_tcp_readable i) fd inp s = Some (on_link_tcp_readable i inp s)"
| "run_fd_cb (On_connect_writable i) fd inp s = on_connect_writable i fd inp s"
| "run_fd_cb (On_pending_readable k) fd inp s = Some (on_pending_readable k inp s)"
| "run_fd_cb On_listen_readable fd inp s = Some (on_listen_readable inp s)"
| "run_fd_cb On_voice_readable fd inp s = Some (on_voice_readable fd inp s)"
| "run_fd_cb On_trial_readable fd inp s = Some (on_trial_readable fd inp s)"

definition main_env :: "string option \<Rightarrow> (fd_cb, timer_cb, input, sys) ev_env" where
  "main_env file = \<lparr>get_loop = s_loop, put_loop = (\<lambda>l s. s\<lparr>s_loop := l\<rparr>),
     run_timer = (\<lambda>cb s. Some (run_timer_cb file cb s)), run_fd = run_fd_cb\<rparr>"

definition main_pass :: "string option \<Rightarrow> rat \<Rightarrow> input option list \<Rightarrow> sys \<Rightarrow> sys option" where
  "main_pass file now ready s = ev_pass (main_env file) (\<lambda>s. s\<lparr>s_now := now\<rparr>) now ready s"

section \<open>Start and stop\<close>

text \<open>What the program prints before it ends early: the usage, the errors of the loader, a summary, or one line.\<close>

datatype last_words = Usage | Load_failed load_error | Printed string

datatype exit_status = Exit nat last_words | Running sys

definition main_start :: "config \<Rightarrow> (nat \<Rightarrow> int) \<Rightarrow> (nat \<Rightarrow> u32) \<Rightarrow> rat \<Rightarrow> int \<times> int \<Rightarrow> exit_status" where
  "main_start c sock rnd now wall =
     (let s = (blank_sys c sock rnd)\<lparr>s_now := now, s_wall := wall\<rparr>;
          s = obp_mux_start s;
          (ok, s) = cccc_mux_start s
      in if \<not> ok then Exit 1 (Printed (''Failed to bind CC-CC sockets'' @ newline))
         else Running (on_loop (\<lambda>l. l\<lparr>ev_running := True\<rparr>) (snd (timer_after TICK_INTERVAL_S Tick_cb s))))"

definition main_stop :: "sys \<Rightarrow> sys" where
  "main_stop s = obp_mux_stop (cccc_mux_stop s)"

section \<open>Command line\<close>

record options =
  opt_cfg_path :: string
  opt_log_level :: "string option"
  opt_wire :: bool
  opt_check :: bool

fun parse_args :: "string list \<Rightarrow> options \<Rightarrow> nat + options" where
  "parse_args [] opts = Inr opts"
| "parse_args (a # as) opts =
     (if (a = ''-c'' \<or> a = ''--config'') \<and> as \<noteq> [] then parse_args (tl as) (opts\<lparr>opt_cfg_path := hd as\<rparr>)
      else if a = ''--log-level'' \<and> as \<noteq> [] then parse_args (tl as) (opts\<lparr>opt_log_level := Some (hd as)\<rparr>)
      else if a = ''--wire'' then parse_args as (opts\<lparr>opt_wire := True\<rparr>)
      else if a = ''--check'' then parse_args as (opts\<lparr>opt_check := True\<rparr>)
      else if a = ''-h'' \<or> a = ''--help'' then Inl 0
      else Inl 2)"

definition default_options :: options where
  "default_options = \<lparr>opt_cfg_path = ''/etc/cc2obp/cc2obp.toml'', opt_log_level = None, opt_wire = False, opt_check = False\<rparr>"

definition effective_log_level :: "options \<Rightarrow> config \<Rightarrow> log_level" where
  "effective_log_level opts c =
     (case opt_log_level opts of
        None \<Rightarrow> c_log_level c
      | Some l \<Rightarrow> (case log_level_from_str l of None \<Rightarrow> c_log_level c | Some k \<Rightarrow> k))"

definition main_log :: "options \<Rightarrow> config \<Rightarrow> log_state" where
  "main_log opts c = log_init (effective_log_level opts c) (opt_wire opts)"

text \<open>The summary of \<open>--check\<close>, as \<open>printf\<close> lays it out.\<close>

definition pad_right :: "nat \<Rightarrow> string \<Rightarrow> string" where
  "pad_right w s = s @ replicate (w - length s) (CHR '' '')"

definition on_off :: "bool \<Rightarrow> string" where
  "on_off b = (if b then ''enabled'' else ''disabled'')"

definition peer_summary :: "obp_peer_config \<Rightarrow> string" where
  "peer_summary p = ''  [[openbridge]] '' @ pad_right 16 (o_name p) @ '' '' @ pad_right 8 (on_off (o_enabled p)) @ '' '' @
     o_peer_ip p @ '':'' @ fmt_d (o_peer_port p) @ '' (bind_port '' @ fmt_d (o_bind_port p) @ '')'' @ newline"

definition link_summary :: "link_config \<Rightarrow> string" where
  "link_summary l = ''  [[link]] '' @ pad_right 20 (l_name l) @ '' '' @ pad_right 8 (on_off (l_enabled l)) @
     '' xc='' @ pad_right 8 (if l_cross_connect_active l then ''active'' else ''inactive'') @ '' '' @
     pad_right 8 (if l_cc_role l = CC_ROLE_OUTBOUND then ''outbound'' else ''inbound'') @
     '' tgid='' @ pad_right 6 (fmt_d (l_tgid l)) @ '' lid='' @ pad_right 3 (fmt_d (l_cc_lid l)) @
     '' -> '' @ l_cc_remote_ip l @ '' ('' @ l_openbridge_system l @ '')'' @ newline"

definition check_summary :: "config \<Rightarrow> string" where
  "check_summary c =
     ''Configuration OK: '' @ fmt_d (int (n_openbridge c)) @ '' openbridge peer(s), '' @ fmt_d (int (n_link c)) @ '' link(s)'' @
     newline @ newline @ concat (map peer_summary (c_openbridge c)) @ (if n_openbridge c > 0 then newline else []) @
     concat (map link_summary (c_link c))"

text \<open>
  \<open>main\<close> up to the event loop: the exit status with what is printed, or the running state; \<open>files\<close>
  gives what a path holds.
\<close>

definition main_entry ::
  "(string \<Rightarrow> string option) \<Rightarrow> string list \<Rightarrow> (nat \<Rightarrow> int) \<Rightarrow> (nat \<Rightarrow> u32) \<Rightarrow> rat \<Rightarrow> int \<times> int \<Rightarrow> exit_status" where
  "main_entry files args sock rnd now wall =
     (case parse_args args default_options of
        Inl code \<Rightarrow> Exit code Usage
      | Inr opts \<Rightarrow>
          (case config_load (files (opt_cfg_path opts)) of
             Inl e \<Rightarrow> Exit 1 (Load_failed e)
           | Inr c \<Rightarrow> if opt_check opts then Exit 0 (Printed (check_summary c)) else main_start c sock rnd now wall))"

section \<open>Steps of the running program\<close>

text \<open>
  One callback at a time: a due timer, a descriptor that poll reports (poll ignores negative ones),
  a signal; and between them the clocks move on and dead timers are freed.
\<close>

inductive bridge_step :: "sys \<Rightarrow> sys \<Rightarrow> bool" where
  Timer: "t \<in> set (ev_timers (s_loop s)) \<Longrightarrow> t_active t \<Longrightarrow> t_when t \<le> s_now s \<Longrightarrow>
     bridge_step s (run_timer_cb file (t_cb t) (fired (t_id t) s))"
| Readable: "0 \<le> fd \<Longrightarrow> readers s fd = Some cb \<Longrightarrow> run_fd_cb cb fd inp s = Some t \<Longrightarrow> bridge_step s t"
| Writable: "0 \<le> fd \<Longrightarrow> writers s fd = Some cb \<Longrightarrow> run_fd_cb cb fd inp s = Some t \<Longrightarrow> bridge_step s t"
| Reap: "bridge_step s (on_loop reap_inactive s)"
| Clock: "bridge_step s (s\<lparr>s_now := now\<rparr>)"
| Wall: "bridge_step s (s\<lparr>s_wall := wall\<rparr>)"
| Sighup: "bridge_step s (on_sighup s)"
| Sigterm: "bridge_step s (on_sigterm s)"

inductive_cases bridge_step_elim: "bridge_step s t"

inductive reachable :: "config \<Rightarrow> sys \<Rightarrow> bool" for c where
  Start: "main_start c sock rnd now wall = Running s \<Longrightarrow> reachable c s"
| Step: "reachable c s \<Longrightarrow> bridge_step s t \<Longrightarrow> reachable c t"

section \<open>OpenBridge sockets\<close>

text \<open>The invariant with another configuration that has the same links in the same roles.\<close>

definition same_roles :: "config \<Rightarrow> config \<Rightarrow> bool" where
  "same_roles c d \<longleftrightarrow> map l_cc_role (c_link c) = map l_cc_role (c_link d)"

lemma bridge_inv_cfg:
  assumes "bridge_inv s" "same_roles c (s_cfg s)"
  shows "bridge_inv (s\<lparr>s_cfg := c\<rparr>)"
proof -
  let ?t = "s\<lparr>s_cfg := c\<rparr>"
  have len: "n_link c = n_link (s_cfg s)"
    using assms(2) map_eq_imp_length_eq by (auto simp: same_roles_def n_link_def)
  have role: "l_cc_role (c_link c ! i) = l_cc_role (link_cfg s i)" if "i < n_link (s_cfg s)" for i
    using assms(2) that len nth_map [of i "c_link c" l_cc_role] nth_map [of i "c_link (s_cfg s)" l_cc_role]
    by (simp add: same_roles_def n_link_def)
  have "link_ok ?t i" if l: "link_ok s i" for i
  proof (cases "i < n_link (s_cfg s)")
    case True
    then show ?thesis using l role [OF True] len by (simp add: link_ok_def Let_def)
  next
    case False
    then have "lk_state (s_links s i) = LST_DOWN" "\<not> lk_active (s_links s i)"
      using l by (auto simp: link_ok_def Let_def)
    then show ?thesis using l by (simp add: link_ok_def Let_def)
  qed
  moreover have "base_ok ?t = base_ok s" by (rule base_cong) simp_all
  ultimately show ?thesis using assms(1) by (simp add: bridge_inv_def links_inv_def ssrc_unique_def)
qed

lemma bridge_inv_loop:
  assumes "bridge_inv s" "base_ok t" "s_links t = s_links s" "s_pending t = s_pending s" "s_runtime t = s_runtime s"
    and "s_cfg t = s_cfg s"
  shows "bridge_inv t"
  using assms by (auto simp: bridge_inv_def intro: links_inv_same [where s = s])

lemma bind_peer_inv:
  assumes "bridge_inv s"
  shows "bridge_inv (bind_peer i s)"
proof (rule bridge_inv_loop [OF assms])
  let ?fd = "s_sock s (s_nsock s)"
  let ?u = "s\<lparr>s_nsock := Suc (s_nsock s), s_obp_fd := (s_obp_fd s)(i := ?fd)\<rparr>"
  have u: "base_ok ?u = base_ok s" by (rule base_cong) simp_all
  then have "base_ok (on_loop (ev_add_fd ?fd (On_obp_readable i)) ?u)"
    using assms by (intro base_add_fd) (simp_all add: bridge_inv_def links_inv_def)
  moreover have "base_ok (w\<lparr>s_obp_active := f\<rparr>) = base_ok w" for w f by (rule base_cong) simp_all
  ultimately show "base_ok (bind_peer i s)"
    using u assms by (simp add: bind_peer_def next_sock_def bridge_inv_def links_inv_def Let_def)
  show "s_pending (bind_peer i s) = s_pending s"
    by (simp add: bind_peer_def next_sock_def on_loop_def Let_def)
qed (simp_all add: bind_peer_fields)

lemma unbind_peer_inv:
  assumes "bridge_inv s"
  shows "bridge_inv (unbind_peer i s)"
proof (rule bridge_inv_loop [OF assms])
  have b: "base_ok s" using assms by (simp add: bridge_inv_def links_inv_def)
  have "base_ok (w\<lparr>s_obp_active := f\<rparr>) = base_ok w" "base_ok (w\<lparr>s_obp_fd := g\<rparr>) = base_ok w"
    "base_ok (emit e w) = base_ok w" for w f g e
    by (rule base_cong; simp)+
  then show "base_ok (unbind_peer i s)"
    using b base_del_fd(1) [OF b] by (simp add: unbind_peer_def Let_def)
  show "s_pending (unbind_peer i s) = s_pending s" by (simp add: unbind_peer_def Let_def on_loop_def emit_def)
qed (simp_all add: unbind_peer_fields)

lemma obp_reconcile_inv:
  assumes "bridge_inv s"
  shows "bridge_inv (obp_mux_reconcile s)"
proof -
  have "bridge_inv (foldl obp_reconcile_peer s is)" for "is"
    using assms
    by (induction "is" arbitrary: s) (simp_all add: obp_reconcile_peer_def Let_def bind_peer_inv unbind_peer_inv)
  then show ?thesis by (simp add: obp_mux_reconcile_def)
qed

lemma obp_start_inv:
  assumes "bridge_inv s"
  shows "bridge_inv (obp_mux_start s)"
proof -
  have "bridge_inv (foldl (\<lambda>s i. if o_enabled (peer_cfg s i) then bind_peer i s else s) s is)" for "is"
    using assms by (induction "is" arbitrary: s) (simp_all add: bind_peer_inv)
  then show ?thesis by (simp add: obp_mux_start_def)
qed

lemma dmrd_inv:
  assumes "bridge_inv s" "length body = OBP_DMRD_BODY_LEN"
  shows "bridge_inv (translator_obp_dmrd_received p body s)"
proof (cases "obp_route s p body")
  case (Some i)
  let ?t = "translator_obp_dmrd_received p body s"
  have st: "length (body_stream body) = 4" using assms(2) by (simp add: obp_consts)
  have step: "call_step i s ?t" "runtime_ok (s_runtime ?t i)"
    using ok_obp_frame [OF runtime_of_inv(1) [OF assms(1)] st] by (simp_all add: dmrd_by_route Some call_step_frame)
  have "abs_call (s_runtime ?t i) = From_cc \<Longrightarrow> abs_call (s_runtime s i) = From_cc"
    by (cases "abs_call (s_runtime s i)")
       (auto simp: abs_dmrd_step abs_frame_def abs_term_def split: if_splits frame_class.splits)
  then show ?thesis by (rule bridge_inv_no_new_cc [OF assms(1) step])
qed (simp add: dmrd_by_route assms(1))

lemma obp_readable_inv:
  assumes "bridge_inv s"
  shows "bridge_inv (on_obp_readable idx inp s)"
proof -
  have "length (take OBP_DMRD_BODY_LEN data) = OBP_DMRD_BODY_LEN" if "obp_verdict p data ip port = Accepted" for p data ip port
    using that by (auto simp: verdict_Accepted_iff OBP_DMRD_BODY_LEN_def)
  then show ?thesis using assms by (auto simp: on_obp_readable_def dmrd_inv split: input.split)
qed

section \<open>Every step keeps the invariant\<close>

lemma same_roles_toggles: "same_roles (apply_toggles fresh c) c"
  by (simp add: same_roles_def apply_toggles_def)

lemma flags_inv [simp]:
  "bridge_inv (s\<lparr>s_reload_requested := b\<rparr>) = bridge_inv s" "bridge_inv (s\<lparr>s_shutdown_requested := b\<rparr>) = bridge_inv s"
  "bridge_inv (s\<lparr>s_now := n\<rparr>) = bridge_inv s" "bridge_inv (s\<lparr>s_wall := w\<rparr>) = bridge_inv s"
proof -
  have "bridge_inv t \<longleftrightarrow> bridge_inv s"
    if "s_loop t = s_loop s" "s_links t = s_links s" "s_pending t = s_pending s" "s_runtime t = s_runtime s" "s_cfg t = s_cfg s" for t
    using bridge_inv_cong [of t s] bridge_inv_cong [of s t] that by auto
  from this [of "s\<lparr>s_reload_requested := b\<rparr>"] this [of "s\<lparr>s_shutdown_requested := b\<rparr>"] this [of "s\<lparr>s_now := n\<rparr>"]
    this [of "s\<lparr>s_wall := w\<rparr>"]
  show "bridge_inv (s\<lparr>s_reload_requested := b\<rparr>) = bridge_inv s" "bridge_inv (s\<lparr>s_shutdown_requested := b\<rparr>) = bridge_inv s"
    "bridge_inv (s\<lparr>s_now := n\<rparr>) = bridge_inv s" "bridge_inv (s\<lparr>s_wall := w\<rparr>) = bridge_inv s"
    by simp_all
qed

lemma reload_inv:
  assumes "bridge_inv s"
  shows "bridge_inv (do_reload file s)"
proof (cases "config_reload_toggles file (s_cfg s)")
  case (Inr c)
  then have "same_roles c (s_cfg s)"
    using same_roles_toggles by (auto simp: config_reload_toggles_def split: sum.splits)
  then show ?thesis
    by (simp add: do_reload_def Inr obp_reconcile_inv cccc_reconcile_ok(1) bridge_inv_cfg [OF assms])
qed (simp add: do_reload_def assms)

text \<open>Timers of the tick belong to no link.\<close>

lemma tick_timer_inv:
  assumes "bridge_inv s"
  shows "bridge_inv (snd (timer_after d Tick_cb s))"
proof (rule bridge_inv_loop [OF assms])
  have b: "base_ok s" using assms by (simp add: bridge_inv_def links_inv_def)
  let ?t = "snd (timer_after d Tick_cb s)"
  have h: "held ?t cb = held s cb" for cb by (rule held_cong) (simp_all add: timer_after_loop)
  have "timers_match ?t" using b by (simp add: timers_match_def base_ok_def armed_after h)
  then show "base_ok ?t"
    by (rule base_same_tables [OF b]) (use b in \<open>simp_all add: base_ok_def timer_after_loop\<close>)
qed (simp_all add: timer_after_loop, simp_all add: timer_after_def case_prod_beta)

lemma tick_fired_inv:
  assumes "bridge_inv s" "h \<in> armed s Tick_cb"
  shows "bridge_inv (fired h s)"
proof (rule bridge_inv_loop [OF assms(1)])
  have b: "base_ok s" "ev_ok (s_loop s)" using assms(1) by (simp_all add: bridge_inv_def links_inv_def base_ok_def)
  have "h \<notin> armed s cb" if "cb \<noteq> Tick_cb" for cb using armed_unique [OF b(2) assms(2), of cb] that by auto
  moreover have "held (fired h s) cb = held s cb" for cb by (rule held_cong) (simp_all add: fired_def)
  ultimately have "timers_match (fired h s)"
    using b(1) by (auto simp: timers_match_def base_ok_def fired_def armed_cancel)
  then show "base_ok (fired h s)"
    by (rule base_same_tables [OF b(1)]) (use b in \<open>simp_all add: fired_def ev_ok_ops cancel_loop\<close>)
qed (simp_all add: fired_def)

lemma loop_stop_inv:
  assumes "bridge_inv s" "ev_fds l = ev_fds (s_loop s)" "ev_wfds l = ev_wfds (s_loop s)" "ev_ok l"
    and "filter t_active (ev_timers l) = filter t_active (ev_timers (s_loop s))"
  shows "bridge_inv (on_loop (\<lambda>_. l) s)"
proof (rule bridge_inv_loop [OF assms(1)])
  let ?t = "on_loop (\<lambda>_. l) s"
  have b: "base_ok s" using assms(1) by (simp add: bridge_inv_def links_inv_def)
  have f: "filter (\<lambda>t. t_active t \<and> P t) ts = filter P (filter t_active ts)" for P ts by (induction ts) auto
  have "armed ?t cb = armed s cb" for cb by (simp only: armed_def f loop_through assms(5))
  moreover have "held ?t cb = held s cb" for cb by (rule held_cong) simp_all
  ultimately have "timers_match ?t" using b by (simp add: timers_match_def base_ok_def)
  then show "base_ok ?t" by (rule base_same_tables [OF b]) (use assms in simp_all)
qed simp_all

lemma stop_flag_inv:
  assumes "bridge_inv s"
  shows "bridge_inv (on_loop ev_stop s)" "bridge_inv (on_loop reap_inactive s)" "bridge_inv (on_loop (\<lambda>l. l\<lparr>ev_running := b\<rparr>) s)"
proof -
  have e: "ev_ok (s_loop s)" using assms by (simp add: bridge_inv_def links_inv_def base_ok_def)
  have c: "on_loop f s = on_loop (\<lambda>_. f (s_loop s)) s" for f by (simp add: on_loop_def)
  show "bridge_inv (on_loop ev_stop s)" "bridge_inv (on_loop reap_inactive s)" "bridge_inv (on_loop (\<lambda>l. l\<lparr>ev_running := b\<rparr>) s)"
    unfolding c [of ev_stop] c [of reap_inactive] c [of "\<lambda>l. l\<lparr>ev_running := b\<rparr>"]
    by (rule loop_stop_inv [OF assms]; use e ev_ok_ops [OF e] in \<open>simp add: ev_stop_def reap_inactive_def ev_ok_def\<close>)+
qed

lemma tick_cb_inv: "bridge_inv s \<Longrightarrow> bridge_inv (tick_cb file s)"
  by (simp add: tick_cb_def Let_def tick_inv reload_inv stop_flag_inv tick_timer_inv)

lemma timer_inv:
  assumes "bridge_inv s" "t \<in> set (ev_timers (s_loop s))" "t_active t"
  shows "bridge_inv (run_timer_cb file (t_cb t) (fired (t_id t) s))"
proof -
  have h: "t_id t \<in> armed s (t_cb t)" using assms(2,3) by (auto simp: armed_def)
  have l: "links_inv s" using assms(1) by (simp add: bridge_inv_def)
  show ?thesis
  proof (cases "t_cb t")
    case (Reconnect_cb i)
    then show ?thesis using bridge_inv_links [OF assms(1)] reconnect_inv [OF l] h by simp
  next
    case (Keepalive_cb i)
    then show ?thesis using bridge_inv_links [OF assms(1)] keepalive_inv [OF l] h by simp
  next
    case (Pending_timeout_cb k)
    then show ?thesis using pending_timeout_inv [OF assms(1)] h by simp
  next
    case Tick_cb
    then show ?thesis using tick_cb_inv [OF tick_fired_inv [OF assms(1)]] h by simp
  qed
qed

lemma fd_inv:
  assumes "bridge_inv s" "0 \<le> fd" "readers s fd = Some cb \<or> writers s fd = Some cb" "run_fd_cb cb fd inp s = Some t"
  shows "bridge_inv t"
proof -
  have l: "links_inv s" and e: "readers s fd = Some cb \<Longrightarrow> rd_ok s fd cb" "writers s fd = Some cb \<Longrightarrow> wr_ok s fd cb"
    using assms(1,2) by (auto simp: bridge_inv_def links_inv_def base_ok_def entries_ok_def)
  show ?thesis
  proof (cases cb)
    case (On_link_tcp_readable i)
    then have "lk_state (s_links s i) \<noteq> LST_DOWN" using assms(3) e by auto
    then show ?thesis
      using bridge_inv_links [OF assms(1) tcp_readable_inv [OF l]] assms(4) by (auto simp: On_link_tcp_readable)
  next
    case (On_connect_writable i)
    then have "lk_state (s_links s i) = LST_CONNECTING" "lk_fd (s_links s i) = fd" using assms(3) e by auto
    then show ?thesis
      using bridge_inv_links [OF assms(1) writable_inv [OF l]] assms(4) by (simp add: On_connect_writable)
  qed (use assms(1,4) in \<open>auto simp: obp_readable_inv pending_readable_inv listen_inv voice_inv trial_inv\<close>)
qed

lemma step_inv: "bridge_step s t \<Longrightarrow> bridge_inv s \<Longrightarrow> bridge_inv t"
  by (erule bridge_step_elim)
     (auto simp: timer_inv stop_flag_inv on_sighup_def on_sigterm_def dest: fd_inv)

end
