(* ===== verification/Across.thy ===== *)
theory Across
  imports Traffic Link_Props Main_Loop
begin

text \<open>
  Calls that pass two bridges.  The bridges are two states of the model; what one sends is what the
  other is given, datagram by datagram and line by line, at any times and with the lines cut into any
  reads.  The first part is about two bridges with a CC-CC link between them, the second about two
  bridges that are each other's OpenBridge peers.
\<close>

unbundle bit_operations_syntax

section \<open>A call as an OpenBridge receiver hears it\<close>

abbreviation body_frames :: "bytes \<Rightarrow> bits list" where
  "body_frames body \<equiv> extract_ambe (take 33 (drop OBP_PAYLOAD_OFF body))"

text \<open>
  The bodies are a header, bursts and a terminator of one stream from one talker to one group, with
  these vocoder frames.
\<close>

definition heard_call :: "u32 \<Rightarrow> u32 \<Rightarrow> u32 \<Rightarrow> bytes \<Rightarrow> bits list list \<Rightarrow> bytes list \<Rightarrow> bool" where
  "heard_call src netid dst st fs bodies \<longleftrightarrow>
     (\<forall>b \<in> set bodies. length b = OBP_DMRD_BODY_LEN \<and> rd24 b OBP_SRC_OFF = src \<and> rd32 b OBP_NETID_OFF = netid \<and>
        rd24 b OBP_DST_OFF = dst \<and> body_stream b = st) \<and>
     map body_class bodies = Fr_head # replicate (length fs) Fr_burst @ [Fr_term] \<and>
     map body_frames (butlast (tl bodies)) = fs"

lemma length_heard_call: "heard_call src netid dst st fs bodies \<Longrightarrow> length bodies = length fs + 2"
  by (auto simp: heard_call_def dest!: arg_cong [of "map _ _" _ length])

lemma heard_call_split:
  assumes "heard_call src netid dst st fs bodies"
  obtains head bursts tail where "bodies = head # bursts @ [tail]" "body_class head = Fr_head" "body_class tail = Fr_term"
    "\<forall>b \<in> set bursts. body_class b = Fr_burst" "map body_frames bursts = fs"
proof -
  have m: "map body_class bodies = Fr_head # replicate (length fs) Fr_burst @ [Fr_term]"
    using assms by (simp add: heard_call_def)
  then obtain head rest where r: "bodies = head # rest" "body_class head = Fr_head"
    "map body_class rest = replicate (length fs) Fr_burst @ [Fr_term]" by auto
  then obtain bursts tail where s: "rest = bursts @ [tail]" by (cases rest rule: rev_cases) auto
  then have "map body_class bursts = replicate (length fs) Fr_burst" "body_class tail = Fr_term" using r(3) by simp_all
  moreover from this(1) have "\<forall>b \<in> set bursts. body_class b = Fr_burst"
    by (metis in_set_replicate list.set_map image_eqI)
  ultimately show thesis using that r(1,2) s assms by (simp add: heard_call_def)
qed

section \<open>The bodies of a call from CC-CC\<close>

lemma dmrd_body_fields:
  fixes n :: nat and src peer :: u32 and tg :: int and flags :: u8 and st pl :: bytes
  assumes "length st = 4" "length pl = 33"
  defines "b \<equiv> dmrd_body n src tg peer flags st pl"
  shows "length b = OBP_DMRD_BODY_LEN" "take 4 b = DMRD" "rd24 b OBP_SRC_OFF = take_bit 24 src"
    "rd24 b OBP_DST_OFF = take_bit 24 (of_int tg)" "rd32 b OBP_NETID_OFF = peer" "b ! OBP_FLAGS_OFF = flags"
    "body_stream b = st" "take 33 (drop OBP_PAYLOAD_OFF b) = pl" "b ! 4 = of_nat n"
proof -
  have b: "b = DMRD @ [of_nat n] @ wr24 src @ wr24 (of_int tg) @ wr32 peer @ [flags] @ st @ pl"
    by (simp add: b_def dmrd_body_def)
  show "length b = OBP_DMRD_BODY_LEN" "take 4 b = DMRD" "b ! OBP_FLAGS_OFF = flags" "body_stream b = st"
    "take 33 (drop OBP_PAYLOAD_OFF b) = pl" "b ! 4 = of_nat n"
    using assms(1,2) by (simp_all add: b obp_consts nth_append)
  have "b = (DMRD @ [of_nat n]) @ wr24 src @ wr24 (of_int tg) @ wr32 peer @ [flags] @ st @ pl" by (simp add: b)
  then show "rd24 b OBP_SRC_OFF = take_bit 24 src"
    by (simp add: rd_at(2) [where k = 5] rd_front rd24_wr24 OBP_SRC_OFF_def del: append_assoc append.simps)
  have "b = (DMRD @ [of_nat n] @ wr24 src) @ wr24 (of_int tg) @ wr32 peer @ [flags] @ st @ pl" by (simp add: b)
  then show "rd24 b OBP_DST_OFF = take_bit 24 (of_int tg)"
    by (simp add: rd_at(2) [where k = 8] rd_front rd24_wr24 OBP_DST_OFF_def del: append_assoc append.simps)
  have "b = (DMRD @ [of_nat n] @ wr24 src @ wr24 (of_int tg)) @ wr32 peer @ [flags] @ st @ pl" by (simp add: b)
  then show "rd32 b OBP_NETID_OFF = peer"
    by (simp add: rd_at(1) [where k = 11] rd_front rd32_wr32 OBP_NETID_OFF_def del: append_assoc append.simps)
qed

lemma obp_body_fields:
  assumes "length b = OBP_DMRD_BODY_LEN"
  shows "length (obp_body p b) = OBP_DMRD_BODY_LEN" "rd24 (obp_body p b) OBP_SRC_OFF = rd24 b OBP_SRC_OFF"
    "rd24 (obp_body p b) OBP_DST_OFF = rd24 b OBP_DST_OFF"
    "rd32 (obp_body p b) OBP_NETID_OFF = (if o_preserve_source_peer p then rd32 b OBP_NETID_OFF else o_network_id p)"
    "obp_body p b ! OBP_FLAGS_OFF = b ! OBP_FLAGS_OFF" "body_stream (obp_body p b) = body_stream b"
    "take 33 (drop OBP_PAYLOAD_OFF (obp_body p b)) = take 33 (drop OBP_PAYLOAD_OFF b)" "obp_body p b ! 4 = b ! 4"
    "take 4 (obp_body p b) = take 4 b"
proof -
  have l: "length b = 53" using assms by (simp add: OBP_DMRD_BODY_LEN_def)
  show "length (obp_body p b) = OBP_DMRD_BODY_LEN" "take 4 (obp_body p b) = take 4 b"
    using l by (simp_all add: length_obp_body obp_body_head OBP_DMRD_BODY_LEN_def)
  note nth = obp_body_nth [OF l, of _ p]
  show "rd24 (obp_body p b) OBP_SRC_OFF = rd24 b OBP_SRC_OFF" "rd24 (obp_body p b) OBP_DST_OFF = rd24 b OBP_DST_OFF"
    "obp_body p b ! OBP_FLAGS_OFF = b ! OBP_FLAGS_OFF" "obp_body p b ! 4 = b ! 4"
    by (simp_all add: rd24_def nth obp_consts)
  show "rd32 (obp_body p b) OBP_NETID_OFF = (if o_preserve_source_peer p then rd32 b OBP_NETID_OFF else o_network_id p)"
    using l by (simp add: obp_body_def OBP_NETID_OFF_def rd_at rd_front rd32_wr32)
  show "body_stream (obp_body p b) = body_stream b"
    "take 33 (drop OBP_PAYLOAD_OFF (obp_body p b)) = take 33 (drop OBP_PAYLOAD_OFF b)"
    using l by (simp_all add: obp_body_def obp_consts)
qed

text \<open>The classes of the flags that a call sends.\<close>

lemma voice_flags:
  assumes "pos < 6"
  defines "flags \<equiv> if pos = 0 then OBPF_FRAMETYPE_VOICESYNC else OBPF_FRAMETYPE_VOICE OR of_nat pos"
  shows "frame_class_of flags = Fr_burst" "flags AND OBPF_CALL_UNIT = 0" "flags AND OBPF_VCSBK_MASK \<noteq> OBPF_VCSBK_MASK"
    "\<not> bit flags 7"
proof -
  have "pos \<in> {0, 1, 2, 3, 4, 5}" using assms(1) by auto
  then show "frame_class_of flags = Fr_burst" "flags AND OBPF_CALL_UNIT = 0" "flags AND OBPF_VCSBK_MASK \<noteq> OBPF_VCSBK_MASK"
    "\<not> bit flags 7"
    by (auto simp: flags_def obp_flags frame_class_of_def) 
qed

lemma end_flags:
  "frame_class_of (OBPF_FRAMETYPE_DATASYNC OR OBPF_SLT_VHEAD) = Fr_head"
  "frame_class_of (OBPF_FRAMETYPE_DATASYNC OR OBPF_SLT_VTERM) = Fr_term"
  by (simp_all add: obp_flags frame_class_of_def)

text \<open>The bodies that \<open>translate.c\<close> hands to \<open>obp_send_dmrd\<close> for a call.\<close>

definition call_bodies :: "nat \<Rightarrow> int \<Rightarrow> call_state \<Rightarrow> bytes list \<Rightarrow> bytes list" where
  "call_bodies n tg c as =
     map (\<lambda>(k, flags, pl). dmrd_body k (cs_rf_src c) tg (cs_cc_peer_id c) flags (cs_stream_id c) pl)
       (enumerate n (cc_call_frames c as))"

lemma call_bodies_out:
  assumes "length (cs_stream_id c) = 4" "l_tgid (link_cfg s i) = tg"
  shows "map (dmrd_out s i q c) (enumerate n (cc_call_frames c as)) =
    map (\<lambda>b. Udp_send (s_obp_fd s q) (obp_packet (peer_cfg s q) b) (o_peer_ip (peer_cfg s q)) (o_peer_port (peer_cfg s q)))
      (call_bodies n tg c as)"
  using assms by (simp add: call_bodies_def dmrd_out_def case_prod_beta)

lemma length_cc_call_frames: "length (cc_call_frames c as) = length as + 2"
  by (simp add: cc_call_frames_def)

text \<open>One body of the call: \<open>k\<close> is its number.\<close>

lemma call_bodies_parts:
  "call_bodies n tg c as =
     dmrd_body n (cs_rf_src c) tg (cs_cc_peer_id c) (OBPF_FRAMETYPE_DATASYNC OR OBPF_SLT_VHEAD) (cs_stream_id c)
       (build_head_term_payload (cs_lc c) False) #
     map (\<lambda>k. dmrd_body (Suc n + k) (cs_rf_src c) tg (cs_cc_peer_id c)
         (if k mod 6 = 0 then OBPF_FRAMETYPE_VOICESYNC else OBPF_FRAMETYPE_VOICE OR of_nat (k mod 6)) (cs_stream_id c)
         (build_voice_payload c (k mod 6) (as ! k))) [0..<length as] @
     [dmrd_body (Suc n + length as) (cs_rf_src c) tg (cs_cc_peer_id c) (OBPF_FRAMETYPE_DATASYNC OR OBPF_SLT_VTERM)
       (cs_stream_id c) (build_head_term_payload (cs_lc c) True)]"
proof -
  have "enumerate m (map (voice_frame c) (enumerate 0 as)) = map (\<lambda>k. (m + k, voice_frame c (k, as ! k))) [0..<length as]" for m
    by (rule nth_equalityI) (simp_all add: nth_enumerate_eq)
  then show ?thesis
    by (simp add: call_bodies_def cc_call_frames_def enumerate_append_eq voice_frame_def comp_def)
qed

definition call_shape :: "call_state \<Rightarrow> bool" where
  "call_shape c \<longleftrightarrow> length (cs_stream_id c) = 4 \<and> length (cs_emb c) = 4 \<and> (\<forall>f \<in> set (cs_emb c). length f = 4)"

lemma call_bodies_heard:
  assumes "call_shape c"
  shows "heard_call (take_bit 24 (cs_rf_src c)) (cs_cc_peer_id c) (take_bit 24 (of_int tg)) (cs_stream_id c)
      (map cccc_ambe_unpack21 as) (call_bodies n tg c as)"
    and "map (\<lambda>b. b ! 4) (call_bodies n tg c as) = map of_nat [n..<n + length as + 2]"
    and "\<forall>b \<in> set (call_bodies n tg c as). take 4 b = DMRD \<and> \<not> bit (b ! OBP_FLAGS_OFF) 7 \<and>
      b ! OBP_FLAGS_OFF AND OBPF_CALL_UNIT = 0 \<and> b ! OBP_FLAGS_OFF AND OBPF_VCSBK_MASK \<noteq> OBPF_VCSBK_MASK"
proof -
  have st: "length (cs_stream_id c) = 4" using assms by (simp add: call_shape_def)
  have pl: "length (build_voice_payload c (k mod 6) a) = 33"
      "extract_ambe (build_voice_payload c (k mod 6) a) = cccc_ambe_unpack21 a" for k a
    using assms by (simp_all add: call_shape_def voice_burst_bits(2) extract_build_voice)
  note fields = dmrd_body_fields [OF st pl(1)] dmrd_body_fields [OF st head_term_bits(2)]
  have "map (\<lambda>k. cccc_ambe_unpack21 (as ! k)) [0..<length as] = map cccc_ambe_unpack21 as"
    by (rule nth_equalityI) simp_all
  then show "heard_call (take_bit 24 (cs_rf_src c)) (cs_cc_peer_id c) (take_bit 24 (of_int tg)) (cs_stream_id c)
      (map cccc_ambe_unpack21 as) (call_bodies n tg c as)"
    unfolding heard_call_def call_bodies_parts
    by (auto simp: fields end_flags voice_flags pl comp_def map_replicate_const)
  show "map (\<lambda>b. b ! 4) (call_bodies n tg c as) = map of_nat [n..<n + length as + 2]"
  proof (rule nth_equalityI)
    fix i
    have "i = Suc (length as)" if "i < Suc (Suc (length as))" "\<not> i - Suc 0 < length as" "0 < i" using that by linarith
    then show "map (\<lambda>b. b ! 4) (call_bodies n tg c as) ! i = map of_nat [n..<n + length as + 2] ! i"
      if "i < length (map (\<lambda>b. b ! 4) (call_bodies n tg c as))"
      using that by (auto simp: call_bodies_parts fields nth_append nth_Cons' simp del: upt_Suc)
  qed (simp add: call_bodies_parts)
  show "\<forall>b \<in> set (call_bodies n tg c as). take 4 b = DMRD \<and> \<not> bit (b ! OBP_FLAGS_OFF) 7 \<and>
      b ! OBP_FLAGS_OFF AND OBPF_CALL_UNIT = 0 \<and> b ! OBP_FLAGS_OFF AND OBPF_VCSBK_MASK \<noteq> OBPF_VCSBK_MASK"
    unfolding call_bodies_parts
    by (auto simp: fields voice_flags) (simp_all add: obp_flags)
qed

lemma heard_obp_body:
  assumes "heard_call src netid dst st fs bodies"
  shows "heard_call src (if o_preserve_source_peer p then netid else o_network_id p) dst st fs (map (obp_body p) bodies)"
proof -
  have l: "\<forall>b \<in> set bodies. length b = OBP_DMRD_BODY_LEN" using assms by (simp add: heard_call_def)
  moreover have "set (butlast (tl bodies)) \<subseteq> set bodies" by (cases bodies) (auto dest: in_set_butlastD)
  ultimately have "map body_class (map (obp_body p) bodies) = map body_class bodies"
    "map body_frames (butlast (tl (map (obp_body p) bodies))) = map body_frames (butlast (tl bodies))"
    by (auto simp: obp_body_fields map_butlast [symmetric] map_tl [symmetric])
  note eqs = this
  have "\<forall>b \<in> set (map (obp_body p) bodies). length b = OBP_DMRD_BODY_LEN \<and> rd24 b OBP_SRC_OFF = src \<and>
      rd32 b OBP_NETID_OFF = (if o_preserve_source_peer p then netid else o_network_id p) \<and>
      rd24 b OBP_DST_OFF = dst \<and> body_stream b = st"
    using assms l by (auto simp: heard_call_def obp_body_fields)
  then show ?thesis using assms unfolding heard_call_def eqs by blast
qed

section \<open>What a bridge makes of the other one's messages\<close>

lemma strstr_None: "x \<in> set pat \<Longrightarrow> x \<notin> set s \<Longrightarrow> strstr s pat = None"
proof (induction s)
  case (Cons c s)
  have "take (length pat) (c # s) \<noteq> pat"
  proof
    assume "take (length pat) (c # s) = pat"
    then have "set pat \<subseteq> set (c # s)" by (metis set_take_subset)
    then show False using Cons.prems by auto
  qed
  then show ?case using Cons by simp
qed auto

lemma number_clean:
  assumes "\<forall>c \<in> set w. is_digit 10 c \<or> c = CHR ''-''"
  shows "set w \<inter> {CHR 0x00, CHR 0x0A, CHR 0x0D, CHR ''e''} = {}"
proof -
  have "\<not> is_digit 10 (CHR ''e'')" by (simp add: is_digit_def digit_value_def)
  then show ?thesis using assms not_control by fastforce
qed

lemma numbers_clean:
  "set (fmt_0d w i) \<inter> {CHR 0x00, CHR 0x0A, CHR 0x0D, CHR ''e''} = {}"
  "set (fmt_d i) \<inter> {CHR 0x00, CHR 0x0A, CHR 0x0D, CHR ''e''} = {}"
  "set (fmt_u v) \<inter> {CHR 0x00, CHR 0x0A, CHR 0x0D, CHR ''e''} = {}"
  "set (fmt_f0 x) \<inter> {CHR 0x00, CHR 0x0A, CHR 0x0D, CHR ''e''} = {}"
proof -
  have "\<forall>c \<in> set (show_nat 10 m). is_digit 10 c" for m by (rule all_digits_show) simp_all
  then show "set (fmt_f0 x) \<inter> {CHR 0x00, CHR 0x0A, CHR 0x0D, CHR ''e''} = {}"
    by (intro number_clean) (auto simp: fmt_f0_def)
qed (rule number_clean, use set_fmt_0d set_fmt_d set_fmt_u in blast)+

lemma signal_lines_clean:
  "set (butlast (build_bon lid user radio peer src_lid tgid CCCC_CALL_TYPE_GROUP)) \<inter> {CHR 0x00, CHR 0x0A, CHR 0x0D} = {}"
    "set (butlast (build_boff lid lost tot rssi)) \<inter> {CHR 0x00, CHR 0x0A, CHR 0x0D, CHR ''e''} = {}"
  using numbers_clean(1) [of 2 lid] numbers_clean(1) [of 3 user] numbers_clean(1) [of 2 src_lid] numbers_clean(1) [of 3 tgid]
    numbers_clean(3) [of radio] numbers_clean(3) [of peer] numbers_clean(2) [of lost] numbers_clean(2) [of tot]
    numbers_clean(4) [of rssi]
  by (auto simp: build_bon_def build_boff_def butlast_append CCCC_CALL_TYPE_GROUP_def)

text \<open>Reads that together are one line.\<close>

definition reads_of :: "string \<Rightarrow> bytes list \<Rightarrow> bool" where
  "reads_of text cs \<longleftrightarrow> concat cs = map char_byte text \<and> (\<forall>c \<in> set cs. length c \<le> 1024)"

lemma line_read:
  assumes "reads_of (l @ newline) cs" "line_fits RXBUF_CAP l" "lk_rxbuf (s_links s j) = []" "lk_state (s_links s j) = LST_UP"
  shows "link_reads j cs s = on_link j (\<lambda>k. k\<lparr>lk_rxbuf := []\<rparr>)
    (dispatch_established_line j l (on_link j (\<lambda>k. k\<lparr>lk_rxbuf := l @ newline\<rparr>) s))"
proof -
  have "cut_of cs [l]" using assms(1) by (simp add: cut_of_def reads_of_def wire_def)
  then have "link_reads j cs s = deliver_link j l s" using link_reads_lines [of cs "[l]" s j] assms(2,3) by simp
  then show ?thesis using assms(4) by (simp add: deliver_link_def deliver_def link_on_line_def on_link_def)
qed

lemma bon_dispatched:
  assumes "\<bar>lid\<bar> < 2 ^ 31" "\<bar>user\<bar> < 2 ^ 31"
  shows "dispatch_established_line j (butlast (build_bon lid user radio peer src_lid tgid CCCC_CALL_TYPE_GROUP)) s =
    translator_cccc_bon j radio peer s"
proof -
  let ?l = "butlast (build_bon lid user radio peer src_lid tgid CCCC_CALL_TYPE_GROUP)"
  obtain x y where "parse_bon ?l = Some (radio, peer, x, y, CCCC_CALL_TYPE_GROUP)"
    using parse_bon_ids [OF assms, of CCCC_CALL_TYPE_GROUP radio peer src_lid tgid] by (auto simp: CCCC_CALL_TYPE_GROUP_def)
  moreover from this have "strstr ?l ''Bee='' \<noteq> None" by (auto simp: parse_bon_def split: option.splits)
  ultimately show ?thesis by (simp add: dispatch_established_line_def)
qed

lemma boff_dispatched:
  assumes "0 \<le> lost" "lost < 2 ^ 31" "0 \<le> tot" "tot < 2 ^ 31"
  shows "dispatch_established_line j (butlast (build_boff lid lost tot rssi)) s = translator_cccc_boff j s"
proof -
  let ?l = "butlast (build_boff lid lost tot rssi)"
  have "strstr ?l ''Bee='' = None"
    using signal_lines_clean(2) [of lid lost tot rssi] by (intro strstr_None [where x = "CHR ''e''"]) auto
  moreover have p: "parse_boff ?l = Some (lost, tot)" by (rule parse_build_boff [OF assms])
  moreover from p have "strstr ?l ''LOSS='' \<noteq> None" by (auto simp: parse_boff_def split: option.splits)
  ultimately show ?thesis by (simp add: dispatch_established_line_def)
qed

lemma build_last: "build_bon lid user radio peer src_lid tgid t = butlast (build_bon lid user radio peer src_lid tgid t) @ newline"
  "build_boff lid lost tot rssi = butlast (build_boff lid lost tot rssi) @ newline"
  by (simp_all add: build_bon_def build_boff_def butlast_append)

lemma length_build_boff:
  assumes "\<bar>lid\<bar> < 2 ^ 31" "\<bar>lost\<bar> < 2 ^ 31" "\<bar>tot\<bar> < 2 ^ 31"
  shows "length (build_boff lid lost tot 0) < 256"
proof -
  have "length (show_nat 10 (nat (round_half_even 0))) \<le> 1" by (rule length_show_nat) (simp_all add: round_half_even_def)
  then show ?thesis
    using length_fmt_0d_le [of lid 10 2] length_fmt_d [OF assms(2)] length_fmt_d [OF assms(3)] assms(1)
    by (simp add: build_boff_def fmt_f0_def)
qed

lemma signal_lines_fit:
  assumes "\<bar>lid\<bar> < 2 ^ 31" "\<bar>user\<bar> < 2 ^ 31" "\<bar>src_lid\<bar> < 2 ^ 31" "\<bar>tgid\<bar> < 2 ^ 31" "\<bar>lost\<bar> < 2 ^ 31" "\<bar>tot\<bar> < 2 ^ 31"
  shows "line_fits RXBUF_CAP (butlast (build_bon lid user radio peer src_lid tgid CCCC_CALL_TYPE_GROUP))"
    "line_fits RXBUF_CAP (butlast (build_boff lid lost tot 0))"
  using signal_lines_clean(1) [of lid user radio peer src_lid tgid] signal_lines_clean(2) [of lid lost tot 0]
    length_build_bon [OF assms(1-4), of radio peer CCCC_CALL_TYPE_GROUP] length_build_boff [OF assms(1,5,6)]
  by (auto simp: line_fits_def RXBUF_CAP_def)

text \<open>The link is up, its peer has a socket, and nothing stops a call.\<close>

definition serves :: "sys \<Rightarrow> nat \<Rightarrow> nat \<Rightarrow> bool" where
  "serves s j p \<longleftrightarrow> peer_ready s j p \<and> l_enabled (link_cfg s j) \<and> gate_open s j \<and>
     lk_state (s_links s j) = LST_UP \<and> lk_rxbuf (s_links s j) = []"

text \<open>The SSRC and the address under which the other bridge sends belong to the link.\<close>

definition known_as :: "sys \<Rightarrow> nat \<Rightarrow> u32 \<Rightarrow> string \<Rightarrow> bool" where
  "known_as s j v ip \<longleftrightarrow> find_link_by_ssrc s v = Some j \<and> l_cc_remote_ip (link_cfg s j) = ip"

lemma link_unchanged: "lk_rxbuf (s_links s j) = [] \<Longrightarrow> (s_links s)(j := (s_links s j)\<lparr>lk_rxbuf := []\<rparr>) = s_links s"
  by (cases "s_links s j") (simp add: fun_upd_idem)

lemma bon_arrives:
  assumes "serves s j p" "abs_call (s_runtime s j) = Idle"
    and "reads_of (build_bon lid user radio peer src_lid tgid CCCC_CALL_TYPE_GROUP) cs"
    and "\<bar>lid\<bar> < 2 ^ 31" "\<bar>user\<bar> < 2 ^ 31" "\<bar>src_lid\<bar> < 2 ^ 31" "\<bar>tgid\<bar> < 2 ^ 31"
  shows "link_reads j cs s = translator_cccc_bon j radio peer s"
proof -
  let ?l = "butlast (build_bon lid user radio peer src_lid tgid CCCC_CALL_TYPE_GROUP)"
  let ?s = "on_link j (\<lambda>k. k\<lparr>lk_rxbuf := ?l @ newline\<rparr>) s"
  have up: "lk_rxbuf (s_links s j) = []" "lk_state (s_links s j) = LST_UP" using assms(1) by (simp_all add: serves_def)
  have fit: "line_fits RXBUF_CAP ?l" using assms(4-7) signal_lines_fit(1) [of lid user src_lid tgid 0 0] by simp
  have "reads_of (?l @ newline) cs" using assms(3) build_last(1) by metis
  then have r: "link_reads j cs s = on_link j (\<lambda>k. k\<lparr>lk_rxbuf := []\<rparr>) (translator_cccc_bon j radio peer ?s)"
    using fit up by (simp add: line_read bon_dispatched [OF assms(4,5)])
  have rs: "peer_ready ?s j p" "l_enabled (link_cfg ?s j)" "gate_open ?s j" "abs_call (s_runtime ?s j) = Idle"
    "peer_ready s j p" "l_enabled (link_cfg s j)" "gate_open s j"
    using assms(1,2) gate_open_cong [of ?s s j] by (simp_all add: serves_def on_link_def peer_ready_def)
  show ?thesis
    unfolding r cc_bon_ready [OF rs(1-4)] cc_bon_ready [OF rs(5-7) assms(2)]
    by (simp add: on_link_def dmrd_out_def link_unchanged up(1))
qed

lemma boff_arrives:
  assumes "peer_ready s j p" "call_from CALL_ORIGIN_CC (s_runtime s j)" "lk_state (s_links s j) = LST_UP" "lk_rxbuf (s_links s j) = []"
    and "reads_of (build_boff lid lost tot 0) cs" "\<bar>lid\<bar> < 2 ^ 31" "0 \<le> lost" "lost < 2 ^ 31" "0 \<le> tot" "tot < 2 ^ 31"
  shows "link_reads j cs s = translator_cccc_boff j s"
proof -
  let ?l = "butlast (build_boff lid lost tot 0)"
  let ?s = "on_link j (\<lambda>k. k\<lparr>lk_rxbuf := ?l @ newline\<rparr>) s"
  have fit: "line_fits RXBUF_CAP ?l" using assms(6-10) signal_lines_fit(2) [of lid 0 0 0 lost tot] by simp
  have "reads_of (?l @ newline) cs" using assms(5) build_last(2) by metis
  then have r: "link_reads j cs s = on_link j (\<lambda>k. k\<lparr>lk_rxbuf := []\<rparr>) (translator_cccc_boff j ?s)"
    using fit assms(3,4) by (simp add: line_read boff_dispatched [OF assms(7-10)])
  have rs: "peer_ready ?s j p" "call_from CALL_ORIGIN_CC (s_runtime ?s j)"
    using assms(1,2) by (simp_all add: on_link_def peer_ready_def)
  show ?thesis
    unfolding r cc_boff_ready [OF rs] cc_boff_ready [OF assms(1,2)]
    by (simp add: on_link_def dmrd_out_def link_unchanged assms(4))
qed

lemma voice_arrives:
  assumes "known_as s j v ip" "length a = 21"
  shows "on_voice_readable fd (In_datagram (build_voice v seq ts m a) ip port) s = translator_cccc_voice j a s"
proof -
  note f = voice_fields [OF assms(2) refl, of v seq ts m]
  have "length (build_voice v seq ts m a) = 33" by (rule length_build_voice [OF assms(2)])
  then show ?thesis
    using assms(1) f by (simp add: on_voice_readable_def known_as_def Let_def rtp_consts)
qed

section \<open>Two bridges with a CC-CC link\<close>

text \<open>
  What one bridge has sent on the link, on its way: the effect, the time it arrives, and the reads of
  its text if it is a line.  A datagram arrives from the address \<open>ip\<close> and \<open>port\<close> of the sender.
\<close>

type_synonym transit = "effect \<times> rat \<times> bytes list"

definition arrive :: "nat \<Rightarrow> string \<Rightarrow> int \<Rightarrow> transit \<Rightarrow> sys \<Rightarrow> sys" where
  "arrive j ip port = (\<lambda>(e, t, cs) s. let s = s\<lparr>s_now := t\<rparr> in
     case e of
       Tcp_send fd text \<Rightarrow> link_reads j cs s
     | Udp_send fd data to_ip to_port \<Rightarrow> on_voice_readable (s_voice_fd s) (In_datagram data ip port) s
     | _ \<Rightarrow> s)"

definition carried :: "transit \<Rightarrow> bool" where
  "carried = (\<lambda>(e, t, cs). case e of Tcp_send fd text \<Rightarrow> reads_of text cs | _ \<Rightarrow> True)"

abbreviation payload21 :: "bytes \<Rightarrow> bytes" where
  "payload21 body \<equiv> cccc_ambe_pack21 (body_frames body)"

lemma known_as_cong: "s_links t = s_links s \<Longrightarrow> s_cfg t = s_cfg s \<Longrightarrow> known_as t j v ip = known_as s j v ip"
  by (simp add: known_as_def find_link_by_ssrc_def)

lemma voices_arrive:
  assumes "map fst net = map (voice_out a i t0) ys" "known_as s j (lk_sync_source (s_links a i)) ip"
  shows "fold (arrive j ip port) net s =
    fold (hear j) (zip (map (\<lambda>x. fst (snd x)) net) (map (\<lambda>y. payload21 (snd (snd y))) ys)) s"
  using assms
proof (induction net arbitrary: ys s)
  case (Cons x net)
  then obtain y ys' where ys: "ys = y # ys'" "fst x = voice_out a i t0 y" "map fst net = map (voice_out a i t0) ys'" by auto
  obtain t cs m t' body where x: "x = (voice_out a i t0 y, t, cs)" "y = (m, t', body)"
    using ys(2) by (cases x; cases y) auto
  have k: "known_as (s\<lparr>s_now := t\<rparr>) j (lk_sync_source (s_links a i)) ip"
    using Cons.prems(2) known_as_cong [of "s\<lparr>s_now := t\<rparr>" s] by simp
  have step: "arrive j ip port x s = hear j (t, payload21 body) s"
    by (simp add: x arrive_def voice_out_def voice_arrives [OF k] hear_def)
  have "call_step j (s\<lparr>s_now := t\<rparr>) (hear j (t, payload21 body) s)" by (simp add: hear_def call_step_voice)
  then have "known_as (hear j (t, payload21 body) s) j (lk_sync_source (s_links a i)) ip"
    using k known_as_cong call_step_keeps(1,3) by metis
  then show ?case using Cons.IH [OF ys(3)] by (simp add: ys(1) step) (simp add: x)
qed simp

lemma slot_bounds:
  assumes "t0 \<le> t" "t < t0 + 100000000"
  shows "0 \<le> slot_index t t0" "slot_index t t0 < 2 ^ 31 - 1"
proof -
  let ?x = "(t - t0) / CCCC_SLOT_MS + 1 / 2"
  have x: "0 \<le> ?x" "?x < 2 ^ 31 - 1" unfolding CCCC_SLOT_MS_def using assms by (simp_all add: field_simps)
  then have "slot_index t t0 = \<lfloor>?x\<rfloor>" by (simp add: slot_index_def trunc_int_def)
  then show "0 \<le> slot_index t t0" "slot_index t t0 < 2 ^ 31 - 1" using x by (simp_all add: floor_less_iff)
qed

lemma new_cc_call_shape: "length st = 4 \<Longrightarrow> call_shape (new_cc_call radio peer st tg t)"
  by (auto simp: call_shape_def new_cc_call_def Let_def in_set_conv_nth)

lemma body_frames_shape: "length (body_frames b) = 3" "length b = OBP_DMRD_BODY_LEN \<Longrightarrow> \<forall>d \<in> set (body_frames b). length d = 49"
  by (auto simp: extract_ambe_def Let_def)

lemma take_bit_rd24: "take_bit 24 (rd24 b k) = rd24 b k"
  by (rule bit_word_eqI) (auto simp: rd24_def bit_simps dest: bit_imp_le_length)

text \<open>What the translator of the far bridge makes of it.\<close>

lemma call_arrives:
  assumes "serves b j p" "abs_call (s_runtime b j) = Idle" "known_as b j (lk_sync_source (s_links a i)) ip"
    and "reads_of (build_bon lid user src netid src_lid tg CCCC_CALL_TYPE_GROUP) cs"
    and "map fst net = map (voice_out a i t0) ys" "reads_of (build_boff lid 0 tot 0) ds"
    and "\<bar>lid\<bar> < 2 ^ 31" "\<bar>user\<bar> < 2 ^ 31" "\<bar>src_lid\<bar> < 2 ^ 31" "\<bar>tg\<bar> < 2 ^ 31" "0 \<le> tot" "tot < 2 ^ 31"
  shows "arrive j ip port (Tcp_send x (build_boff lid 0 tot 0), t2, ds) (fold (arrive j ip port) net
      (arrive j ip port (Tcp_send y (build_bon lid user src netid src_lid tg CCCC_CALL_TYPE_GROUP), t1, cs) b)) =
    cc_call_run j src netid t1 (zip (map (\<lambda>x. fst (snd x)) net) (map (\<lambda>y. payload21 (snd (snd y))) ys)) t2 b"
proof -
  let ?b0 = "b\<lparr>s_now := t1\<rparr>" and ?xs = "zip (map (\<lambda>x. fst (snd x)) net) (map (\<lambda>y. payload21 (snd (snd y))) ys)"
  define b1 where "b1 = translator_cccc_bon j src netid ?b0"
  define b2 where "b2 = (cc_call_talk j src netid t1 ?xs b)\<lparr>s_now := t2\<rparr>"
  have s0: "serves ?b0 j p" "abs_call (s_runtime ?b0 j) = Idle"
    using assms(1,2) gate_open_cong [of ?b0 b] by (simp_all add: serves_def peer_ready_def)
  have on: "arrive j ip port (Tcp_send y (build_bon lid user src netid src_lid tg CCCC_CALL_TYPE_GROUP), t1, cs) b = b1"
    using bon_arrives [OF s0 assms(4,7-10)] by (simp add: b1_def arrive_def)
  have "call_step j ?b0 b1" by (simp add: b1_def call_step_bon)
  then have "known_as b1 j (lk_sync_source (s_links a i)) ip"
    using assms(3) known_as_cong [of b1 b] call_step_keeps(1,3) [of j ?b0 b1] by simp
  then have mid: "fold (arrive j ip port) net b1 = cc_call_talk j src netid t1 ?xs b"
    unfolding cc_call_talk_def b1_def [symmetric] by (rule voices_arrive [OF assms(5)])
  have ready: "peer_ready b j p" "l_enabled (link_cfg b j)" "gate_open b j" using assms(1) by (simp_all add: serves_def)
  note v = cc_call_talk_ready [OF ready assms(2), of src netid t1 ?xs, unfolded Let_def]
  have "peer_ready b2 j p" "call_from CALL_ORIGIN_CC (s_runtime b2 j)" "lk_state (s_links b2 j) = LST_UP"
    "lk_rxbuf (s_links b2 j) = []"
    using v assms(1) by (auto simp: b2_def peer_ready_def serves_def)
  from boff_arrives [OF this assms(6,7) _ _ assms(11,12)] have "link_reads j ds b2 = translator_cccc_boff j b2" by simp
  then show ?thesis unfolding on mid by (simp add: arrive_def cc_call_run_def b2_def)
qed

text \<open>A call that comes in from OpenBridge, body by body, each at its time.\<close>

definition call_in :: "sys \<Rightarrow> nat \<Rightarrow> nat \<Rightarrow> rat list \<Rightarrow> bytes list \<Rightarrow> bool" where
  "call_in s q i ts bodies \<longleftrightarrow> (\<forall>b \<in> set bodies. obp_route s q b = Some i) \<and>
     length ts = length bodies \<and> (\<forall>t \<in> set ts. hd ts \<le> t \<and> t < hd ts + 100000000) \<and>
     gate_open s i \<and> lk_state (s_links s i) = LST_UP \<and> abs_call (s_runtime s i) = Idle \<and>
     \<bar>l_cc_lid (link_cfg s i)\<bar> < 2 ^ 31 \<and> \<bar>l_tgid (link_cfg s i)\<bar> < 2 ^ 31"

lemma call_in_out:
  assumes "heard_call src netid dst st fs bodies" "call_in s q i ts bodies"
  obtains t0 user tot ys where "s_out (fold (recv_at q) (zip ts bodies) s) = s_out s @
      [Tcp_send (lk_fd (s_links s i)) (build_bon (l_cc_lid (link_cfg s i)) user src netid (l_cc_lid (link_cfg s i))
         (l_tgid (link_cfg s i)) CCCC_CALL_TYPE_GROUP)] @
      map (voice_out s i t0) ys @ [Tcp_send (lk_fd (s_links s i)) (build_boff (l_cc_lid (link_cfg s i)) 0 tot 0)]"
    "abs_call (s_runtime (fold (recv_at q) (zip ts bodies) s) i) = Idle"
    "map (\<lambda>y. body_frames (snd (snd y))) ys = fs" "\<forall>y \<in> set ys. length (snd (snd y)) = OBP_DMRD_BODY_LEN"
    "\<bar>user\<bar> < 2 ^ 31" "0 \<le> tot" "tot < 2 ^ 31" "take_bit 24 src = src"
proof -
  obtain head bursts tail where b: "bodies = head # bursts @ [tail]" "body_class head = Fr_head" "body_class tail = Fr_term"
    "\<forall>b \<in> set bursts. body_class b = Fr_burst" "map body_frames bursts = fs"
    using heard_call_split [OF assms(1)] by blast
  have "length ts = length (head # bursts @ [tail])" using assms(2) b(1) by (simp add: call_in_def)
  then obtain t0 rest where ts0: "ts = t0 # rest" "length rest = Suc (length bursts)" by (cases ts) auto
  then obtain tm t1 where ts: "ts = t0 # tm @ [t1]" "length tm = length bursts" by (cases rest rule: rev_cases) auto
  let ?xs = "zip tm bursts" and ?lid = "l_cc_lid (link_cfg s i)"
  have zip: "fold (recv_at q) (zip ts bodies) s = recv_at q (t1, tail) (fold (recv_at q) ?xs (recv_at q (t0, head) s))"
    using ts by (simp add: b(1))
  have st: "\<forall>x \<in> set bodies. body_stream x = st" using assms(1) by (simp add: heard_call_def)
  have f: "frame_for s q i Fr_head st head" "frame_for s q i Fr_term st tail"
    "\<forall>x \<in> set ?xs. frame_for s q i Fr_burst st (snd x)"
    using assms(2) b st by (auto simp: frame_for_def call_in_def dest: set_zip_rightD)
  have id: "rd24 head OBP_SRC_OFF = src" "rd32 head OBP_NETID_OFF = netid" using assms(1) by (simp_all add: heard_call_def b(1))
  let ?tot = "if ?xs = [] then 0 else slot_index (fst (last ?xs)) t0 + 1"
  let ?ys = "zip (map (\<lambda>k. k = 0) [0..<length ?xs]) ?xs"
  have "gate_open s i" "lk_state (s_links s i) = LST_UP" "abs_call (s_runtime s i) = Idle" using assms(2) by (simp_all add: call_in_def)
  note out = obp_call_out [OF f this, of t1 t0, folded zip, unfolded id]
  have "0 \<le> ?tot \<and> ?tot < 2 ^ 31"
  proof (cases "?xs = []")
    case False
    then have "last ?xs \<in> set ?xs" by (rule last_in_set)
    then have "fst (last ?xs) \<in> set ts" using set_zip_leftD [of "fst (last ?xs)" "snd (last ?xs)" tm bursts] by (simp add: ts)
    then have "t0 \<le> fst (last ?xs)" "fst (last ?xs) < t0 + 100000000" using assms(2) by (auto simp: call_in_def ts(1))
    note slot_bounds [OF this]
    then show ?thesis using False by simp
  qed simp
  moreover have m: "map (\<lambda>y. snd (snd y)) ?ys = bursts" using ts(2) by (auto intro!: nth_equalityI)
  have "map (\<lambda>y. body_frames (snd (snd y))) ?ys = map body_frames (map (\<lambda>y. snd (snd y)) ?ys)" by (simp del: length_zip)
  then have "map (\<lambda>y. body_frames (snd (snd y))) ?ys = fs" unfolding m b(5) .
  moreover have "\<forall>x \<in> set bursts. length x = OBP_DMRD_BODY_LEN" using assms(1) by (simp add: heard_call_def b(1))
  then have "\<forall>y \<in> set ?ys. length (snd (snd y)) = OBP_DMRD_BODY_LEN" by (auto dest!: set_zip_rightD)
  moreover have "take_bit 24 src = src" using take_bit_rd24 [of head OBP_SRC_OFF] by (simp add: id)
  moreover have "\<bar>(s_user_ctr s i + 1) mod 1000\<bar> < 2 ^ 31" by (simp add: abs_less_iff pos_mod_bound order.strict_trans1)
  ultimately show thesis using that [OF out] by blast
qed

text \<open>The datagrams with these bodies, to the peer \<open>p\<close>.\<close>

definition datagrams :: "sys \<Rightarrow> nat \<Rightarrow> bytes list \<Rightarrow> effect list" where
  "datagrams s p bodies = (let P = peer_cfg s p in
     map (\<lambda>b. Udp_send (s_obp_fd s p) (b @ obp_mac (passphrase_key P) b) (o_peer_ip P) (o_peer_port P)) bodies)"

text \<open>The network id that the receiver of a call with this source peer sees.\<close>

definition seen_as :: "obp_peer_config \<Rightarrow> u32 \<Rightarrow> u32" where
  "seen_as P netid = (if o_preserve_source_peer P then netid else o_network_id P)"

lemma call_datagrams:
  assumes "call_shape c" "l_tgid (link_cfg s i) = tg"
  shows "\<exists>outs. map (dmrd_out s i p c) (enumerate n (cc_call_frames c as)) = datagrams s p outs \<and>
    heard_call (take_bit 24 (cs_rf_src c)) (seen_as (peer_cfg s p) (cs_cc_peer_id c)) (take_bit 24 (of_int tg)) (cs_stream_id c)
      (map cccc_ambe_unpack21 as) outs \<and>
    map (\<lambda>b. b ! 4) outs = map of_nat [n..<n + length as + 2] \<and>
    (\<forall>b \<in> set outs. take 4 b = DMRD \<and> \<not> bit (b ! OBP_FLAGS_OFF) 7 \<and>
      b ! OBP_FLAGS_OFF AND OBPF_CALL_UNIT = 0 \<and> b ! OBP_FLAGS_OFF AND OBPF_VCSBK_MASK \<noteq> OBPF_VCSBK_MASK)"
proof -
  let ?P = "peer_cfg s p" and ?bs = "call_bodies n tg c as"
  note h = call_bodies_heard [OF assms(1), where tg = tg and as = as and n = n]
  have l: "\<forall>b \<in> set ?bs. length b = OBP_DMRD_BODY_LEN" using h(1) by (simp add: heard_call_def)
  then have "map (dmrd_out s i p c) (enumerate n (cc_call_frames c as)) = datagrams s p (map (obp_body ?P) ?bs)"
    using assms by (simp add: call_bodies_out call_shape_def datagrams_def Let_def obp_packet_eq OBP_DMRD_BODY_LEN_def)
  moreover have "heard_call (take_bit 24 (cs_rf_src c)) (seen_as ?P (cs_cc_peer_id c)) (take_bit 24 (of_int tg)) (cs_stream_id c)
      (map cccc_ambe_unpack21 as) (map (obp_body ?P) ?bs)"
    unfolding seen_as_def by (rule heard_obp_body [OF h(1)])
  moreover have "map (\<lambda>b. b ! 4) (map (obp_body ?P) ?bs) = map (\<lambda>b. b ! 4) ?bs"
    using l by (simp add: obp_body_fields)
  moreover have "\<forall>b \<in> set (map (obp_body ?P) ?bs). take 4 b = DMRD \<and> \<not> bit (b ! OBP_FLAGS_OFF) 7 \<and>
      b ! OBP_FLAGS_OFF AND OBPF_CALL_UNIT = 0 \<and> b ! OBP_FLAGS_OFF AND OBPF_VCSBK_MASK \<noteq> OBPF_VCSBK_MASK"
    using l h(3) by (auto simp: obp_body_fields)
  ultimately show ?thesis using h(2) by (intro exI [of _ "map (obp_body ?P) ?bs"]) simp
qed

lemma new_cc_call_fields:
  "cs_rf_src (new_cc_call src netid st tg t) = src" "cs_cc_peer_id (new_cc_call src netid st tg t) = netid"
  "cs_stream_id (new_cc_call src netid st tg t) = st"
  by (simp_all add: new_cc_call_def Let_def)

lemma split_transits:
  fixes net :: "transit list"
  assumes "map fst net = e0 # es @ [e1]"
  obtains t1 cs mid t2 ds where "net = (e0, t1, cs) # mid @ [(e1, t2, ds)]" "map fst mid = es"
proof -
  obtain x0 rest where r: "net = x0 # rest" "fst x0 = e0" "map fst rest = es @ [e1]" using assms by (cases net) auto
  obtain mid x1 where "rest = mid @ [x1]" using r(3) by (cases rest rule: rev_cases) auto
  then show thesis using that [of "fst (snd x0)" "snd (snd x0)" mid "fst (snd x1)" "snd (snd x1)"] r by (cases x0; cases x1) simp
qed

text \<open>
  C2: a call that comes in from OpenBridge at one bridge comes out to OpenBridge at the other end of a
  CC-CC link unchanged.  Whatever the first bridge sends on the link arrives at any times, its lines
  cut into any reads; the peer of the second bridge then gets one signed header, one burst per burst
  and one terminator, numbered consecutively, of one stream, from the same talker to the group of that
  bridge's link, with the same vocoder frames bit by bit, and both links are free again.
\<close>

theorem call_crosses_cc_link:
  assumes heard: "heard_call src netid dst st fs bodies" and near: "call_in a q i ts bodies"
    and far: "serves b j p" "abs_call (s_runtime b j) = Idle" "known_as b j (lk_sync_source (s_links a i)) ip"
    and net: "s_out (fold (recv_at q) (zip ts bodies) a) = s_out a @ map fst net" "list_all carried net"
  shows "let a' = fold (recv_at q) (zip ts bodies) a; b' = fold (arrive j ip port) net b;
      n = s_obp_seq_ctr b p; tg = take_bit 24 (of_int (l_tgid (link_cfg b j)))
    in (\<exists>st' outs. s_out b' = s_out b @ datagrams b p outs \<and>
         heard_call src (seen_as (peer_cfg b p) netid) tg st' fs outs \<and>
         map (\<lambda>x. x ! 4) outs = map of_nat [n..<n + length bodies]) \<and>
       abs_call (s_runtime a' i) = Idle \<and> abs_call (s_runtime b' j) = Idle"
proof -
  obtain t0 user tot ys where out: "s_out (fold (recv_at q) (zip ts bodies) a) = s_out a @
      [Tcp_send (lk_fd (s_links a i)) (build_bon (l_cc_lid (link_cfg a i)) user src netid (l_cc_lid (link_cfg a i))
         (l_tgid (link_cfg a i)) CCCC_CALL_TYPE_GROUP)] @
      map (voice_out a i t0) ys @ [Tcp_send (lk_fd (s_links a i)) (build_boff (l_cc_lid (link_cfg a i)) 0 tot 0)]"
    and idle: "abs_call (s_runtime (fold (recv_at q) (zip ts bodies) a) i) = Idle"
    and ys: "map (\<lambda>y. body_frames (snd (snd y))) ys = fs" "\<forall>y \<in> set ys. length (snd (snd y)) = OBP_DMRD_BODY_LEN"
    and bounds: "\<bar>user\<bar> < 2 ^ 31" "0 \<le> tot" "tot < 2 ^ 31" "take_bit 24 src = src"
    by (rule call_in_out [OF heard near])
  let ?on = "build_bon (l_cc_lid (link_cfg a i)) user src netid (l_cc_lid (link_cfg a i)) (l_tgid (link_cfg a i)) CCCC_CALL_TYPE_GROUP"
  let ?off = "build_boff (l_cc_lid (link_cfg a i)) 0 tot 0" and ?fd = "lk_fd (s_links a i)"
  have "map fst net = Tcp_send ?fd ?on # map (voice_out a i t0) ys @ [Tcp_send ?fd ?off]" using net(1) out by simp
  then obtain t1 cs mid t2 ds where n: "net = (Tcp_send ?fd ?on, t1, cs) # mid @ [(Tcp_send ?fd ?off, t2, ds)]"
    "map fst mid = map (voice_out a i t0) ys" by (rule split_transits)
  have r: "reads_of ?on cs" "reads_of ?off ds" using net(2) by (simp_all add: n carried_def)
  have lid: "\<bar>l_cc_lid (link_cfg a i)\<bar> < 2 ^ 31" "\<bar>l_tgid (link_cfg a i)\<bar> < 2 ^ 31" using near by (simp_all add: call_in_def)
  let ?c = "new_cc_call src netid (wr32 (s_rand b (s_nrand b))) (l_tgid (link_cfg b j)) t1"
  let ?as = "map (\<lambda>y. payload21 (snd (snd y))) ys"
  let ?xs = "zip (map (\<lambda>x. fst (snd x)) mid) (map (\<lambda>y. payload21 (snd (snd y))) ys)"
  have b': "fold (arrive j ip port) net b = cc_call_run j src netid t1 ?xs t2 b"
    using call_arrives [OF far r(1) n(2) r(2) lid(1) bounds(1) lid bounds(2,3)] by (simp add: n)
  have "length mid = length ys" using n(2) by (metis length_map)
  then have snd: "map snd ?xs = ?as" by simp
  have ready: "peer_ready b j p" "l_enabled (link_cfg b j)" "gate_open b j" using far(1) by (simp_all add: serves_def)
  note fc = cc_call_out [OF ready far(2), of src netid t1 ?xs t2, unfolded snd, folded b']
  have "cccc_ambe_unpack21 (payload21 (snd (snd y))) = body_frames (snd (snd y))" if "y \<in> set ys" for y
    using ys(2) that by (intro unpack21_pack21 body_frames_shape) simp_all
  then have as: "map cccc_ambe_unpack21 ?as = fs" "length ?as = length fs" using ys(1) by auto
  obtain outs where o: "map (dmrd_out b j p ?c) (enumerate (s_obp_seq_ctr b p) (cc_call_frames ?c ?as)) = datagrams b p outs"
    "heard_call src (seen_as (peer_cfg b p) netid) (take_bit 24 (of_int (l_tgid (link_cfg b j)))) (cs_stream_id ?c) fs outs"
    "map (\<lambda>x. x ! 4) outs = map of_nat [s_obp_seq_ctr b p..<s_obp_seq_ctr b p + length fs + 2]"
    using call_datagrams [OF new_cc_call_shape refl, of "wr32 (s_rand b (s_nrand b))" b j p src netid "l_tgid (link_cfg b j)" t1
        "s_obp_seq_ctr b p" ?as] bounds(4)
    by (auto simp only: as new_cc_call_fields length_wr)
  show ?thesis
    unfolding Let_def
  proof (intro conjI exI)
    show "s_out (fold (arrive j ip port) net b) = s_out b @ datagrams b p outs" using fc(1) o(1) by (simp only:)
    show "map (\<lambda>x. x ! 4) outs = map of_nat [s_obp_seq_ctr b p..<s_obp_seq_ctr b p + length bodies]"
      using o(3) length_heard_call [OF heard] by (simp only: add.assoc)
  qed (rule o(2) idle fc(2))+
qed

text \<open>A short call, and the whole line in one read.\<close>

abbreviation demo_bodies :: "bytes list" where
  "demo_bodies \<equiv> [demo_body 0x21, demo_body 0x11, demo_body 0x22]"

lemma demo_heard: "heard_call 3112001 3112345 3120 [1, 2, 3, 4] [body_frames (demo_body 0x11)] demo_bodies"
proof -
  have b: "demo_body f = dmrd_body 0 3112001 3120 3112345 f [1, 2, 3, 4] (replicate 33 0)" for f
    by (simp add: demo_body_def dmrd_body_def)
  have "length [1, 2, 3, 4 :: u8] = 4" "length (replicate 33 (0 :: u8)) = 33" by simp_all
  note f = dmrd_body_fields [OF this, of 0 3112001 3120 3112345, folded b]
  have "body_class (demo_body 0x21) = Fr_head" "body_class (demo_body 0x11) = Fr_burst" "body_class (demo_body 0x22) = Fr_term"
    using demo_frames by (simp_all add: frame_for_def)
  then show ?thesis by (simp add: heard_call_def f)
qed

lemma demo_call_in: "call_in demo_ready 0 0 [0, 1, 2] demo_bodies"
proof -
  have "s_cfg demo_ready = demo_config" by (simp add: demo_ready_def demo_up_def on_link_def demo_sys_def blank_sys_def)
  then have "\<bar>l_cc_lid (link_cfg demo_ready 0)\<bar> < 2 ^ 31" "\<bar>l_tgid (link_cfg demo_ready 0)\<bar> < 2 ^ 31"
    by (simp_all add: demo_config_def demo_link_def)
  moreover have "lk_state (s_links demo_ready 0) = LST_UP" by (simp add: demo_ready_def demo_up_def on_link_def)
  ultimately show ?thesis using demo_frames demo_ready_facts by (simp add: call_in_def frame_for_def)
qed

lemma demo_far: "serves demo_ready 0 0" "known_as demo_ready 0 (lk_sync_source (s_links demo_ready 0)) ''10.0.0.3''"
proof -
  have l: "s_links demo_ready = s_links demo_up" "s_cfg demo_ready = demo_config"
    by (simp_all add: demo_ready_def demo_up_def on_link_def demo_sys_def blank_sys_def)
  have k: "lk_state (s_links demo_up 0) = LST_UP" "lk_rxbuf (s_links demo_up 0) = []" "lk_sync_source (s_links demo_up 0) = 0xABCD"
    by (simp_all add: demo_up_def on_link_def) (simp add: demo_defs)
  then show "serves demo_ready 0 0" using demo_ready_facts by (simp add: serves_def l(1))
  have "find_link_by_ssrc demo_ready 0xABCD = Some 0"
    unfolding find_link_by_ssrc_def
    by (rule find_only) (auto simp: demo_ready_def demo_up_def on_link_def n_link_def demo_defs split: if_splits)
  then show "known_as demo_ready 0 (lk_sync_source (s_links demo_ready 0)) ''10.0.0.3''"
    by (simp add: known_as_def l k(3)) (simp add: demo_config_def demo_link_def)
qed

definition direct :: "effect \<Rightarrow> transit" where
  "direct e = (e, 0, case e of Tcp_send fd text \<Rightarrow> [map char_byte text] | _ \<Rightarrow> [])"

lemma direct_carried:
  "map fst (map direct es) = es" "\<forall>fd text. Tcp_send fd text \<in> set es \<longrightarrow> length text \<le> 1024 \<Longrightarrow> list_all carried (map direct es)"
  by (induction es) (auto simp: direct_def carried_def reads_of_def comp_def list_all_iff split: effect.splits)

lemma call_crosses_cc_link_witness:
  "length (s_out (fold (arrive 0 ''10.0.0.3'' 42422)
     (map direct (s_out (fold (recv_at 0) (zip [0, 1, 2] demo_bodies) demo_ready))) demo_ready)) = 3"
proof -
  let ?es = "s_out (fold (recv_at 0) (zip [0, 1, 2] demo_bodies) demo_ready)"
  obtain t0 user tot ys where out: "?es = s_out demo_ready @ [Tcp_send (lk_fd (s_links demo_ready 0))
        (build_bon (l_cc_lid (link_cfg demo_ready 0)) user 3112001 3112345 (l_cc_lid (link_cfg demo_ready 0))
         (l_tgid (link_cfg demo_ready 0)) CCCC_CALL_TYPE_GROUP)] @ map (voice_out demo_ready 0 t0) ys @
        [Tcp_send (lk_fd (s_links demo_ready 0)) (build_boff (l_cc_lid (link_cfg demo_ready 0)) 0 tot 0)]"
    "\<bar>user\<bar> < 2 ^ 31" "0 \<le> tot" "tot < 2 ^ 31"
    by (rule call_in_out [OF demo_heard demo_call_in])
  have lid: "\<bar>l_cc_lid (link_cfg demo_ready 0)\<bar> < 2 ^ 31" "\<bar>l_tgid (link_cfg demo_ready 0)\<bar> < 2 ^ 31"
    using demo_call_in by (simp_all add: call_in_def)
  have "length w \<le> 1024" if "Tcp_send fd w \<in> set ?es" for fd w
    using that length_build_bon [OF lid(1) out(2) lid, of 3112001 3112345 CCCC_CALL_TYPE_GROUP]
      length_build_boff [OF lid(1), of 0 tot] out(3,4)
    unfolding out(1) by (auto simp: demo_ready_facts(5) voice_out_def)
  then have "list_all carried (map direct ?es)" by (intro direct_carried(2)) blast
  moreover have "?es = s_out demo_ready @ map fst (map direct ?es)" unfolding direct_carried(1) by (simp add: demo_ready_facts(5))
  ultimately show ?thesis
    using call_crosses_cc_link [OF demo_heard demo_call_in demo_far(1) demo_ready_facts(4) demo_far(2), of "map direct ?es" 42422]
    by (auto simp: Let_def demo_ready_facts(5) datagrams_def dest!: length_heard_call)
qed

section \<open>Two bridges that are OpenBridge peers\<close>

text \<open>A datagram of the other bridge comes in at its time on the socket of peer \<open>q\<close>.\<close>

definition obp_arrive :: "nat \<Rightarrow> string \<Rightarrow> int \<Rightarrow> rat \<times> effect \<Rightarrow> sys \<Rightarrow> sys" where
  "obp_arrive q ip port = (\<lambda>(t, e) s.
     case e of
       Udp_send fd data to_ip to_port \<Rightarrow> on_obp_readable q (In_datagram data ip port) (s\<lparr>s_now := t\<rparr>)
     | _ \<Rightarrow> s)"

text \<open>The peers know each other: the same passphrase, and the address the datagrams come from.\<close>

definition peers :: "obp_peer_config \<Rightarrow> obp_peer_config \<Rightarrow> string \<Rightarrow> int \<Rightarrow> bool" where
  "peers P Q ip port \<longleftrightarrow> o_passphrase Q = o_passphrase P \<and> o_peer_ip Q = ip \<and> o_peer_port Q = port"

lemma datagram_accepted:
  assumes "length x = OBP_DMRD_BODY_LEN" "take 4 x = DMRD" "\<not> bit (x ! OBP_FLAGS_OFF) 7" "peers P (peer_cfg s q) ip port"
  shows "on_obp_readable q (In_datagram (x @ obp_mac (passphrase_key P) x) ip port) s = translator_obp_dmrd_received q x s"
proof -
  have "passphrase_key (peer_cfg s q) = passphrase_key P" using assms(4) by (simp add: peers_def passphrase_key_def)
  then have "obp_verdict (peer_cfg s q) (x @ obp_mac (passphrase_key P) x) ip port = Accepted"
    using assms by (auto simp: verdict_Accepted_iff peers_def OBP_DMRD_BODY_LEN_def OBP_FLAGS_OFF_def)
  then show ?thesis using assms(1) by (simp add: on_obp_readable_def)
qed

lemma recv_at_cfg: "s_cfg (recv_at q x s) = s_cfg s"
  using call_step_dmrd [of q "snd x" "s\<lparr>s_now := fst x\<rparr>"] call_step_keeps(1)
  by (fastforce simp: recv_at_def case_prod_beta)

lemma datagrams_arrive:
  assumes "\<forall>x \<in> set outs. length x = OBP_DMRD_BODY_LEN \<and> take 4 x = DMRD \<and> \<not> bit (x ! OBP_FLAGS_OFF) 7"
    and "peers (peer_cfg a p) (peer_cfg s q) ip port"
  shows "fold (obp_arrive q ip port) (zip ts (datagrams a p outs)) s = fold (recv_at q) (zip ts outs) s"
  using assms
proof (induction outs arbitrary: ts s)
  case (Cons x outs)
  show ?case
  proof (cases ts)
    case ts: (Cons t ts')
    obtain e where e: "datagrams a p (x # outs) = e # datagrams a p outs"
      "e = Udp_send (s_obp_fd a p) (x @ obp_mac (passphrase_key (peer_cfg a p)) x) (o_peer_ip (peer_cfg a p)) (o_peer_port (peer_cfg a p))"
      by (simp add: datagrams_def Let_def)
    have "obp_arrive q ip port (t, e) s = recv_at q (t, x) s"
      using Cons.prems datagram_accepted [of x "peer_cfg a p" "s\<lparr>s_now := t\<rparr>" q ip port]
      by (simp add: obp_arrive_def e(2) recv_at_def)
    then show ?thesis
      using Cons.prems Cons.IH [of "recv_at q (t, x) s" ts'] recv_at_cfg [of q "(t, x)" s] by (simp add: ts e(1))
  qed simp
qed (simp add: datagrams_def)

text \<open>The 21 bytes of a voice datagram without the unused low bits of its three units.\<close>

definition vocoder_bits :: "bytes \<Rightarrow> bytes" where
  "vocoder_bits a = a[6 := a ! 6 AND 0x80, 13 := a ! 13 AND 0x80, 20 := a ! 20 AND 0x80]"

text \<open>A voice datagram of the link with these 21 bytes.\<close>

definition voice_with :: "sys \<Rightarrow> nat \<Rightarrow> bytes \<Rightarrow> effect \<Rightarrow> bool" where
  "voice_with s i a e \<longleftrightarrow> (\<exists>seq ts m. e = Udp_send (s_voice_fd s) (build_voice (lk_sync_source (s_links s i)) seq ts m a)
     (l_cc_remote_ip (link_cfg s i)) (l_cc_remote_voice_port (link_cfg s i)))"

lemma voice_out_with: "voice_with s i (payload21 (snd (snd y))) (voice_out s i t0 y)"
  by (cases y) (auto simp: voice_with_def voice_out_def)

text \<open>
  C4: a call that comes in from CC-CC at one bridge comes out to CC-CC at another bridge that is its
  OpenBridge peer.  The datagrams of the first bridge, arriving at any times, pass the checks of the
  second; when the group of the first link is routed to a link that is up and free, the CC-CC peer of
  that link gets one B-on with the talker and the source peer as the OpenBridge side sees it, one
  voice datagram for each that came in, with the same vocoder bits, and one B-off, and both links are
  free again.
\<close>

theorem call_crosses_openbridge:
  assumes near: "peer_ready a i p" "l_enabled (link_cfg a i)" "gate_open a i" "abs_call (s_runtime a i) = Idle"
    and voice: "\<forall>x \<in> set xs. length (snd x) = CCCC_RTP_PAYLOAD_LEN"
    and peers: "peers (peer_cfg a p) (peer_cfg b q) ip port"
    and route: "find_obp_link (s_cfg b) q (take_bit 24 (of_int (l_tgid (link_cfg a i)))) = Some j" "l_enabled (link_cfg b j)"
    and far: "gate_open b j" "lk_state (s_links b j) = LST_UP" "abs_call (s_runtime b j) = Idle"
      "\<bar>l_cc_lid (link_cfg b j)\<bar> < 2 ^ 31" "\<bar>l_tgid (link_cfg b j)\<bar> < 2 ^ 31"
    and times: "length ts = length xs + 2" "\<forall>t \<in> set ts. hd ts \<le> t \<and> t < hd ts + 100000000"
  shows "let a' = cc_call_run i radio peer t0 xs t1 a;
      b' = fold (obp_arrive q ip port) (zip ts (drop (length (s_out a)) (s_out a'))) b;
      lid = l_cc_lid (link_cfg b j); fd = lk_fd (s_links b j)
    in (\<exists>user tot vs. s_out b' = s_out b @
          [Tcp_send fd (build_bon lid user (take_bit 24 radio) (seen_as (peer_cfg a p) peer) lid (l_tgid (link_cfg b j))
             CCCC_CALL_TYPE_GROUP)] @ vs @ [Tcp_send fd (build_boff lid 0 tot 0)] \<and>
          list_all2 (voice_with b j) (map (\<lambda>x. vocoder_bits (snd x)) xs) vs) \<and>
       abs_call (s_runtime a' i) = Idle \<and> abs_call (s_runtime b' j) = Idle"
proof -
  let ?a = "cc_call_run i radio peer t0 xs t1 a" and ?as = "map snd xs"
  let ?c = "new_cc_call radio peer (wr32 (s_rand a (s_nrand a))) (l_tgid (link_cfg a i)) t0"
  note out = cc_call_out [OF near, of radio peer t0 xs t1]
  obtain outs where o: "map (dmrd_out a i p ?c) (enumerate (s_obp_seq_ctr a p) (cc_call_frames ?c ?as)) = datagrams a p outs"
    "heard_call (take_bit 24 radio) (seen_as (peer_cfg a p) peer) (take_bit 24 (of_int (l_tgid (link_cfg a i)))) (cs_stream_id ?c)
      (map cccc_ambe_unpack21 ?as) outs"
    "\<forall>b \<in> set outs. take 4 b = DMRD \<and> \<not> bit (b ! OBP_FLAGS_OFF) 7 \<and>
      b ! OBP_FLAGS_OFF AND OBPF_CALL_UNIT = 0 \<and> b ! OBP_FLAGS_OFF AND OBPF_VCSBK_MASK \<noteq> OBPF_VCSBK_MASK"
    using call_datagrams [OF new_cc_call_shape refl, of "wr32 (s_rand a (s_nrand a))" a i p radio peer "l_tgid (link_cfg a i)" t0
        "s_obp_seq_ctr a p" ?as]
    by (auto simp only: new_cc_call_fields length_wr)
  have l: "\<forall>x \<in> set outs. length x = OBP_DMRD_BODY_LEN \<and> rd24 x OBP_DST_OFF = take_bit 24 (of_int (l_tgid (link_cfg a i)))"
    using o(2) by (simp add: heard_call_def)
  have "drop (length (s_out a)) (s_out ?a) = datagrams a p outs" using out(1) o(1) by simp
  then have b': "fold (obp_arrive q ip port) (zip ts (drop (length (s_out a)) (s_out ?a))) b = fold (recv_at q) (zip ts outs) b"
    using datagrams_arrive [of outs a p b q ip port ts] l o(3) peers by simp
  have "call_in b q j ts outs"
    using l o(3) route far times length_heard_call [OF o(2)] by (simp add: call_in_def obp_route_def)
  then obtain t2 user tot ys where f: "s_out (fold (recv_at q) (zip ts outs) b) = s_out b @
      [Tcp_send (lk_fd (s_links b j)) (build_bon (l_cc_lid (link_cfg b j)) user (take_bit 24 radio) (seen_as (peer_cfg a p) peer)
         (l_cc_lid (link_cfg b j)) (l_tgid (link_cfg b j)) CCCC_CALL_TYPE_GROUP)] @
      map (voice_out b j t2) ys @ [Tcp_send (lk_fd (s_links b j)) (build_boff (l_cc_lid (link_cfg b j)) 0 tot 0)]"
    "abs_call (s_runtime (fold (recv_at q) (zip ts outs) b) j) = Idle"
    "map (\<lambda>y. body_frames (snd (snd y))) ys = map cccc_ambe_unpack21 ?as"
    by (rule call_in_out [OF o(2)])
  have "map (\<lambda>y. payload21 (snd (snd y))) ys = map cccc_ambe_pack21 (map (\<lambda>y. body_frames (snd (snd y))) ys)" by simp
  also have "\<dots> = map (\<lambda>x. vocoder_bits (snd x)) xs"
    using voice by (simp add: f(3) pack21_unpack21 vocoder_bits_def CCCC_RTP_PAYLOAD_LEN_def)
  finally have m: "map (\<lambda>y. payload21 (snd (snd y))) ys = map (\<lambda>x. vocoder_bits (snd x)) xs" .
  have "list_all2 (voice_with b j) (map (\<lambda>y. payload21 (snd (snd y))) ys) (map (voice_out b j t2) ys)"
    by (auto simp: list.rel_map intro!: list.rel_refl voice_out_with)
  then have "list_all2 (voice_with b j) (map (\<lambda>x. vocoder_bits (snd x)) xs) (map (voice_out b j t2) ys)" unfolding m .
  then show ?thesis unfolding Let_def b' using f(1,2) out(2) by blast
qed

lemma call_crosses_openbridge_witness:
  "length (s_out (fold (obp_arrive 0 ''10.0.0.2'' 62001)
     (zip [0, 1, 2, 3] (s_out (cc_call_run 0 3112001 1 0 [(1, replicate 21 0), (2, replicate 21 0xFF)] 3 demo_ready))) demo_ready)) = 4"
proof -
  have c: "s_cfg demo_ready = demo_config" by (simp add: demo_ready_def demo_up_def on_link_def demo_sys_def blank_sys_def)
  have "peers (peer_cfg demo_ready 0) (peer_cfg demo_ready 0) ''10.0.0.2'' 62001"
    by (simp add: peers_def c) (simp add: demo_config_def demo_peer_def)
  moreover have "find_obp_link (s_cfg demo_ready) 0 (take_bit 24 (of_int (l_tgid (link_cfg demo_ready 0)))) = Some 0"
    by (simp add: c find_obp_link_def n_link_def demo_config_def demo_link_def upt_rec)
  moreover have "gate_open demo_ready 0" "lk_state (s_links demo_ready 0) = LST_UP" "abs_call (s_runtime demo_ready 0) = Idle"
    "\<bar>l_cc_lid (link_cfg demo_ready 0)\<bar> < 2 ^ 31" "\<bar>l_tgid (link_cfg demo_ready 0)\<bar> < 2 ^ 31"
    using demo_call_in by (simp_all add: call_in_def)
  ultimately show ?thesis
    using call_crosses_openbridge [OF demo_ready_facts(1-4), of "[(1, replicate 21 0), (2, replicate 21 0xFF)]" demo_ready 0
        "''10.0.0.2''" 62001 0 "[0, 1, 2, 3]" 3112001 1 0 3] demo_ready_facts(2)
    by (auto simp: Let_def demo_ready_facts(5) CCCC_RTP_PAYLOAD_LEN_def dest: list_all2_lengthD)
qed

end
