(* ===== verification/Calm.thy ===== *)
theory Calm
  imports Main_Loop
begin

text \<open>
  What the handlers leave alone: the configuration, the clock, the OpenBridge sockets and the source
  of random numbers; and no handler arms a timer that is due at once.  The relation is transitive
  in the form that lets the facts be chained through the body of a handler.
\<close>

section \<open>The relation\<close>

definition calm :: "sys \<Rightarrow> sys \<Rightarrow> bool" where
  "calm s t \<longleftrightarrow> 0 < c_keepalive_interval (s_cfg s) \<and> s_cfg t = s_cfg s \<and> s_now t = s_now s \<and>
     s_obp_fd t = s_obp_fd s \<and> s_obp_active t = s_obp_active s \<and> s_rand t = s_rand s \<and>
     s_shutdown_requested t = s_shutdown_requested s \<and> ev_running (s_loop t) = ev_running (s_loop s) \<and>
     due_count (s_now s) (ev_timers (s_loop t)) \<le> due_count (s_now s) (ev_timers (s_loop s))"

named_theorems calm_rules \<open>a handler that starts calm ends calm\<close>

lemma calm_refl: "0 < c_keepalive_interval (s_cfg s) \<Longrightarrow> calm s s"
  by (simp add: calm_def)

lemma calm_trans: "calm s t \<Longrightarrow> calm t u \<Longrightarrow> calm s u"
  by (auto simp: calm_def)

lemma due_deactivate: "due_count now (deactivate i ts) \<le> due_count now ts"
  by (induction ts) (auto simp: due_count_def deactivate_def)

lemma due_cancel: "due_count now (ev_timers (ev_timer_cancel h l)) \<le> due_count now (ev_timers l)"
  by (cases h) (simp_all add: ev_timer_cancel_def due_deactivate)

lemma due_after:
  "0 < d \<Longrightarrow> due_count (s_now s) (ev_timers (s_loop (snd (timer_after d cb s)))) =
     due_count (s_now s) (ev_timers (s_loop s))"
  by (simp add: timer_after_def ev_timer_after_def ev_timer_at_def due_count_def Let_def)

section \<open>Primitives\<close>

lemma calm_access [calm_rules]:
  assumes "calm s t"
  shows "calm s (on_link i f t)" "calm s (on_pending k g t)" "calm s (emit e t)" "calm s (snd (next_sock t))"
    "calm s (snd (next_rand t))" "calm s (on_loop (ev_add_fd fd cb) t)" "calm s (on_loop (ev_del_fd fd) t)"
    "calm s (on_loop (ev_add_fd_write fd cb) t)" "calm s (on_loop (ev_del_fd_write fd) t)"
  using assms
  by (simp_all add: calm_def access_defs ev_add_fd_def ev_del_fd_def ev_add_fd_write_def ev_del_fd_write_def)

lemma calm_cancel [calm_rules]: "calm s t \<Longrightarrow> calm s (on_loop (ev_timer_cancel h) t)"
  using due_cancel [of "s_now s" h "s_loop t"]
  by (cases h) (auto simp: calm_def on_loop_def ev_timer_cancel_def)

lemma calm_after [calm_rules]: "calm s t \<Longrightarrow> 0 < d \<Longrightarrow> calm s (snd (timer_after d cb t))"
  using due_after [of d t cb]
  by (simp add: calm_def) (simp add: timer_after_def ev_timer_after_def ev_timer_at_def Let_def)

lemma calm_rand: "calm s t \<Longrightarrow> calm s (t\<lparr>s_nrand := k\<rparr>)"
  by (simp add: calm_def)

lemma calm_call:
  assumes "calm s t" "call_step i t u"
  shows "calm s u"
proof -
  have "s_shutdown_requested u = s_shutdown_requested t"
    using assms(2) by (auto simp: call_step_def only_sends_def)
  then show ?thesis using assms(1) call_step_keeps [OF assms(2)] by (simp add: calm_def)
qed

lemma calm_translator [calm_rules]:
  assumes "calm s t"
  shows "calm s (translator_cccc_link_down i t)" "calm s (translator_cccc_link_up i t)"
    "calm s (translator_cccc_bon i r p t)" "calm s (translator_cccc_boff i t)" "calm s (translator_cccc_voice i a t)"
    "calm s (tick_link t i)" "calm s (translator_obp_dmrd_received q body t)"
proof -
  show "calm s (translator_cccc_link_down i t)" "calm s (translator_cccc_link_up i t)"
    by (rule calm_call [OF assms], rule call_step_up_down)+
  show "calm s (translator_cccc_bon i r p t)" by (rule calm_call [OF assms call_step_bon])
  show "calm s (translator_cccc_boff i t)"
    by (auto simp: translator_cccc_boff_def intro!: calm_call [OF assms] call_step_end call_step_refl)
  show "calm s (translator_cccc_voice i a t)" by (rule calm_call [OF assms call_step_voice])
  show "calm s (tick_link t i)" by (rule calm_call [OF assms call_step_tick])
  show "calm s (translator_obp_dmrd_received q body t)"
    using assms by (auto simp: dmrd_by_route intro: calm_call call_step_frame split: option.split)
qed

lemma calm_foldl: "calm s t \<Longrightarrow> (\<And>u x. calm s u \<Longrightarrow> calm s (f u x)) \<Longrightarrow> calm s (foldl f t xs)"
  by (induction xs arbitrary: t) auto

lemma calm_sends [calm_rules]: "calm s t \<Longrightarrow> calm s (tcp_send i line t)" "calm s t \<Longrightarrow> calm s (udp_send_to_link i pkt t)"
  by (simp_all add: tcp_send_def udp_send_to_link_def Let_def calm_rules)

section \<open>Handlers\<close>

lemma calm_schedule [calm_rules]: "calm s t \<Longrightarrow> calm s (schedule_reconnect i t)"
  by (simp add: schedule_reconnect_def case_prod_beta RECONNECT_DELAY_S_def calm_rules)

lemma calm_cancels [calm_rules]:
  "calm s t \<Longrightarrow> calm s (cancel_keepalive i t)" "calm s t \<Longrightarrow> calm s (cancel_reconnect i t)"
  "calm s t \<Longrightarrow> calm s (close_link_fd i t)" "calm s t \<Longrightarrow> calm s (fired h t)"
  by (simp_all add: cancel_keepalive_def cancel_reconnect_def close_link_fd_def fired_def Let_def calm_rules)

lemma calm_teardown [calm_rules]: "calm s t \<Longrightarrow> calm s (teardown_link_connection i t)"
  by (simp add: teardown_link_connection_def Let_def calm_rules)

lemma calm_connect [calm_rules]: "calm s t \<Longrightarrow> calm s (start_outbound_connect i t)"
  by (simp add: start_outbound_connect_def case_prod_beta Let_def calm_rules)

lemma calm_reconnect [calm_rules]: "calm s t \<Longrightarrow> calm s (reconnect_cb i t)"
  by (simp add: reconnect_cb_def Let_def calm_rules)

lemma calm_rearm [calm_rules]:
  assumes "calm s t"
  shows "calm s (rearm_keepalive i t)" "calm s (arm_keepalive i t)"
proof -
  have *: "calm s (rearm_keepalive i u)" if "calm s u" for u
    using that calm_def [of s u] by (simp add: rearm_keepalive_def case_prod_beta calm_rules)
  show "calm s (rearm_keepalive i t)" "calm s (arm_keepalive i t)"
    using * assms by (simp_all add: arm_keepalive_def calm_rules)
qed

lemma calm_keepalive [calm_rules]: "calm s t \<Longrightarrow> calm s (keepalive_cb i t)"
  by (simp add: keepalive_cb_def Let_def calm_rules)

lemma calm_lines [calm_rules]:
  "calm s t \<Longrightarrow> calm s (finish_outbound_handshake i t)"
  "calm s t \<Longrightarrow> calm s (dispatch_established_line i line t)"
  by (auto simp: finish_outbound_handshake_def dispatch_established_line_def Let_def calm_rules split: option.split)

lemma calm_line [calm_rules]: "calm s t \<Longrightarrow> calm s (link_on_line i line t)"
  by (simp add: link_on_line_def Let_def calm_rules)

lemma calm_feed:
  assumes "calm s t" "\<And>u line. calm s u \<Longrightarrow> calm s (cb line u)" "\<And>u buf. calm s u \<Longrightarrow> calm s (put buf u)" "0 < cap"
  shows "calm s (feed_bytes get put cap cb bs t)"
  by (rule feed_keeps [where P = "calm s"]) (use assms in auto)

lemma calm_tcp [calm_rules]: "calm s t \<Longrightarrow> calm s (on_link_tcp_readable i inp t)"
  by (auto simp: on_link_tcp_readable_def feed_link_def RXBUF_CAP_def calm_rules intro!: calm_feed split: input.split)

lemma calm_writable:
  assumes "calm s t" "on_connect_writable i fd inp t = Some u"
  shows "calm s u"
proof (cases "inp = In_sockerr 0")
  case False
  then show ?thesis using assms by (auto simp: on_connect_writable_def Let_def calm_rules split: if_splits)
next
  case True
  then show ?thesis
    using assms
    by (auto simp: on_connect_writable_def Let_def split: bind_splits dest!: mint_Some intro!: calm_rules calm_rand)
qed

lemma calm_free [calm_rules]: "calm s t \<Longrightarrow> calm s (free_pending k b t)"
  by (simp add: free_pending_def Let_def calm_rules)

lemma calm_pending_timeout [calm_rules]: "calm s t \<Longrightarrow> calm s (pending_timeout_cb k t)"
  by (simp add: pending_timeout_cb_def calm_rules)

lemma calm_accept [calm_rules]: "calm s t \<Longrightarrow> calm s (accept_question k i v t)"
  by (simp add: accept_question_def Let_def calm_rules)

lemma calm_question [calm_rules]: "calm s t \<Longrightarrow> calm s (handle_question_complete k t)"
  by (auto simp: handle_question_complete_def Let_def calm_rules split: option.split)

lemma calm_pending_line [calm_rules]: "calm s t \<Longrightarrow> calm s (pending_on_line k line t)"
  by (simp add: pending_on_line_def Let_def calm_rules)

lemma calm_pending_readable [calm_rules]: "calm s t \<Longrightarrow> calm s (on_pending_readable k inp t)"
  by (auto simp: on_pending_readable_def feed_pending_def RXBUF_CAP_def calm_rules intro!: calm_feed split: input.split)

lemma calm_accept_connection [calm_rules]: "calm s t \<Longrightarrow> calm s (accept_connection t x)"
  by (auto simp: accept_connection_def case_prod_beta Let_def PENDING_TIMEOUT_S_def calm_rules split: option.split)

lemma calm_shared [calm_rules]:
  "calm s t \<Longrightarrow> calm s (on_listen_readable inp t)" "calm s t \<Longrightarrow> calm s (on_voice_readable fd inp t)"
  "calm s t \<Longrightarrow> calm s (on_trial_readable fd inp t)" "calm s t \<Longrightarrow> calm s (on_obp_readable idx inp t)"
  by (auto simp: on_listen_readable_def on_voice_readable_def on_trial_readable_def on_obp_readable_def Let_def
      calm_rules intro: calm_foldl split: input.split option.split)

lemma calm_reconcile_link [calm_rules]: "calm s t \<Longrightarrow> calm s (reconcile_link t i)"
  by (simp add: reconcile_link_def Let_def calm_rules)

lemma calm_muxes [calm_rules]: "calm s t \<Longrightarrow> calm s (cccc_mux_reconcile t)" "calm s t \<Longrightarrow> calm s (translator_tick t)"
  by (simp_all add: cccc_mux_reconcile_def translator_tick_def calm_foldl calm_rules)

lemma calm_fd: "run_fd_cb cb fd inp s = Some t \<Longrightarrow> 0 < c_keepalive_interval (s_cfg s) \<Longrightarrow> calm s t"
  by (cases cb) (auto simp: calm_rules calm_refl intro: calm_writable [OF calm_refl])

lemma calm_stop: "0 < c_keepalive_interval (s_cfg s) \<Longrightarrow> calm s (cccc_mux_stop s)"
proof -
  assume k: "0 < c_keepalive_interval (s_cfg s)"
  have fields: "calm s u \<Longrightarrow> calm s (u\<lparr>s_voice_fd := fd\<rparr>)" "calm s u \<Longrightarrow> calm s (u\<lparr>s_trial_fd := fd\<rparr>)"
    "calm s u \<Longrightarrow> calm s (u\<lparr>s_listen_fd := fd\<rparr>)" "calm s u \<Longrightarrow> calm s (close_shared fd u)"
    "calm s u \<Longrightarrow> calm s (stop_pending u k)" "calm s u \<Longrightarrow> calm s (stop_link u i)" for u fd k i
    by (simp_all add: close_shared_def stop_pending_def stop_link_def Let_def calm_rules) (simp_all add: calm_def)
  show ?thesis
    unfolding cccc_mux_stop_def Let_def by (intro fields calm_foldl calm_refl k)
qed

end
