(* ===== verification/Main_Props.thy ===== *)
theory Main_Props
  imports Calm Config_Use Link_Props
begin

text \<open>
  What the start establishes, what holds in every state the program reaches from there, and what a
  reload and the stop do in such a state; with a run of an example configuration for the instances.
\<close>

section \<open>Startup\<close>

lemma add_reader_inv:
  assumes "bridge_inv s" "cb \<in> {On_voice_readable, On_trial_readable, On_listen_readable}"
  shows "bridge_inv (on_loop (ev_add_fd fd cb) s)"
  by (rule bridge_inv_loop [OF assms(1) base_add_fd])
     (use assms in \<open>auto simp: bridge_inv_def links_inv_def\<close>)

lemma sockets_inv [simp]:
  "bridge_inv (s\<lparr>s_nsock := k, s_voice_fd := fd\<rparr>) = bridge_inv s"
  "bridge_inv (s\<lparr>s_nsock := k, s_trial_fd := fd\<rparr>) = bridge_inv s"
  "bridge_inv (s\<lparr>s_nsock := k, s_listen_fd := fd\<rparr>) = bridge_inv s"
proof -
  have "bridge_inv t \<longleftrightarrow> bridge_inv s"
    if "s_loop t = s_loop s" "s_links t = s_links s" "s_pending t = s_pending s" "s_runtime t = s_runtime s" "s_cfg t = s_cfg s" for t
    using bridge_inv_cong [of t s] bridge_inv_cong [of s t] that by auto
  from this [of "s\<lparr>s_nsock := k, s_voice_fd := fd\<rparr>"] this [of "s\<lparr>s_nsock := k, s_trial_fd := fd\<rparr>"]
    this [of "s\<lparr>s_nsock := k, s_listen_fd := fd\<rparr>"]
  show "bridge_inv (s\<lparr>s_nsock := k, s_voice_fd := fd\<rparr>) = bridge_inv s"
    "bridge_inv (s\<lparr>s_nsock := k, s_trial_fd := fd\<rparr>) = bridge_inv s"
    "bridge_inv (s\<lparr>s_nsock := k, s_listen_fd := fd\<rparr>) = bridge_inv s"
    by simp_all
qed

text \<open>The links that the start has not come to yet are as the startup left them.\<close>

lemma start_links:
  assumes "bridge_inv s" "k \<le> n_link (s_cfg s)" "\<And>i. s_links s i = zero_link"
  shows "let t = foldl start_link s [0..<k] in bridge_inv t \<and> s_cfg t = s_cfg s \<and>
     (\<forall>i \<ge> k. s_links t i = zero_link) \<and> (\<forall>i < k. follows_config t i)"
  using assms(2)
proof (induction k)
  case (Suc k)
  let ?s = "foldl start_link s [0..<k]"
  have IH: "bridge_inv ?s" "s_cfg ?s = s_cfg s" "\<And>i. k \<le> i \<Longrightarrow> s_links ?s i = zero_link" "\<And>i. i < k \<Longrightarrow> follows_config ?s i"
    using Suc by (simp_all add: Let_def)
  have l: "links_inv ?s" using IH(1) by (simp add: bridge_inv_def)
  have same: "on_link k f ?s = ?s" if "f (s_links ?s k) = s_links ?s k" for f
    using that by (simp add: on_link_def fun_upd_idem)
  have r: "start_link ?s k = reconcile_link ?s k"
    using IH(3) [of k] same [of "\<lambda>lk. lk\<lparr>lk_active := False\<rparr>"]
    by (auto simp: start_link_def reconcile_link_def zero_link_def Let_def)
  note r1 = reconcile_link_ok [OF l, of k, unfolded IH(2)]
  have "follows_config (start_link ?s k) i" if "i < Suc k" for i
    using that r1(3,5) r1(4) [of i] IH(2) IH(4) [of i] Suc.prems
    by (cases "i = k") (auto simp: follows_config_def r)
  moreover have "s_links (start_link ?s k) i = zero_link" if "Suc k \<le> i" for i
    using r1(4) [of i] IH(3) [of i] that Suc.prems by (simp add: r)
  moreover have "bridge_inv (start_link ?s k)"
    using r1(1,2) IH(1) Suc.prems by (simp add: r bridge_inv_def)
  ultimately show ?case using r1(3) Suc.prems by (simp add: Let_def r)
qed (simp add: assms)

lemma shared_sockets:
  assumes "bridge_inv s" "cccc_mux_start s = (True, t)" "\<And>i. s_links s i = zero_link"
  shows "bridge_inv t" "s_cfg t = s_cfg s" "\<forall>i < n_link (s_cfg s). follows_config t i"
proof -
  let ?fd = "\<lambda>k. s_sock s (s_nsock s + k)"
  define a where "a = on_loop (ev_add_fd (?fd 0) On_voice_readable) (s\<lparr>s_nsock := Suc (s_nsock s), s_voice_fd := ?fd 0\<rparr>)"
  define b where "b = on_loop (ev_add_fd (?fd 1) On_trial_readable) (a\<lparr>s_nsock := Suc (s_nsock a), s_trial_fd := ?fd 1\<rparr>)"
  define u where "u = on_loop (ev_add_fd (?fd 2) On_listen_readable) (b\<lparr>s_nsock := Suc (s_nsock b), s_listen_fd := ?fd 2\<rparr>)"
  have t: "t = foldl start_link u [0..<n_link (s_cfg u)]"
    using assms(2)
    by (auto simp: cccc_mux_start_def next_sock_def Let_def on_loop_def a_def b_def u_def numeral_2_eq_2 split: if_splits)
  have "bridge_inv a" unfolding a_def by (rule add_reader_inv) (simp_all add: assms(1))
  then have "bridge_inv b" unfolding b_def by (intro add_reader_inv) simp_all
  then have u: "bridge_inv u" unfolding u_def by (intro add_reader_inv) simp_all
  have z: "s_cfg u = s_cfg s" "\<And>i. s_links u i = zero_link" by (simp_all add: u_def b_def a_def assms(3))
  show "bridge_inv t" "s_cfg t = s_cfg s" "\<forall>i < n_link (s_cfg s). follows_config t i"
    using start_links [OF u order.refl z(2)] by (simp_all add: t z(1) Let_def)
qed

lemma obp_start_fields:
  assumes "obp_ok s" "\<And>i. \<not> s_obp_active s i"
  shows "let t = obp_mux_start s in obp_ok t \<and> s_cfg t = s_cfg s \<and> s_links t = s_links s"
proof -
  have "let t = foldl (\<lambda>s i. if o_enabled (peer_cfg s i) then bind_peer i s else s) s [0..<k]
    in obp_ok t \<and> s_cfg t = s_cfg s \<and> s_links t = s_links s \<and> (\<forall>i \<ge> k. \<not> s_obp_active t i)" for k
    using assms by (induction k) (auto simp: Let_def frame obp_ok_bind)
  then show ?thesis by (simp add: obp_mux_start_def Let_def)
qed

lemma calm_start_link:
  "calm s t \<Longrightarrow> calm s (start_link t i)"
  by (simp add: start_link_def Let_def calm_rules)

lemma started_calm:
  assumes "0 < c_keepalive_interval (s_cfg s)"
  shows "calm s (snd (cccc_mux_start s))"
proof -
  have c: "calm s u \<Longrightarrow> calm s (u\<lparr>s_nsock := k, s_voice_fd := fd\<rparr>)" "calm s u \<Longrightarrow> calm s (u\<lparr>s_nsock := k, s_trial_fd := fd\<rparr>)"
    "calm s u \<Longrightarrow> calm s (u\<lparr>s_nsock := k, s_listen_fd := fd\<rparr>)" for u k fd
    by (simp_all add: calm_def)
  show ?thesis
    using assms
    by (auto simp: cccc_mux_start_def next_sock_def Let_def
        intro!: calm_foldl calm_start_link calm_rules c calm_refl)
qed

lemma started_obp_ok:
  assumes "cccc_mux_start s = (ok, t)" "obp_ok s" "0 < c_keepalive_interval (s_cfg s)"
  shows "obp_ok t \<and> ev_running (s_loop t) = ev_running (s_loop s)"
  using started_calm [OF assms(3)] assms(1,2) by (simp add: calm_def obp_ok_def)

text \<open>The state in which the event loop starts.\<close>

lemma main_start_inv:
  assumes "main_start c sock rnd now wall = Running s" "0 < c_keepalive_interval c"
  shows "bridge_inv s \<and> obp_ok s \<and> s_cfg s = c \<and> (\<forall>i < n_link c. follows_config s i) \<and> ev_running (s_loop s)"
proof -
  define a where "a = (blank_sys c sock rnd)\<lparr>s_now := now, s_wall := wall\<rparr>"
  define b where "b = obp_mux_start a"
  obtain t where t: "cccc_mux_start b = (True, t)"
    and s: "s = on_loop (\<lambda>l. l\<lparr>ev_running := True\<rparr>) (snd (timer_after TICK_INTERVAL_S Tick_cb t))"
    using assms(1) by (auto simp: main_start_def Let_def a_def b_def split: prod.splits if_splits)
  have a: "bridge_inv a" "obp_ok a" "s_cfg a = c" "\<And>i. s_links a i = zero_link" "\<And>i. \<not> s_obp_active a i"
    by (simp_all add: a_def blank_inv) (simp_all add: blank_sys_def obp_ok_def)
  have b: "bridge_inv b" "obp_ok b" "s_cfg b = c" "\<And>i. s_links b i = zero_link"
    using obp_start_inv [OF a(1)] obp_start_fields [OF a(2,5)] a(3,4) by (simp_all add: b_def Let_def)
  note st = shared_sockets [OF b(1) t b(4), unfolded b(3)] and ok = started_obp_ok [OF t b(2), unfolded b(3), OF assms(2)]
  have "s_links s = s_links t" "s_cfg s = s_cfg t" "s_obp_fd s = s_obp_fd t" "s_obp_active s = s_obp_active t"
    by (simp_all add: s timer_after_loop) (simp_all add: timer_after_def case_prod_beta on_loop_def)
  moreover have "bridge_inv s" unfolding s by (intro stop_flag_inv tick_timer_inv st(1))
  ultimately show ?thesis using st ok by (auto simp: follows_config_def obp_ok_def s)
qed

section \<open>Reachable states\<close>

definition main_inv :: "config \<Rightarrow> sys \<Rightarrow> bool" where
  "main_inv c s \<longleftrightarrow> bridge_inv s \<and> obp_ok s \<and> without_toggles (s_cfg s) = without_toggles c"

lemma same_shape:
  assumes "without_toggles c = without_toggles d"
  shows "c_keepalive_interval c = c_keepalive_interval d" "n_link c = n_link d" "n_openbridge c = n_openbridge d"
proof -
  have "length (c_link (without_toggles c)) = length (c_link (without_toggles d))"
    "length (c_openbridge (without_toggles c)) = length (c_openbridge (without_toggles d))"
    "c_keepalive_interval (without_toggles c) = c_keepalive_interval (without_toggles d)"
    by (simp_all add: assms)
  then show "c_keepalive_interval c = c_keepalive_interval d" "n_link c = n_link d" "n_openbridge c = n_openbridge d"
    by (simp_all add: without_toggles_def n_link_def n_openbridge_def)
qed

lemma calm_outer: "calm s t \<Longrightarrow> obp_ok s \<Longrightarrow> obp_ok t \<and> s_cfg t = s_cfg s"
  by (simp add: calm_def obp_ok_def)

lemma reload_outer:
  assumes "obp_ok s" "0 < c_keepalive_interval (s_cfg s)"
  shows "obp_ok (do_reload file s) \<and> without_toggles (s_cfg (do_reload file s)) = without_toggles (s_cfg s)"
proof (cases "config_reload_toggles file (s_cfg s)")
  case (Inr c)
  then have w: "without_toggles c = without_toggles (s_cfg s)"
    using without_toggles_apply by (auto simp: config_reload_toggles_def split: sum.splits)
  let ?u = "s\<lparr>s_cfg := c\<rparr>"
  have "calm ?u (cccc_mux_reconcile ?u)"
    using assms(2) same_shape(1) [OF w] by (intro calm_rules calm_refl) simp
  then have "obp_ok (cccc_mux_reconcile ?u)" "s_cfg (cccc_mux_reconcile ?u) = c"
    using assms(1) by (auto simp: calm_def obp_ok_def)
  then show ?thesis
    using reconcile_steps [of "cccc_mux_reconcile ?u"] w by (simp add: do_reload_def Inr obp_mux_reconcile_def Let_def)
qed (simp add: do_reload_def assms)

lemma tick_outer:
  assumes "obp_ok s" "0 < c_keepalive_interval (s_cfg s)"
  shows "obp_ok (tick_cb file s) \<and> without_toggles (s_cfg (tick_cb file s)) = without_toggles (s_cfg s)"
proof -
  define u where "u = translator_tick s"
  have "calm s u" unfolding u_def by (intro calm_rules calm_refl assms)
  then have u: "obp_ok u" "s_cfg u = s_cfg s" using assms(1) by (auto simp: calm_def obp_ok_def)
  let ?v = "u\<lparr>s_reload_requested := False\<rparr>"
  have "obp_ok (do_reload file ?v) \<and> without_toggles (s_cfg (do_reload file ?v)) = without_toggles (s_cfg s)"
    using reload_outer [where s = ?v] u assms(2) by (simp add: obp_ok_def)
  then show ?thesis
    using u by (simp add: tick_cb_def u_def [symmetric] Let_def obp_ok_def timer_after_def case_prod_beta on_loop_def)
qed

lemma timer_outer:
  assumes "obp_ok s" "0 < c_keepalive_interval (s_cfg s)"
  shows "obp_ok (run_timer_cb file cb (fired h s)) \<and>
    without_toggles (s_cfg (run_timer_cb file cb (fired h s))) = without_toggles (s_cfg s)"
proof (cases "cb = Tick_cb")
  case True
  have "calm s (fired h s)" by (intro calm_rules calm_refl assms)
  then have "obp_ok (fired h s)" "s_cfg (fired h s) = s_cfg s" using assms(1) by (auto simp: calm_def obp_ok_def)
  then show ?thesis using tick_outer [where s = "fired h s"] assms(2) True by simp
next
  case False
  then have "calm s (run_timer_cb file cb (fired h s))" by (cases cb) (simp_all add: calm_rules calm_refl assms)
  then show ?thesis using assms(1) by (auto simp: calm_def obp_ok_def)
qed

lemma step_main_inv:
  assumes "bridge_step s t" "main_inv c s" "0 < c_keepalive_interval c"
  shows "main_inv c t"
proof -
  have o: "obp_ok s" "without_toggles (s_cfg s) = without_toggles c" "bridge_inv s" using assms(2) by (simp_all add: main_inv_def)
  have k: "0 < c_keepalive_interval (s_cfg s)" using assms(3) same_shape(1) [OF o(2)] by simp
  have i: "bridge_inv t" by (rule step_inv [OF assms(1) o(3)])
  have "obp_ok t \<and> without_toggles (s_cfg t) = without_toggles (s_cfg s)"
    using assms(1)
  proof cases
    case (Timer u f)
    then show ?thesis using timer_outer [OF o(1) k] by simp
  next
    case (Readable fd cb inp)
    then show ?thesis using calm_fd [OF _ k] o(1) by (auto simp: calm_def obp_ok_def)
  next
    case (Writable fd cb inp)
    then show ?thesis using calm_fd [OF _ k] o(1) by (auto simp: calm_def obp_ok_def)
  qed (use o(1) in \<open>simp_all add: obp_ok_def on_loop_def on_sighup_def on_sigterm_def\<close>)
  then show ?thesis using i o(2) by (simp add: main_inv_def)
qed

lemma reachable_main_inv:
  assumes "reachable c s" "0 < c_keepalive_interval c"
  shows "main_inv c s"
  using assms(1)
proof induction
  case (Start sock rnd now wall s)
  then show ?case using main_start_inv [OF _ assms(2)] by (auto simp: main_inv_def)
next
  case (Step s t)
  then show ?case using step_main_inv assms(2) by blast
qed

section \<open>A program that starts\<close>

lemma obp_start_sock: "s_sock (obp_mux_start s) = s_sock s"
proof -
  have "s_sock (foldl (\<lambda>s i. if o_enabled (peer_cfg s i) then bind_peer i s else s) s is) = s_sock s" for "is"
    by (induction "is" arbitrary: s) (simp_all add: bind_peer_def next_sock_def on_loop_def Let_def)
  then show ?thesis by (simp add: obp_mux_start_def)
qed

lemma main_start_runs:
  assumes "\<And>k. 0 \<le> sock k"
  shows "\<exists>s. main_start c sock rnd now wall = Running s"
proof -
  have "fst (cccc_mux_start a)" if "s_sock a = sock" for a
    using assms that by (simp add: cccc_mux_start_def next_sock_def Let_def on_loop_def not_less [symmetric])
  from this [of "obp_mux_start ((blank_sys c sock rnd)\<lparr>s_now := now, s_wall := wall\<rparr>)"]
  show ?thesis by (simp add: main_start_def obp_start_sock case_prod_beta Let_def) (simp add: blank_sys_def)
qed

lemma demo_config_valid: "valid_config demo_config"
  by (simp add: valid_config_def config_fits_def fits_def demo_config_def demo_peer_def demo_link_def
      n_link_def n_openbridge_def CFG_MAX_LINKS_def CFG_MAX_OPENBRIDGE_def peer_ok_def link_cfg_ok_def port_ok_def
      ip_ok_def load_text same_route_def same_inbound_def no_pair_two)

lemma demo_running:
  obtains s where "reachable demo_config s" "main_start demo_config (\<lambda>k. 10 + int k) (\<lambda>k. of_nat k) 0 (0, 0) = Running s"
  using main_start_runs [of "\<lambda>k. 10 + int k" demo_config "\<lambda>k. of_nat k" 0 "(0, 0)"] reachable.Start by auto

text \<open>A run for concrete instances: the outbound link of the example connects, and its peer answers.\<close>

lemma demo_started:
  obtains s where "reachable demo_config s" "s_cfg s = demo_config" "writers s 14 = Some (On_connect_writable 0)"
    "lk_state (s_links s 0) = LST_CONNECTING" "lk_fd (s_links s 0) = 14" "lk_hslines (s_links s 0) = []"
    "lk_rxbuf (s_links s 0) = []" "\<not> lk_has_sync_source (s_links s 0)" "\<not> lk_has_sync_source (s_links s (Suc 0))"
    "length (ev_fds (s_loop s)) = 4" "s_obp_active s 0" "readers s 10 = Some (On_obp_readable 0)"
proof -
  have n: "n_link demo_config = 2" "n_openbridge demo_config = 1"
    by (simp_all add: demo_config_def n_link_def n_openbridge_def)
  have p: "o_enabled (c_openbridge demo_config ! 0)" "l_cc_role (c_link demo_config ! 0) = CC_ROLE_OUTBOUND"
    "l_enabled (c_link demo_config ! 0)" "l_cc_role (c_link demo_config ! Suc 0) = CC_ROLE_INBOUND"
    "l_enabled (c_link demo_config ! Suc 0)"
    by (simp_all add: demo_config_def demo_peer_def demo_link_def)
  have u: "[0..<1] = [0 :: nat]" "[0..<2] = [0, Suc 0 :: nat]" by (simp_all add: upt_rec)
  obtain s where s: "main_start demo_config (\<lambda>k. 10 + int k) (\<lambda>k. of_nat k) 0 (0, 0) = Running s" "reachable demo_config s"
    by (rule demo_running)
  show thesis
    by (rule that [OF s(2)])
       (use s(1) in \<open>auto simp: main_start_def blank_sys_def zero_link_def obp_mux_start_def n u p cccc_mux_start_def
         Let_def next_sock_def start_link_def start_outbound_connect_def bind_peer_def case_prod_beta ev_add_fd_def
         ev_add_fd_write_def timer_after_def ev_timer_after_def ev_timer_at_def on_link_def on_loop_def ev_new_def
         tab_register_def MAX_FDS_def\<close>)
qed

lemma demo_asked:
  obtains s where "reachable demo_config s" "lk_state (s_links s 0) = LST_HANDSHAKING" "lk_hslines (s_links s 0) = []"
    "lk_rxbuf (s_links s 0) = []" "lk_fd (s_links s 0) = 14" "readers s 14 = Some (On_link_tcp_readable 0)"
    "lk_has_sync_source (s_links s 0)"
proof (rule demo_started)
  fix s assume s: "reachable demo_config s" "s_cfg s = demo_config" "writers s 14 = Some (On_connect_writable 0)"
    "lk_state (s_links s 0) = LST_CONNECTING" "lk_fd (s_links s 0) = 14" "lk_hslines (s_links s 0) = []"
    "lk_rxbuf (s_links s 0) = []" "\<not> lk_has_sync_source (s_links s 0)" "\<not> lk_has_sync_source (s_links s (Suc 0))"
    "length (ev_fds (s_loop s)) = 4"
  let ?u = "on_link 0 (\<lambda>l. l\<lparr>lk_state := LST_HANDSHAKING\<rparr>) (on_loop (ev_del_fd_write 14) s)"
  have "find_link_by_ssrc (?u\<lparr>s_nrand := k\<rparr>) v = None" for v k
    using s(2,8,9) by (simp add: find_ssrc_None n_link_def demo_config_def less_Suc_eq numeral_2_eq_2)
  then have m: "mint_sync_source ?u = Some (s_rand s (s_nrand s), ?u\<lparr>s_nrand := Suc (s_nrand s)\<rparr>)"
    by (subst mint_sync_source.simps) (simp add: next_rand_def on_link_def on_loop_def)
  obtain t where t: "on_connect_writable 0 14 (In_sockerr 0) s = Some t"
    and r: "ev_fds (s_loop t) = tab_register (ev_fds (s_loop s)) 14 (On_link_tcp_readable 0)" "lk_fd (s_links t 0) = 14"
    using m s(5) by (auto simp: on_connect_writable_def Let_def tcp_send_def ev_add_fd_def ev_del_fd_write_def emit_def on_loop_def on_link_def)
  have "bridge_step s t" by (rule bridge_step.Writable [OF _ s(3)]) (use t in simp_all)
  then have "reachable demo_config t" by (rule reachable.Step [OF s(1)])
  moreover have "readers t 14 = Some (On_link_tcp_readable 0)" using s(10) by (simp add: r map_of_register MAX_FDS_def)
  ultimately show thesis using that connect_sends_question [OF t] s(6,7) r(2) by metis
qed

lemma demo_up_run:
  obtains s where "reachable demo_config s" "lk_state (s_links s 0) = LST_UP" "lk_has_sync_source (s_links s 0)"
proof (rule demo_asked)
  fix s assume s: "reachable demo_config s" "lk_state (s_links s 0) = LST_HANDSHAKING" "lk_hslines (s_links s 0) = []"
    "lk_rxbuf (s_links s 0) = []" "lk_fd (s_links s 0) = 14" "readers s 14 = Some (On_link_tcp_readable 0)"
    "lk_has_sync_source (s_links s 0)"
  let ?ls = "answer_fields (0, 0) ''S'' ''O'' ''V''"
  let ?t = "on_link_tcp_readable 0 (In_bytes (wire ?ls)) s"
  have "\<forall>l \<in> set ?ls. line_fits RXBUF_CAP l \<and> length l < 256" by (rule answer_fields_fit) (simp_all add: line_text_def)
  moreover have "length (wire ?ls) \<le> 1024"
    using length_build_answer [of "(0, 0)" "''S''" "''O''" "''V''"] fields_wire(2) [of "(0, 0)" "''S''" "''O''" "''V''", symmetric]
    by simp
  ultimately have "answered s 0 ?ls ?t"
    using link_reads_lines [of "[wire ?ls]" ?ls s 0] answer_lines [OF s(2,3), of ?ls] s(4)
    by (simp add: cut_of_def link_reads_def answer_says)
  then have "lk_state (s_links ?t 0) = LST_UP" "lk_has_sync_source (s_links ?t 0)"
    using s(7) by (simp_all add: answered_def answer_says)
  moreover have "bridge_step s ?t" by (rule bridge_step.Readable [OF _ s(6)]) simp_all
  then have "reachable demo_config ?t" by (rule reachable.Step [OF s(1)])
  ultimately show thesis using that by blast
qed

section \<open>Properties of the running program\<close>

lemma valid_interval: "valid_config c \<Longrightarrow> 0 < c_keepalive_interval c"
  by (simp add: valid_config_def)

lemma shape_role:
  assumes "without_toggles c = without_toggles d" "i < n_link c"
  shows "l_cc_role (c_link c ! i) = l_cc_role (c_link d ! i)"
proof -
  have "c_link (without_toggles c) ! i = c_link (without_toggles d) ! i" by (simp add: assms(1))
  moreover have "i < n_link d" using assms(2) same_shape(2) [OF assms(1)] by simp
  ultimately have "l_cc_role ((c_link c ! i)\<lparr>l_enabled := False, l_cross_connect_active := False\<rparr>) =
      l_cc_role ((c_link d ! i)\<lparr>l_enabled := False, l_cross_connect_active := False\<rparr>)"
    using assms(2) by (simp add: without_toggles_def n_link_def)
  then show ?thesis by simp
qed

lemma reachable_parts:
  assumes "valid_config c" "reachable c s"
  shows "base_ok s" "link_ok s i" "ssrc_unique s" "runtime_ok (s_runtime s i)" "pending_ok (s_pending s k)" "obp_ok s"
    "without_toggles (s_cfg s) = without_toggles c" "n_link (s_cfg s) = n_link c" "bridge_inv s"
  using reachable_main_inv [OF assms(2) valid_interval [OF assms(1)]] same_shape(2) [of "s_cfg s" c]
  by (auto simp: main_inv_def bridge_inv_def links_inv_def)

text \<open>
  C3: whatever happens to the program, no link loses its timer and none has two.  A link has exactly
  one keepalive timer running while it is up and none otherwise, so an up link is always watched; an
  outbound link in service that is down has exactly one reconnect timer running, so it is always
  tried again; no other link has one.
\<close>

theorem every_link_is_timed:
  assumes "valid_config c" "reachable c s" "i < n_link c"
  shows "(if lk_state (s_links s i) = LST_UP then \<exists>h. armed s (Keepalive_cb i) = {h} else armed s (Keepalive_cb i) = {}) \<and>
    (if lk_state (s_links s i) = LST_DOWN \<and> lk_active (s_links s i) \<and> l_cc_role (c_link c ! i) = CC_ROLE_OUTBOUND
     then \<exists>h. armed s (Reconnect_cb i) = {h} else armed s (Reconnect_cb i) = {})"
proof -
  note r = reachable_parts [OF assms(1,2)]
  have role: "l_cc_role (link_cfg s i) = l_cc_role (c_link c ! i)" using shape_role [OF r(7)] r(8) assms(3) by simp
  have set: "armed s (Keepalive_cb i) = set_option (lk_keepalive_timer (s_links s i))"
    "armed s (Reconnect_cb i) = set_option (lk_reconnect_timer (s_links s i))"
    using r(1) by (simp_all add: base_ok_def timers_match_def)
  have "lk_keepalive_timer (s_links s i) \<noteq> None \<longleftrightarrow> lk_state (s_links s i) = LST_UP"
    "lk_reconnect_timer (s_links s i) \<noteq> None \<longleftrightarrow> lk_state (s_links s i) = LST_DOWN \<and> lk_active (s_links s i) \<and>
      l_cc_role (c_link c ! i) = CC_ROLE_OUTBOUND"
    using r(2) [of i] role by (simp_all add: link_ok_def Let_def)
  then show ?thesis unfolding set by (cases "lk_keepalive_timer (s_links s i)"; cases "lk_reconnect_timer (s_links s i)") auto
qed

lemma every_link_is_timed_witness:
  "\<exists>s h. reachable demo_config s \<and> lk_state (s_links s 0) = LST_UP \<and> armed s (Keepalive_cb 0) = {h} \<and>
     armed s (Reconnect_cb 0) = {}"
proof -
  obtain s where s: "reachable demo_config s" "lk_state (s_links s 0) = LST_UP" by (rule demo_up_run)
  have "0 < n_link demo_config" by (simp add: n_link_def demo_config_def)
  then show ?thesis using every_link_is_timed [OF demo_config_valid s(1), of 0] s by auto
qed

text \<open>
  C20: an SSRC on the voice socket names at most one link.  The number of every link that has one
  finds that link, so a keepalive or a voice frame is never taken for another link's.
\<close>

theorem ssrc_finds_its_link:
  assumes "valid_config c" "reachable c s"
  shows "find_link_by_ssrc s v = Some i \<longleftrightarrow> lk_has_sync_source (s_links s i) \<and> lk_sync_source (s_links s i) = v"
proof
  assume own: "lk_has_sync_source (s_links s i) \<and> lk_sync_source (s_links s i) = v"
  note r = reachable_parts [OF assms(1,2)]
  have i: "i < n_link (s_cfg s)" using r(2) [of i] own by (auto simp: link_ok_def Let_def)
  show "find_link_by_ssrc s v = Some i"
    unfolding find_link_by_ssrc_def by (rule find_only) (use i r(3) own in \<open>auto simp: ssrc_unique_def\<close>)
qed (auto dest: find_ssrc_Some)

lemma ssrc_finds_its_link_witness:
  "\<exists>s. reachable demo_config s \<and> find_link_by_ssrc s (lk_sync_source (s_links s 0)) = Some 0"
proof -
  obtain s where s: "reachable demo_config s" "lk_has_sync_source (s_links s 0)" by (rule demo_up_run)
  then show ?thesis using ssrc_finds_its_link [OF demo_config_valid s(1)] by blast
qed

text \<open>
  C6: no callback runs for an owner that it does not fit.  A descriptor that a link's reader is
  registered for is the descriptor of that link, and the link is in its handshake or up; one whose
  connect is awaited belongs to a link that is connecting; a reader of an unidentified connection
  belongs to a slot in use.  A call from the CC-CC side exists on an up link only.
\<close>

theorem callbacks_fit_their_owner:
  assumes "valid_config c" "reachable c s" "0 \<le> fd"
  shows "(readers s fd = Some (On_link_tcp_readable i) \<longrightarrow>
      lk_fd (s_links s i) = fd \<and> lk_state (s_links s i) \<in> {LST_HANDSHAKING, LST_UP}) \<and>
    (writers s fd = Some (On_connect_writable i) \<longrightarrow> lk_fd (s_links s i) = fd \<and> lk_state (s_links s i) = LST_CONNECTING) \<and>
    (readers s fd = Some (On_pending_readable k) \<longrightarrow> p_fd (s_pending s k) = fd \<and> p_in_use (s_pending s k)) \<and>
    (call_from CALL_ORIGIN_CC (s_runtime s i) \<longrightarrow> lk_state (s_links s i) = LST_UP)"
proof -
  note r = reachable_parts [OF assms(1,2)]
  have "readers s fd = Some cb \<Longrightarrow> rd_ok s fd cb" "writers s fd = Some cb \<Longrightarrow> wr_ok s fd cb" for cb
    using r(1) assms(3) by (simp_all add: base_ok_def entries_ok_def)
  from this(1) [of "On_link_tcp_readable i"] this(2) [of "On_connect_writable i"] this(1) [of "On_pending_readable k"]
  show ?thesis using r(2) [of i] by (simp add: link_ok_def Let_def)
qed

lemma callbacks_fit_their_owner_witness:
  "\<exists>s. reachable demo_config s \<and> readers s 14 = Some (On_link_tcp_readable 0) \<and> lk_fd (s_links s 0) = 14 \<and>
     lk_state (s_links s 0) \<in> {LST_HANDSHAKING, LST_UP}"
proof -
  obtain s where s: "reachable demo_config s" "readers s 14 = Some (On_link_tcp_readable 0)" by (rule demo_asked)
  then show ?thesis using callbacks_fit_their_owner [OF demo_config_valid s(1), of 14 0] by auto
qed

section \<open>Reload and stop\<close>

text \<open>
  C13: a reload of a file that loads brings everything in line with its toggles.  Afterwards each
  link is in service exactly when its entry is enabled, a disabled link is down, a peer has a
  socket only if it is enabled, the toggles are those of the file and nothing else of the
  configuration has changed; the invariant of the program still holds.
\<close>

theorem reload_takes_effect:
  assumes "valid_config c" "reachable c s" "config_load file = Inr fresh"
  defines "t \<equiv> do_reload file s"
  shows "main_inv c t \<and> toggles_from fresh (s_cfg s) (s_cfg t) \<and>
    (\<forall>i < n_link c. lk_active (s_links t i) = l_enabled (link_cfg t i) \<and>
       (\<not> l_enabled (link_cfg t i) \<longrightarrow> lk_state (s_links t i) = LST_DOWN)) \<and>
    (\<forall>i < n_openbridge c. s_obp_active t i \<longrightarrow> o_enabled (peer_cfg t i))"
proof -
  note r = reachable_parts [OF assms(1,2)]
  have k: "0 < c_keepalive_interval (s_cfg s)" using same_shape(1) [OF r(7)] valid_interval [OF assms(1)] by simp
  define d where "d = apply_toggles fresh (s_cfg s)"
  define u where "u = cccc_mux_reconcile (s\<lparr>s_cfg := d\<rparr>)"
  have t: "t = obp_mux_reconcile u" by (simp add: t_def do_reload_def config_reload_toggles_def assms(3) d_def u_def)
  have sh: "without_toggles d = without_toggles c" by (simp add: d_def without_toggles_apply r(7))
  have b: "bridge_inv (s\<lparr>s_cfg := d\<rparr>)" by (rule bridge_inv_cfg [OF r(9)]) (simp add: d_def same_roles_toggles)
  have "calm (s\<lparr>s_cfg := d\<rparr>) u"
    unfolding u_def by (intro calm_rules calm_refl) (use k in \<open>simp add: d_def\<close>)
  then have u: "obp_ok u" "s_cfg u = d" using r(6) by (auto simp: calm_def obp_ok_def)
  have f: "\<forall>i < n_link c. follows_config u i"
    using cccc_reconcile_ok(3) [OF b] same_shape(2) [OF sh] by (simp add: u_def)
  have ot: "s_cfg t = d" "obp_ok t" "\<forall>i < n_openbridge d. reconciled u i t"
    using reconcile_steps [OF u(1), of "n_openbridge d"] u(2) by (simp_all add: t obp_mux_reconcile_def Let_def)
  have "s_links (foldl obp_reconcile_peer w is) = s_links w" for w "is"
    by (induction "is" arbitrary: w) (simp_all add: obp_reconcile_peer_def Let_def frame)
  then have "s_links t = s_links u" by (simp add: t obp_mux_reconcile_def)
  moreover have "bridge_inv t" using reload_inv [OF r(9)] by (simp add: t_def)
  moreover have "toggles_from fresh (s_cfg s) d"
    unfolding d_def by (rule toggles_from_apply [OF valid_config_loaded [OF assms(3)]])
  ultimately show ?thesis
    using ot f sh u(2) same_shape(3) [OF sh] by (auto simp: main_inv_def follows_config_def reconciled_def)
qed

lemma reload_takes_effect_witness:
  "\<exists>s. reachable demo_config s \<and> main_inv demo_config (do_reload (Some (file_of demo_lines)) s)"
proof -
  obtain s where s: "reachable demo_config s" by (rule demo_running)
  obtain d where "config_load (Some (file_of demo_lines)) = Inr d" by (rule demo_valid)
  then show ?thesis using reload_takes_effect [OF demo_config_valid s] s by blast
qed

text \<open>Stopping: each group of resources in the order of the code.\<close>

definition retired :: "sys \<Rightarrow> nat \<Rightarrow> bool" where
  "retired s i \<longleftrightarrow> lk_state (s_links s i) = LST_DOWN \<and> \<not> lk_active (s_links s i)"

lemma stop_links_ok:
  assumes "bridge_inv s"
  shows "let t = foldl stop_link s [0..<k] in bridge_inv t \<and> s_cfg t = s_cfg s \<and> (\<forall>i < k. retired t i)"
proof (induction k)
  case (Suc k)
  let ?s = "foldl stop_link s [0..<k]"
  have IH: "bridge_inv ?s" "s_cfg ?s = s_cfg s" "\<And>i. i < k \<Longrightarrow> retired ?s i" using Suc by (simp_all add: Let_def)
  then have l: "links_inv ?s" by (simp add: bridge_inv_def)
  note r = retire_inv [OF l]
  have "retired (stop_link ?s k) i" if "i < Suc k" for i
    using that r(5,6) [of k] r(4) [where j = i and i = k] IH(3) [of i] by (cases "i = k") (auto simp: retired_def)
  then show ?case using r(1-3) [of k] IH(1,2) by (simp add: Let_def bridge_inv_def)
qed (simp add: assms)

lemma stop_pendings_ok:
  assumes "bridge_inv s"
  shows "let t = foldl stop_pending s [0..<k] in bridge_inv t \<and> s_links t = s_links s \<and> s_cfg t = s_cfg s \<and>
    (\<forall>j < k. \<not> p_in_use (s_pending t j))"
proof (induction k)
  case (Suc k)
  then show ?case
    by (auto simp: Let_def stop_pending_def free_pending_bridge free_pending_fields less_Suc_eq)
qed (simp add: assms)

lemma close_shared_inv:
  assumes "bridge_inv s"
  shows "bridge_inv (close_shared fd s)" "s_links (close_shared fd s) = s_links s" "s_pending (close_shared fd s) = s_pending s"
    "s_cfg (close_shared fd s) = s_cfg s" "s_voice_fd (close_shared fd s) = s_voice_fd s"
    "s_trial_fd (close_shared fd s) = s_trial_fd s"
proof -
  have b: "base_ok s" using assms by (simp add: bridge_inv_def links_inv_def)
  have "base_ok (emit (Close fd) (on_loop (ev_del_fd fd) s)) = base_ok (on_loop (ev_del_fd fd) s)"
    by (rule base_cong) simp_all
  then show "bridge_inv (close_shared fd s)"
    by (intro bridge_inv_loop [OF assms]) (use b base_del_fd(1) [OF b] in \<open>simp_all add: close_shared_def emit_def on_loop_def\<close>)
qed (simp_all add: close_shared_def emit_def on_loop_def)

lemma socket_fields_inv [simp]:
  "bridge_inv (s\<lparr>s_voice_fd := v\<rparr>) = bridge_inv s" "bridge_inv (s\<lparr>s_trial_fd := w\<rparr>) = bridge_inv s"
  "bridge_inv (s\<lparr>s_listen_fd := x\<rparr>) = bridge_inv s"
  using sockets_inv(1) [where s = s and k = "s_nsock s" and fd = v] sockets_inv(2) [where s = s and k = "s_nsock s" and fd = w]
    sockets_inv(3) [where s = s and k = "s_nsock s" and fd = x]
  by simp_all

lemma obp_stop_ok:
  assumes "bridge_inv s" "obp_ok s"
  shows "let t = foldl (\<lambda>s i. if s_obp_active s i then unbind_peer i s else s) s [0..<k] in
    bridge_inv t \<and> obp_ok t \<and> s_links t = s_links s \<and> s_pending t = s_pending s \<and> s_cfg t = s_cfg s \<and>
    (\<forall>i < k. \<not> s_obp_active t i)"
proof (induction k)
  case (Suc k)
  have "s_pending (unbind_peer i u) = s_pending u" for i u
    by (simp add: unbind_peer_def Let_def emit_def on_loop_def)
  then show ?case
    using Suc by (auto simp: Let_def unbind_peer_inv obp_ok_unbind frame less_Suc_eq)
qed (simp add: assms)

lemma cccc_stop_ok:
  assumes "bridge_inv s"
  shows "let t = cccc_mux_stop s in bridge_inv t \<and> s_cfg t = s_cfg s \<and> (\<forall>i < n_link (s_cfg s). retired t i) \<and>
    (\<forall>k < MAX_PENDING. \<not> p_in_use (s_pending t k)) \<and> s_voice_fd t < 0 \<and> s_trial_fd t < 0 \<and> s_listen_fd t < 0"
proof -
  define a where "a = foldl stop_link s [0..<n_link (s_cfg s)]"
  define b where "b = foldl stop_pending a [0..<MAX_PENDING]"
  define d where "d = (close_shared (s_voice_fd b) b)\<lparr>s_voice_fd := (if s_voice_fd b \<ge> 0 then - 1 else s_voice_fd b)\<rparr>"
  define e where "e = (close_shared (s_trial_fd d) d)\<lparr>s_trial_fd := (if s_trial_fd d \<ge> 0 then - 1 else s_trial_fd d)\<rparr>"
  have t: "cccc_mux_stop s = (close_shared (s_listen_fd e) e)\<lparr>s_listen_fd := (if s_listen_fd e \<ge> 0 then - 1 else s_listen_fd e)\<rparr>"
    by (simp add: cccc_mux_stop_def Let_def a_def b_def d_def e_def)
  have a: "bridge_inv a" "s_cfg a = s_cfg s" "\<forall>i < n_link (s_cfg s). retired a i"
    using stop_links_ok [OF assms, of "n_link (s_cfg s)"] by (simp_all add: a_def Let_def)
  have b: "bridge_inv b" "s_links b = s_links a" "s_cfg b = s_cfg s" "\<forall>k < MAX_PENDING. \<not> p_in_use (s_pending b k)"
    using stop_pendings_ok [OF a(1), of MAX_PENDING] a(2) by (simp_all add: b_def Let_def)
  have d: "bridge_inv d" "s_links d = s_links a" "s_cfg d = s_cfg s" "s_pending d = s_pending b" "s_voice_fd d < 0"
    using close_shared_inv [OF b(1), of "s_voice_fd b"] b by (simp_all add: d_def)
  have e: "bridge_inv e" "s_links e = s_links a" "s_cfg e = s_cfg s" "s_pending e = s_pending b" "s_voice_fd e < 0"
    "s_trial_fd e < 0"
    using close_shared_inv [OF d(1), of "s_trial_fd d"] d by (simp_all add: e_def)
  show ?thesis
    using close_shared_inv [OF e(1), of "s_listen_fd e"] e b(4) a(3) by (simp add: t Let_def retired_def)
qed

lemma stop_releases:
  assumes "valid_config c" "reachable c s"
  defines "t \<equiv> main_stop s"
  shows "(\<forall>i < n_link c. lk_state (s_links t i) = LST_DOWN \<and> \<not> lk_active (s_links t i) \<and>
      armed t (Keepalive_cb i) = {} \<and> armed t (Reconnect_cb i) = {} \<and> \<not> call_from CALL_ORIGIN_CC (s_runtime t i)) \<and>
    (\<forall>k < MAX_PENDING. \<not> p_in_use (s_pending t k) \<and> armed t (Pending_timeout_cb k) = {}) \<and>
    (\<forall>i < n_openbridge c. s_obp_fd t i < 0) \<and> s_voice_fd t < 0 \<and> s_trial_fd t < 0 \<and> s_listen_fd t < 0 \<and>
    s_cfg t = s_cfg s"
proof -
  note r = reachable_parts [OF assms(1,2)]
  define u where "u = cccc_mux_stop s"
  have u: "bridge_inv u" "s_cfg u = s_cfg s" "\<forall>i < n_link c. retired u i" "\<forall>k < MAX_PENDING. \<not> p_in_use (s_pending u k)"
    "s_voice_fd u < 0" "s_trial_fd u < 0" "s_listen_fd u < 0"
    using cccc_stop_ok [OF r(9)] r(8) by (simp_all add: u_def Let_def)
  have ob: "s_obp_fd u = s_obp_fd s" "s_obp_active u = s_obp_active s"
    using calm_stop [of s] same_shape(1) [OF r(7)] valid_interval [OF assms(1)] by (simp_all add: u_def calm_def)
  have tt: "t = foldl (\<lambda>s i. if s_obp_active s i then unbind_peer i s else s) u [0..<n_openbridge (s_cfg u)]"
    by (simp add: t_def main_stop_def u_def obp_mux_stop_def)
  have n: "n_openbridge (s_cfg u) = n_openbridge c" using same_shape(3) [OF r(7)] u(2) by simp
  have oku: "obp_ok u" using r(6) ob by (simp add: obp_ok_def)
  have t: "bridge_inv t" "obp_ok t" "s_links t = s_links u" "s_pending t = s_pending u" "s_cfg t = s_cfg u"
    "\<forall>i < n_openbridge c. \<not> s_obp_active t i"
    using obp_stop_ok [OF u(1) oku, of "n_openbridge c"] by (simp_all add: tt n Let_def)
  have fds: "s_voice_fd t = s_voice_fd u" "s_trial_fd t = s_trial_fd u" "s_listen_fd t = s_listen_fd u"
  proof -
    have "s_voice_fd (foldl f w is) = s_voice_fd w \<and> s_trial_fd (foldl f w is) = s_trial_fd w \<and> s_listen_fd (foldl f w is) = s_listen_fd w"
      if "f = (\<lambda>s i. if s_obp_active s i then unbind_peer i s else s)" for f w "is"
      unfolding that by (induction "is" arbitrary: w) (simp_all add: unbind_peer_def Let_def emit_def on_loop_def)
    then show "s_voice_fd t = s_voice_fd u" "s_trial_fd t = s_trial_fd u" "s_listen_fd t = s_listen_fd u"
      unfolding tt by blast+
  qed
  have inv: "link_ok t i" "pending_ok (s_pending t k)" "armed t (Keepalive_cb i) = set_option (lk_keepalive_timer (s_links t i))"
    "armed t (Reconnect_cb i) = set_option (lk_reconnect_timer (s_links t i))"
    "armed t (Pending_timeout_cb k) = set_option (p_timeout_timer (s_pending t k))" for i k
    using t(1) by (simp_all add: bridge_inv_def links_inv_def base_ok_def timers_match_def)
  have "retired t i \<Longrightarrow> lk_keepalive_timer (s_links t i) = None \<and> lk_reconnect_timer (s_links t i) = None \<and>
      \<not> call_from CALL_ORIGIN_CC (s_runtime t i)" for i
    using inv(1) [of i] by (auto simp: retired_def link_ok_def Let_def)
  moreover have "\<not> p_in_use (s_pending t k) \<Longrightarrow> p_timeout_timer (s_pending t k) = None" for k
    using inv(2) [of k] by (simp add: pending_ok_def)
  ultimately show ?thesis
    using u t fds unfolding inv(3-5) by (auto simp: retired_def obp_ok_def not_le)
qed

text \<open>
  C12: the stop takes everything down that the start and the traffic have put up.  Every link is down
  and out of service without a timer and without a call from its side, no connection waits for its
  Question, no OpenBridge peer has a socket and the three shared sockets are closed.
\<close>

theorem stop_releases_everything:
  assumes "valid_config c" "reachable c s"
  defines "t \<equiv> main_stop s"
  shows "(\<forall>i < n_link c. lk_state (s_links t i) = LST_DOWN \<and> \<not> lk_active (s_links t i) \<and>
      armed t (Keepalive_cb i) = {} \<and> armed t (Reconnect_cb i) = {} \<and> \<not> call_from CALL_ORIGIN_CC (s_runtime t i)) \<and>
    (\<forall>k < MAX_PENDING. \<not> p_in_use (s_pending t k) \<and> armed t (Pending_timeout_cb k) = {}) \<and>
    (\<forall>i < n_openbridge c. s_obp_fd t i < 0) \<and> s_voice_fd t < 0 \<and> s_trial_fd t < 0 \<and> s_listen_fd t < 0"
  using stop_releases [OF assms(1,2)] unfolding t_def by blast

lemma stop_releases_everything_witness:
  "\<exists>s. reachable demo_config s \<and> lk_state (s_links s 0) = LST_UP \<and> lk_state (s_links (main_stop s) 0) = LST_DOWN"
proof -
  obtain s where s: "reachable demo_config s" "lk_state (s_links s 0) = LST_UP" by (rule demo_up_run)
  moreover have "0 < n_link demo_config" by (simp add: n_link_def demo_config_def)
  ultimately show ?thesis using stop_releases_everything [OF demo_config_valid s(1)] by blast
qed

end
