(* ===== verification/Call_Records.thy ===== *)
theory Call_Records
  imports Bursts Main_Props
begin

text \<open>
  What the record of a running call says in every state the program reaches, and so how every call
  ends: with a terminator that names the call, or with a B-off that counts its slots.
\<close>

section \<open>The record of a running call\<close>

definition link_control :: "link_config \<Rightarrow> call_state \<Rightarrow> bytes" where
  "link_control l c = DMR_LC_OPT @ wr24 (of_int (l_tgid l)) @ wr24 (cs_rf_src c)"

text \<open>
  A call runs only on a link with an OpenBridge peer.  One from the CC-CC side keeps the link control
  of the link's talkgroup and of its source; one from OpenBridge the slot of its last burst.
\<close>

definition record_ok :: "link_config \<Rightarrow> link_runtime \<Rightarrow> bool" where
  "record_ok l lr \<longleftrightarrow> (lr_has_call lr \<longrightarrow> 0 \<le> l_openbridge_idx l \<and>
     (case cs_origin (lr_call lr) of
        CALL_ORIGIN_NONE \<Rightarrow> False
      | CALL_ORIGIN_CC \<Rightarrow> cs_lc (lr_call lr) = link_control l (lr_call lr) \<and>
          cs_emb (lr_call lr) = dmr_encode_emblc (link_control l (lr_call lr))
      | CALL_ORIGIN_OBP \<Rightarrow>
          (if cs_cc_sent_first (lr_call lr)
           then cs_cc_seq (lr_call lr) = slot_index (cs_last_activity (lr_call lr)) (cs_call_start_time (lr_call lr))
           else cs_last_activity (lr_call lr) = cs_call_start_time (lr_call lr))))"

definition records_ok :: "sys \<Rightarrow> bool" where
  "records_ok s \<longleftrightarrow> (\<forall>i < n_link (s_cfg s). record_ok (link_cfg s i) (s_runtime s i))"

named_theorems record_rules \<open>a handler keeps the records of the calls\<close>

lemma record_ok_simps [simp]:
  "record_ok l (lr\<lparr>lr_has_call := False\<rparr>)"
  "record_ok l (lr\<lparr>lr_has_call := False, lr_cx_drop_logged := b\<rparr>)"
  "record_ok l (lr\<lparr>lr_cx_drop_logged := b\<rparr>) = record_ok l lr"
  "record_ok l zero_runtime"
  by (auto simp: record_ok_def zero_runtime_def split: call_origin.split)

section \<open>The callbacks of the translator\<close>

lemma record_end:
  "record_ok l (s_runtime s i) \<Longrightarrow> record_ok l (s_runtime (end_obp_origin_call i s) i)"
  "record_ok l (s_runtime s i) \<Longrightarrow> record_ok l (s_runtime (end_cc_origin_call i s) i)"
  by (simp_all add: end_obp_origin_call_def end_cc_origin_call_def Let_def drop_call_def frame)

lemma record_head:
  assumes "record_ok l (s_runtime s i)" "0 \<le> l_openbridge_idx l"
  shows "record_ok l (s_runtime (handle_obp_voice_head i p r st s) i)"
  using assms by (simp add: handle_obp_voice_head_def Let_def frame) (simp add: record_ok_def zero_call_def)

lemma record_burst:
  assumes "record_ok l (s_runtime s i)"
  shows "record_ok l (s_runtime (handle_obp_voice_burst i pl st s) i)"
  using assms by (simp add: handle_obp_voice_burst_def Let_def frame) (auto simp: record_ok_def split: call_origin.splits)

lemma record_term: "record_ok l (s_runtime s i) \<Longrightarrow> record_ok l (s_runtime (handle_obp_voice_term i st s) i)"
  by (simp add: handle_obp_voice_term_def Let_def record_end)

lemma gate_has_peer: "gate_open s i \<Longrightarrow> 0 \<le> l_openbridge_idx (link_cfg s i)"
  by (simp add: gate_open_def)

lemma record_frame:
  "record_ok (link_cfg s i) (s_runtime s i) \<Longrightarrow>
     record_ok (link_cfg s i) (s_runtime (obp_frame_for_link i cls p r st pl s) i)"
  by (cases cls)
     (auto simp: obp_frame_for_link_def Let_def case_prod_beta fst_gate snd_gate gate_has_peer
       intro!: record_head record_burst record_term)

lemma record_bon:
  assumes "record_ok (link_cfg s i) (s_runtime s i)"
  shows "record_ok (link_cfg s i) (s_runtime (translator_cccc_bon i r p s) i)"
proof -
  have new: "0 \<le> l_openbridge_idx l \<Longrightarrow>
      record_ok l (lr\<lparr>lr_call := new_cc_call r p st (l_tgid l) t, lr_has_call := True\<rparr>)" for l lr st t
    by (simp add: record_ok_def new_cc_call_def link_control_def Let_def)
  show ?thesis
    using assms
    by (auto simp: translator_cccc_bon_def Let_def case_prod_beta fst_gate snd_gate gate_has_peer frame intro!: new)
qed

lemma record_voice: "record_ok l (s_runtime s i) \<Longrightarrow> record_ok l (s_runtime (translator_cccc_voice i a s) i)"
  by (simp add: translator_cccc_voice_def Let_def frame) (auto simp: record_ok_def link_control_def split: call_origin.splits)

lemma record_down: "record_ok l (s_runtime (translator_cccc_link_down i s) i)"
  by (simp add: translator_cccc_link_down_def Let_def frame)

lemma record_up: "record_ok l (s_runtime s i) \<Longrightarrow> record_ok l (s_runtime (translator_cccc_link_up i s) i)"
  by (simp add: translator_cccc_link_up_def)

lemma record_tick: "record_ok l (s_runtime s i) \<Longrightarrow> record_ok l (s_runtime (tick_link s i) i)"
  by (simp add: tick_link_def Let_def record_end)

lemma records_call:
  assumes "records_ok s" "call_step i s t"
    and "record_ok (link_cfg s i) (s_runtime s i) \<Longrightarrow> record_ok (link_cfg s i) (s_runtime t i)"
  shows "records_ok t"
  unfolding records_ok_def call_step_keeps(1) [OF assms(2)]
proof (intro allI impI)
  fix j assume "j < n_link (s_cfg s)"
  then show "record_ok (link_cfg s j) (s_runtime t j)"
    using assms(1,3) call_step_other [OF assms(2), of j] by (cases "j = i") (auto simp: records_ok_def)
qed

lemma records_translator [record_rules]:
  assumes "records_ok s"
  shows "records_ok (translator_cccc_link_down i s)" "records_ok (translator_cccc_link_up i s)"
    "records_ok (translator_cccc_bon i r p s)" "records_ok (translator_cccc_boff i s)" "records_ok (translator_cccc_voice i a s)"
    "records_ok (tick_link s i)" "records_ok (translator_obp_dmrd_received q body s)"
proof -
  note c = records_call [OF assms]
  show "records_ok (translator_cccc_link_down i s)" by (rule c [OF call_step_up_down(2)]) (rule record_down)
  show "records_ok (translator_cccc_link_up i s)" by (rule c [OF call_step_up_down(1)]) (rule record_up)
  show "records_ok (translator_cccc_bon i r p s)" by (rule c [OF call_step_bon]) (rule record_bon)
  show "records_ok (translator_cccc_boff i s)"
    unfolding translator_cccc_boff_def by (rule c [OF call_step_end(2)]) (rule record_end)
  show "records_ok (translator_cccc_voice i a s)" by (rule c [OF call_step_voice]) (rule record_voice)
  show "records_ok (tick_link s i)" by (rule c [OF call_step_tick]) (rule record_tick)
  show "records_ok (translator_obp_dmrd_received q body s)"
    using assms by (auto simp: dmrd_by_route intro: c [OF call_step_frame] record_frame split: option.split)
qed

section \<open>The handlers of the links\<close>

lemma records_cong: "records_ok s \<Longrightarrow> s_cfg t = s_cfg s \<Longrightarrow> s_runtime t = s_runtime s \<Longrightarrow> records_ok t"
  by (simp add: records_ok_def)

lemma records_access [record_rules]:
  assumes "records_ok s"
  shows "records_ok (on_link i f s)" "records_ok (on_pending k g s)" "records_ok (emit e s)" "records_ok (on_loop h s)"
    "records_ok (snd (next_sock s))" "records_ok (s\<lparr>s_nrand := r\<rparr>)" "records_ok (s\<lparr>s_now := now\<rparr>)"
    "records_ok (s\<lparr>s_wall := wall\<rparr>)" "records_ok (s\<lparr>s_reload_requested := b\<rparr>)" "records_ok (s\<lparr>s_shutdown_requested := b\<rparr>)"
    "records_ok (snd (timer_after d cb s))"
  by (rule records_cong [OF assms]; simp add: access_defs timer_after_def case_prod_beta)+

lemma records_foldl: "records_ok s \<Longrightarrow> (\<And>u x. records_ok u \<Longrightarrow> records_ok (f u x)) \<Longrightarrow> records_ok (foldl f s xs)"
  by (induction xs arbitrary: s) auto

lemma records_parts [record_rules]:
  assumes "records_ok s"
  shows "records_ok (tcp_send i line s)" "records_ok (udp_send_to_link i pkt s)" "records_ok (schedule_reconnect i s)"
    "records_ok (cancel_keepalive i s)" "records_ok (cancel_reconnect i s)" "records_ok (close_link_fd i s)"
    "records_ok (fired t s)" "records_ok (rearm_keepalive i s)" "records_ok (arm_keepalive i s)" "records_ok (free_pending k b s)"
  using assms
  by (simp_all add: tcp_send_def udp_send_to_link_def schedule_reconnect_def cancel_keepalive_def cancel_reconnect_def
      close_link_fd_def fired_def rearm_keepalive_def arm_keepalive_def free_pending_def case_prod_beta Let_def record_rules)

lemma records_teardown [record_rules]: "records_ok s \<Longrightarrow> records_ok (teardown_link_connection i s)"
  by (simp add: teardown_link_connection_def Let_def record_rules)

lemma records_connect [record_rules]: "records_ok s \<Longrightarrow> records_ok (start_outbound_connect i s)"
  by (simp add: start_outbound_connect_def case_prod_beta Let_def record_rules)

lemma records_timers [record_rules]:
  assumes "records_ok s"
  shows "records_ok (reconnect_cb i s)" "records_ok (keepalive_cb i s)" "records_ok (pending_timeout_cb k s)"
  using assms by (simp_all add: reconnect_cb_def keepalive_cb_def pending_timeout_cb_def Let_def record_rules)

lemma records_lines [record_rules]:
  assumes "records_ok s"
  shows "records_ok (finish_outbound_handshake i s)" "records_ok (dispatch_established_line i line s)"
  using assms
  by (auto simp: finish_outbound_handshake_def dispatch_established_line_def Let_def record_rules split: option.split)

lemma records_line [record_rules]: "records_ok s \<Longrightarrow> records_ok (link_on_line i line s)"
  by (simp add: link_on_line_def Let_def record_rules)

lemma records_tcp [record_rules]: "records_ok s \<Longrightarrow> records_ok (on_link_tcp_readable i inp s)"
  by (auto simp: on_link_tcp_readable_def feed_link_def RXBUF_CAP_def record_rules
      intro!: feed_keeps [where P = records_ok] split: input.split)

lemma records_writable: "records_ok s \<Longrightarrow> on_connect_writable i fd inp s = Some t \<Longrightarrow> records_ok t"
  by (cases "inp = In_sockerr 0")
     (auto simp: on_connect_writable_def Let_def record_rules split: bind_splits if_splits dest!: mint_Some intro!: record_rules)

lemma records_question [record_rules]: "records_ok s \<Longrightarrow> records_ok (handle_question_complete k s)"
  by (auto simp: handle_question_complete_def accept_question_def Let_def record_rules split: option.split)

lemma records_pending_line [record_rules]: "records_ok s \<Longrightarrow> records_ok (pending_on_line k line s)"
  by (simp add: pending_on_line_def Let_def record_rules)

lemma records_pending_readable [record_rules]: "records_ok s \<Longrightarrow> records_ok (on_pending_readable k inp s)"
  by (auto simp: on_pending_readable_def feed_pending_def RXBUF_CAP_def record_rules
      intro!: feed_keeps [where P = records_ok] split: input.split)

lemma records_accept [record_rules]: "records_ok s \<Longrightarrow> records_ok (accept_connection s x)"
  by (auto simp: accept_connection_def case_prod_beta Let_def record_rules split: option.split)

lemma records_shared [record_rules]:
  assumes "records_ok s"
  shows "records_ok (on_listen_readable inp s)" "records_ok (on_voice_readable fd inp s)"
    "records_ok (on_trial_readable fd inp s)" "records_ok (on_obp_readable idx inp s)"
  using assms
  by (auto simp: on_listen_readable_def on_voice_readable_def on_trial_readable_def on_obp_readable_def Let_def
      record_rules intro: records_foldl split: input.split option.split)

section \<open>Every reachable state\<close>

lemma records_cfg:
  assumes "records_ok s" "without_toggles c = without_toggles (s_cfg s)"
  shows "records_ok (s\<lparr>s_cfg := c\<rparr>)"
proof -
  let ?off = "\<lambda>l. l\<lparr>l_enabled := False, l_cross_connect_active := False\<rparr>"
  have same: "record_ok (c_link c ! i) lr = record_ok (link_cfg s i) lr" if i: "i < n_link c" for i lr
  proof -
    have "c_link (without_toggles c) ! i = c_link (without_toggles (s_cfg s)) ! i" by (simp add: assms(2))
    then have "?off (c_link c ! i) = ?off (link_cfg s i)"
      using i same_shape(2) [OF assms(2)] by (simp add: without_toggles_def n_link_def)
    moreover have "record_ok (?off l) lr = record_ok l lr" for l
      by (auto simp: record_ok_def link_control_def split: call_origin.split)
    ultimately show ?thesis by metis
  qed
  show ?thesis using assms(1) same same_shape(2) [OF assms(2)] by (simp add: records_ok_def)
qed

lemma records_muxes [record_rules]: "records_ok s \<Longrightarrow> records_ok (cccc_mux_reconcile s)" "records_ok s \<Longrightarrow> records_ok (translator_tick s)"
  by (simp_all add: cccc_mux_reconcile_def translator_tick_def reconcile_link_def Let_def records_foldl record_rules)

lemma records_peer [record_rules]: "records_ok s \<Longrightarrow> records_ok (bind_peer i s)" "records_ok s \<Longrightarrow> records_ok (unbind_peer i s)"
  by (auto simp: frame intro: records_cong)

lemma records_peers [record_rules]: "records_ok s \<Longrightarrow> records_ok (obp_mux_reconcile s)"
  unfolding obp_mux_reconcile_def
  by (rule records_foldl) (simp_all add: obp_reconcile_peer_def Let_def record_rules)

lemma records_reload [record_rules]:
  assumes "records_ok s"
  shows "records_ok (do_reload file s)"
proof (cases "config_reload_toggles file (s_cfg s)")
  case (Inr c)
  then have "without_toggles c = without_toggles (s_cfg s)"
    using without_toggles_apply by (auto simp: config_reload_toggles_def split: sum.splits)
  then show ?thesis using records_cfg [OF assms] by (simp add: do_reload_def Inr record_rules)
qed (simp add: do_reload_def assms)

lemma records_step:
  assumes "bridge_step s t" "records_ok s"
  shows "records_ok t"
  using assms(1)
proof cases
  case (Timer u f)
  then show ?thesis using assms(2) by (cases "t_cb u") (simp_all add: tick_cb_def Let_def record_rules)
next
  case (Readable fd cb inp)
  then show ?thesis using assms(2) by (cases cb) (auto simp: record_rules intro: records_writable)
next
  case (Writable fd cb inp)
  then show ?thesis using assms(2) by (cases cb) (auto simp: record_rules intro: records_writable)
qed (simp_all add: assms(2) record_rules on_sighup_def on_sigterm_def)

lemma records_start:
  assumes "main_start c sock rnd now wall = Running s"
  shows "records_ok s"
proof -
  define a where "a = (blank_sys c sock rnd)\<lparr>s_now := now, s_wall := wall\<rparr>"
  have a: "records_ok a" by (simp add: a_def blank_sys_def records_ok_def)
  have b: "records_ok (obp_mux_start a)"
    unfolding obp_mux_start_def by (rule records_foldl [OF a]) (simp add: record_rules)
  have f: "records_ok u \<Longrightarrow> records_ok (u\<lparr>s_nsock := k, s_voice_fd := fd\<rparr>)"
    "records_ok u \<Longrightarrow> records_ok (u\<lparr>s_nsock := k, s_trial_fd := fd\<rparr>)"
    "records_ok u \<Longrightarrow> records_ok (u\<lparr>s_nsock := k, s_listen_fd := fd\<rparr>)" for u k fd
    by (simp_all add: records_ok_def)
  have "records_ok u \<Longrightarrow> records_ok (start_link u i)" for u i
    by (simp add: start_link_def Let_def record_rules)
  then have "records_ok (snd (cccc_mux_start (obp_mux_start a)))"
    by (auto simp: cccc_mux_start_def next_sock_def Let_def intro!: records_foldl record_rules f b)
  then show ?thesis
    using assms by (auto simp: main_start_def a_def [symmetric] Let_def case_prod_beta record_rules split: if_splits)
qed

lemma reachable_records: "reachable c s \<Longrightarrow> records_ok s"
  by (induction rule: reachable.induct) (auto intro: records_start records_step)

section \<open>How calls end\<close>

text \<open>The link control in a header or terminator burst, as its receiver decodes it.\<close>

definition burst_lc :: "bytes \<Rightarrow> bytes" where
  "burst_lc payload = (let bits = dmr_bytes_to_bits payload in dmr_bptc_decode_full_lc (take 98 bits @ drop 166 bits))"

lemma burst_lc_build: "length lc = 9 \<Longrightarrow> burst_lc (build_head_term_payload lc b) = lc"
  by (cases b) (simp_all add: burst_lc_def head_term_bits Let_def decode_full_lc_encode_lc)

lemma embed_fragment:
  assumes "pos \<in> {1..4}" "length (cs_emb k ! (pos - 1)) = 4"
  shows "take 32 (drop 8 (build_embed k pos)) = dmr_bytes_to_bits (cs_emb k ! (pos - 1))"
proof -
  have "length (DMR_EMB ! (pos - 1)) = 16" using assms(1) by (intro length_DMR_EMB_nth) auto
  then show ?thesis using assms by (simp add: build_embed_def Let_def)
qed

lemma shape_link:
  assumes "without_toggles c = without_toggles d" "i < n_link c"
  shows "l_tgid (c_link c ! i) = l_tgid (c_link d ! i)" "l_openbridge_idx (c_link c ! i) = l_openbridge_idx (c_link d ! i)"
proof -
  have "c_link (without_toggles c) ! i = c_link (without_toggles d) ! i" by (simp add: assms(1))
  then have "(c_link c ! i)\<lparr>l_enabled := False, l_cross_connect_active := False\<rparr> =
      (c_link d ! i)\<lparr>l_enabled := False, l_cross_connect_active := False\<rparr>"
    using assms(2) same_shape(2) [OF assms(1)] by (simp add: without_toggles_def n_link_def)
  from arg_cong [OF this, of l_tgid] arg_cong [OF this, of l_openbridge_idx]
  show "l_tgid (c_link c ! i) = l_tgid (c_link d ! i)" "l_openbridge_idx (c_link c ! i) = l_openbridge_idx (c_link d ! i)"
    by simp_all
qed

text \<open>
  C24: in every state the program reaches, a running call belongs to a link with a configured
  OpenBridge peer, and its record is what its end needs.  If it came from the CC-CC side the link is
  up, and what ends it (the B-off and the timeout by \<open>end_cc_origin_call\<close>, and the loss of the link)
  sends the peer a terminator whose link control, as a receiver decodes it, is the group call of the
  call's source to the talkgroup the program was started with; the same link control is what the
  embedded fragments of its voice bursts are made of.  If it came from OpenBridge, what ends it (the
  terminator, the next header and the timeout by \<open>end_obp_origin_call\<close>) sends a B-off whose total is
  one more than the slot of the last burst that was sent on, or 0 when none was.
\<close>

theorem calls_end_as_they_ran:
  assumes "valid_config c" "reachable c s" "i < n_link c" "lr_has_call (s_runtime s i)"
  defines "k \<equiv> lr_call (s_runtime s i)"
  shows "(\<exists>p < n_openbridge c. l_openbridge_idx (c_link c ! i) = int p) \<and>
    (let lc = DMR_LC_OPT @ wr24 (of_int (l_tgid (c_link c ! i))) @ wr24 (cs_rf_src k) in
       cs_origin k = CALL_ORIGIN_CC \<and> lk_state (s_links s i) = LST_UP \<and>
       (\<exists>payload. burst_lc payload = lc \<and>
          end_cc_origin_call i s = drop_call i (send_dmrd i (OBPF_FRAMETYPE_DATASYNC OR OBPF_SLT_VTERM) payload s) \<and>
          s_out (translator_cccc_link_down i s) = s_out (end_cc_origin_call i s)) \<and>
       (\<forall>pos \<in> {1..4}. take 32 (drop 8 (build_embed k pos)) = dmr_bytes_to_bits (dmr_encode_emblc lc ! (pos - 1))) \<or>
       cs_origin k = CALL_ORIGIN_OBP \<and>
       end_obp_origin_call i s = drop_call i (cccc_send_boff i 0
         (if cs_cc_sent_first k then slot_index (cs_last_activity k) (cs_call_start_time k) + 1 else 0) 0 s))"
proof -
  note r = reachable_parts [OF assms(1,2)]
  let ?l = "link_cfg s i" and ?lc = "link_control (link_cfg s i) k"
  have sh: "l_tgid ?l = l_tgid (c_link c ! i)" "l_openbridge_idx ?l = l_openbridge_idx (c_link c ! i)"
    using shape_link [OF r(7)] r(8) assms(3) by simp_all
  have rec: "record_ok ?l (s_runtime s i)" using reachable_records [OF assms(2)] r(8) assms(3) by (simp add: records_ok_def)
  have "link_cfg_ok (c_openbridge c) (c_link c ! i)"
    using assms(1,3) by (simp add: valid_config_def list_all_length n_link_def)
  then have peer: "\<exists>p < n_openbridge c. l_openbridge_idx (c_link c ! i) = int p"
    using rec assms(4) sh(2)
    by (intro exI [of _ "nat (l_openbridge_idx (c_link c ! i))"])
       (auto simp: record_ok_def link_cfg_ok_def n_openbridge_def nat_less_iff)
  show ?thesis
  proof (cases "cs_origin k")
    case CALL_ORIGIN_NONE
    then show ?thesis using rec assms(4) by (simp add: record_ok_def k_def)
  next
    case CALL_ORIGIN_CC
    then have k: "cs_lc k = ?lc" "cs_emb k = dmr_encode_emblc ?lc" using rec assms(4) by (simp_all add: record_ok_def k_def)
    have len: "length ?lc = 9" "length (cs_emb k) = 4" "\<forall>f \<in> set (cs_emb k). length f = 4"
      using r(4) [of i] k(1) by (simp_all add: runtime_ok_def k_def)
    have "end_cc_origin_call i s = drop_call i (send_dmrd i (OBPF_FRAMETYPE_DATASYNC OR OBPF_SLT_VTERM) (build_head_term_payload ?lc True) s)"
      using CALL_ORIGIN_CC assms(4) k(1) by (simp add: end_cc_origin_call_def send_obp_voice_term_def k_def)
    moreover have "\<forall>pos \<in> {1..4}. take 32 (drop 8 (build_embed k pos)) = dmr_bytes_to_bits (dmr_encode_emblc ?lc ! (pos - 1))"
      using len(2,3) embed_fragment [of _ k] by (auto simp: k(2))
    moreover have "lk_state (s_links s i) = LST_UP"
      using r(2) [of i] CALL_ORIGIN_CC assms(4) by (simp add: link_ok_def Let_def k_def)
    moreover have "s_out (translator_cccc_link_down i s) = s_out (end_cc_origin_call i s)"
      using CALL_ORIGIN_CC assms(4)
      by (simp add: translator_cccc_link_down_def end_cc_origin_call_def drop_call_def on_runtime_def Let_def k_def)
    ultimately show ?thesis
      using peer burst_lc_build [OF len(1), of True] CALL_ORIGIN_CC by (auto simp: Let_def link_control_def sh)
  next
    case CALL_ORIGIN_OBP
    then show ?thesis using peer rec assms(4) by (simp add: record_ok_def end_obp_origin_call_def Let_def k_def)
  qed
qed

lemma calls_end_as_they_ran_witness:
  "\<exists>s. reachable demo_config s \<and> lr_has_call (s_runtime s 0) \<and>
     (\<exists>p < n_openbridge demo_config. l_openbridge_idx (c_link demo_config ! 0) = int p)"
proof (rule demo_started)
  fix s assume s: "reachable demo_config s" "s_cfg s = demo_config" "s_obp_active s 0" "readers s 10 = Some (On_obp_readable 0)"
  let ?b = "demo_body 0x21" and ?p = "peer_cfg s 0"
  let ?t = "translator_obp_dmrd_received 0 ?b s"
  have cfg: "gate_open s 0" "n_link demo_config = 2" "n_openbridge demo_config = 1"
    using s(2,3)
    by (simp_all add: gate_open_def obp_peer_is_enabled_def demo_config_def demo_link_def n_link_def n_openbridge_def)
  have b: "length ?b = 53" "take 4 ?b = DMRD" "\<not> bit (?b ! 15) 7" "body_class ?b = Fr_head"
    by (simp_all add: demo_body_def DMRD_def wr24_def wr32_def nth_append obp_consts obp_flags frame_class_of_def)
  have r: "obp_route s 0 ?b = Some 0"
    using s(2)
    by (simp add: obp_route_def demo_body_def obp_consts obp_flags find_obp_link_def n_link_def
        demo_config_def demo_link_def rd24_def wr24_def wr32_def upt_rec nth_append)
  let ?d = "?b @ obp_mac (passphrase_key ?p) ?b"
  have "obp_verdict ?p ?d (o_peer_ip ?p) (o_peer_port ?p) = Accepted" using b by (auto simp: verdict_Accepted_iff)
  then have "run_fd_cb (On_obp_readable 0) 10 (In_datagram ?d (o_peer_ip ?p) (o_peer_port ?p)) s = Some ?t"
    using b(1) by (simp add: on_obp_readable_def OBP_DMRD_BODY_LEN_def)
  then have "bridge_step s ?t" by (intro bridge_step.Readable [OF _ s(4)]) simp_all
  then have t: "reachable demo_config ?t" by (rule reachable.Step [OF s(1)])
  have "abs_call (s_runtime ?t 0) = abs_head (body_stream ?b) (abs_call (s_runtime s 0))"
    using r cfg(1) b(4) by (simp add: abs_dmrd_step abs_frame_def)
  then have c: "lr_has_call (s_runtime ?t 0)"
    by (cases "abs_call (s_runtime s 0)") (auto simp: abs_call_def split: if_splits)
  then show ?thesis using calls_end_as_they_ran [OF demo_config_valid t, of 0] t cfg(2) by auto
qed

end
