(* ===== verification/Passes.thy ===== *)
theory Passes
  imports Main_Props
begin

text \<open>
  The passes of the event loop: each is a sequence of \<open>bridge_step\<close>s, so what holds in reachable
  states holds during the run of \<open>ev_run\<close>; and each returns, because no callback arms a timer that
  is due at once and the loop that draws an SSRC meets a free number.
\<close>

section \<open>Drawing a number\<close>

text \<open>Whatever few numbers are taken, a later draw gives another one.\<close>

definition fair_rand :: "(nat \<Rightarrow> u32) \<Rightarrow> bool" where
  "fair_rand rnd \<longleftrightarrow> (\<forall>n A. finite A \<and> card A \<le> CFG_MAX_LINKS \<longrightarrow> (\<exists>k \<ge> n. rnd k \<notin> A))"

lemma mint_returns_from:
  assumes "find_link_by_ssrc s (s_rand s (s_nrand s + d)) = None"
  shows "\<exists>r. mint_sync_source s = Some r"
  using assms
proof (induction d arbitrary: s)
  case 0
  then show ?case by (subst mint_sync_source.simps) (simp add: next_rand_def find_link_by_ssrc_def)
next
  case (Suc d)
  let ?s = "s\<lparr>s_nrand := Suc (s_nrand s)\<rparr>"
  have "find_link_by_ssrc ?s (s_rand ?s (s_nrand ?s + d)) = None" using Suc.prems by (simp add: find_link_by_ssrc_def)
  then have "\<exists>r. mint_sync_source ?s = Some r" by (rule Suc.IH)
  then show ?case by (subst mint_sync_source.simps) (simp add: next_rand_def Let_def)
qed

lemma mint_returns:
  assumes "fair_rand (s_rand s)" "n_link (s_cfg s) \<le> CFG_MAX_LINKS"
  shows "\<exists>r. mint_sync_source s = Some r"
proof -
  let ?A = "(\<lambda>i. lk_sync_source (s_links s i)) ` {..<n_link (s_cfg s)}"
  have "card ?A \<le> CFG_MAX_LINKS" using card_image_le [of "{..<n_link (s_cfg s)}"] assms(2) by (metis card_lessThan finite_lessThan le_trans)
  then obtain k where "s_nrand s \<le> k" "s_rand s k \<notin> ?A" using assms(1) unfolding fair_rand_def by blast
  then have "find_link_by_ssrc s (s_rand s (s_nrand s + (k - s_nrand s))) = None"
    by (force simp: find_ssrc_None)
  then show ?thesis by (rule mint_returns_from)
qed

lemma fd_returns:
  assumes "fair_rand (s_rand s)" "n_link (s_cfg s) \<le> CFG_MAX_LINKS"
  shows "\<exists>t. run_fd_cb cb fd inp s = Some t"
proof (cases cb)
  case (On_connect_writable i)
  show ?thesis
  proof (cases "inp = In_sockerr 0")
    case True
    have "\<exists>r. mint_sync_source (on_link i f (on_loop g s)) = Some r" for f g
      by (rule mint_returns) (use assms in \<open>simp_all add: on_link_def on_loop_def\<close>)
    from this [of "\<lambda>l. l\<lparr>lk_state := LST_HANDSHAKING\<rparr>" "ev_del_fd_write fd"] show ?thesis
      using True On_connect_writable by (auto simp: on_connect_writable_def Let_def)
  qed (simp add: On_connect_writable on_connect_writable_def Let_def)
qed simp_all

section \<open>Callbacks of timers\<close>

lemma obp_reconcile_quiet:
  "s_now (obp_mux_reconcile s) = s_now s \<and> s_rand (obp_mux_reconcile s) = s_rand s \<and>
   ev_timers (s_loop (obp_mux_reconcile s)) = ev_timers (s_loop s)"
proof -
  have "s_now (foldl obp_reconcile_peer s is) = s_now s \<and> s_rand (foldl obp_reconcile_peer s is) = s_rand s \<and>
      ev_timers (s_loop (foldl obp_reconcile_peer s is)) = ev_timers (s_loop s)" for "is"
    by (induction "is" arbitrary: s)
       (simp_all add: obp_reconcile_peer_def bind_peer_def unbind_peer_def next_sock_def on_loop_def emit_def
         ev_add_fd_def ev_del_fd_def Let_def)
  then show ?thesis by (simp add: obp_mux_reconcile_def)
qed

definition later :: "sys \<Rightarrow> sys \<Rightarrow> bool" where
  "later s t \<longleftrightarrow> s_now t = s_now s \<and> s_rand t = s_rand s \<and> without_toggles (s_cfg t) = without_toggles (s_cfg s) \<and>
     due_count (s_now s) (ev_timers (s_loop t)) \<le> due_count (s_now s) (ev_timers (s_loop s))"

lemma later_trans: "later s t \<Longrightarrow> later t u \<Longrightarrow> later s u"
  by (auto simp: later_def)

lemma calm_later: "calm s t \<Longrightarrow> later s t"
  by (simp add: calm_def later_def)

lemma reload_later:
  assumes "0 < c_keepalive_interval (s_cfg s)"
  shows "later s (do_reload file s)"
proof (cases "config_reload_toggles file (s_cfg s)")
  case (Inr c)
  let ?u = "s\<lparr>s_cfg := c\<rparr>" and ?r = "\<lambda>w. obp_mux_reconcile w"
  have w: "without_toggles c = without_toggles (s_cfg s)"
    using Inr without_toggles_apply by (auto simp: config_reload_toggles_def split: sum.splits)
  have "calm ?u (cccc_mux_reconcile ?u)" using assms same_shape(1) [OF w] by (intro calm_rules calm_refl) simp
  moreover have "s_cfg (foldl obp_reconcile_peer v is) = s_cfg v" for v "is"
    by (induction "is" arbitrary: v) (simp_all add: reconcile_peer_cfg)
  ultimately show ?thesis
    using w obp_reconcile_quiet [of "cccc_mux_reconcile ?u"]
    by (simp add: do_reload_def Inr later_def calm_def) (simp add: obp_mux_reconcile_def)
qed (simp add: do_reload_def later_def)

lemma timer_later:
  assumes "0 < c_keepalive_interval (s_cfg s)"
  shows "later s (run_timer_cb file cb s)"
proof (cases "cb = Tick_cb")
  case True
  define u where "u = translator_tick s"
  define v where "v = (if s_reload_requested u then do_reload file (u\<lparr>s_reload_requested := False\<rparr>) else u)"
  have u: "calm s u" unfolding u_def by (intro calm_rules calm_refl assms)
  then have k: "0 < c_keepalive_interval (s_cfg u)" by (simp add: calm_def)
  have "later u v"
    using reload_later [of "u\<lparr>s_reload_requested := False\<rparr>"] k by (simp add: v_def later_def)
  moreover have "later v (on_loop ev_stop v)" by (simp add: later_def on_loop_def ev_stop_def)
  moreover have "later v (snd (timer_after TICK_INTERVAL_S Tick_cb v))"
    by (simp add: later_def due_after TICK_INTERVAL_S_def) (simp add: timer_after_def case_prod_beta)
  moreover have "run_timer_cb file cb s = on_loop ev_stop v \<or> run_timer_cb file cb s = snd (timer_after TICK_INTERVAL_S Tick_cb v)"
    by (simp add: True tick_cb_def u_def v_def Let_def)
  ultimately show ?thesis using later_trans [OF calm_later [OF u]] later_trans [of u v] by metis
next
  case False
  then have "calm s (run_timer_cb file cb s)" using assms by (cases cb) (simp_all add: calm_rules calm_refl)
  then show ?thesis by (rule calm_later)
qed

section \<open>A pass as steps\<close>

lemma env_access [simp]:
  "get_loop (main_env file) s = s_loop s" "map_loop (main_env file) f s = on_loop f s"
  "run_timer (main_env file) cb s = Some (run_timer_cb file cb s)" "run_fd (main_env file) c fd d s = run_fd_cb c fd d s"
  by (simp_all add: main_env_def map_loop_def on_loop_def)

text \<open>What every callback of a due timer keeps, the firing of all due timers keeps.\<close>

lemma fire_expired_keeps:
  assumes "fire_expired (main_env file) now s = Some t" "P s"
    and step: "\<And>s tm. P s \<Longrightarrow> pick_due now (ev_timers (s_loop s)) = Some tm \<Longrightarrow>
      Q (run_timer_cb file (t_cb tm) (fired (t_id tm) s))"
    and again: "\<And>s. Q s \<Longrightarrow> ev_running (s_loop s) \<Longrightarrow> P s" and weak: "\<And>s. P s \<Longrightarrow> Q s"
  shows "Q t"
proof -
  have "e = main_env file \<longrightarrow> n = now \<longrightarrow> P u \<longrightarrow> Q v" if "fire_expired e n u = Some v" for e n u v
    using that
  proof (rule fire_expired.raw_induct [rotated, where P = "\<lambda>e n u v. e = main_env file \<longrightarrow> n = now \<longrightarrow> P u \<longrightarrow> Q v"], goal_cases)
    case (1 fire e n u v)
    show ?case
    proof (intro impI)
      assume p: "e = main_env file" "n = now" "P u"
      show "Q v"
      proof (cases "pick_due now (ev_timers (s_loop u))")
        case None
        then show ?thesis using 1(2) p weak by simp
      next
        case (Some tm)
        let ?w = "run_timer_cb file (t_cb tm) (fired (t_id tm) u)"
        have w: "Q ?w" by (rule step [OF p(3) Some])
        have "(if ev_running (s_loop ?w) then fire e now ?w else Some ?w) = Some v"
          using 1(2) [unfolded p(1,2)] Some by (simp add: p(1) fired_def split: if_splits)
        then show ?thesis using 1(1) [of e now ?w v] p(1) w again by (auto split: if_splits)
      qed
    qed
  qed
  then show ?thesis using assms(1,2) by blast
qed

lemma fire_expired_steps:
  assumes "fire_expired (main_env file) now s = Some t" "main_inv c s" "0 < c_keepalive_interval c" "s_now s = now"
  shows "bridge_step\<^sup>*\<^sup>* s t \<and> main_inv c t"
proof -
  let ?P = "\<lambda>u. bridge_step\<^sup>*\<^sup>* s u \<and> main_inv c u \<and> s_now u = now"
  have "?P t"
  proof (rule fire_expired_keeps [where P = ?P, OF assms(1)])
    fix u tm assume u: "?P u" and tm: "pick_due now (ev_timers (s_loop u)) = Some tm"
    let ?v = "run_timer_cb file (t_cb tm) (fired (t_id tm) u)"
    have step: "bridge_step u ?v" using pick_due_SomeD [OF tm] u by (intro bridge_step.Timer) simp_all
    have "s_now ?v = now"
      using timer_later [of "fired (t_id tm) u" "file" "t_cb tm"] u same_shape(1) [of "s_cfg u" c] assms(3)
      by (simp add: later_def fired_def on_loop_def main_inv_def)
    then show "?P ?v" using step u step_main_inv [OF step _ assms(3)] by auto
  qed (use assms in auto)
  then show ?thesis by simp
qed

text \<open>poll reports nothing for a negative descriptor.\<close>

definition polled :: "((bool \<times> nat \<times> int) \<times> input option) list \<Rightarrow> bool" where
  "polled ps \<longleftrightarrow> (\<forall>((wr, i, fd), r) \<in> set ps. r \<noteq> None \<longrightarrow> 0 \<le> fd)"

lemma tab_entry: "tab_ok es \<Longrightarrow> i < length es \<Longrightarrow> fst (es ! i) = fd \<Longrightarrow> map_of es fd = Some (snd (es ! i))"
  by (auto simp: tab_ok_def map_of_eq_Some_iff)

lemma run_ready_step:
  assumes "run_ready (main_env file) (wr, i, fd) d s = Some t" "0 \<le> fd" "ev_ok (s_loop s)"
  shows "t = s \<or> bridge_step s t"
proof (cases "wr")
  case True
  then show ?thesis
    using assms tab_entry [of "ev_wfds (s_loop s)" i fd] bridge_step.Writable [OF assms(2)]
    by (auto simp: run_ready_def ev_ok_def Let_def split: if_splits)
next
  case False
  then show ?thesis
    using assms tab_entry [of "ev_fds (s_loop s)" i fd] bridge_step.Readable [OF assms(2)]
    by (auto simp: run_ready_def ev_ok_def Let_def split: if_splits)
qed

lemma run_all_ready_steps:
  assumes "run_all_ready (main_env file) ps s = Some t" "polled ps" "main_inv c s" "0 < c_keepalive_interval c"
  shows "bridge_step\<^sup>*\<^sup>* s t"
  using assms
proof (induction ps arbitrary: s)
  case (Cons p ps)
  obtain wr i fd r where p: "p = ((wr, i, fd), r)" by (metis surj_pair)
  have ps: "polled ps" using Cons.prems(2) by (simp add: polled_def p)
  have e: "ev_ok (s_loop s)" using Cons.prems(3) by (simp add: main_inv_def bridge_inv_def links_inv_def base_ok_def)
  show ?case
  proof (cases "r = None \<or> \<not> ev_running (s_loop s)")
    case True
    then show ?thesis using Cons.prems Cons.IH [OF _ ps] by (auto simp: p split: if_splits)
  next
    case False
    then obtain d where d: "r = Some d" by (cases r) auto
    then obtain u where u: "run_ready (main_env file) (wr, i, fd) d s = Some u" "run_all_ready (main_env file) ps u = Some t"
      using Cons.prems(1) False by (auto simp: p split: bind_splits)
    have "0 \<le> fd" using Cons.prems(2) by (simp add: polled_def p d)
    then have su: "u = s \<or> bridge_step s u" by (rule run_ready_step [OF u(1) _ e])
    then have "main_inv c u" using step_main_inv Cons.prems(3,4) by blast
    then have "bridge_step\<^sup>*\<^sup>* u t" by (rule Cons.IH [OF u(2) ps _ Cons.prems(4)])
    then show ?thesis using su by (auto intro: converse_rtranclp_into_rtranclp)
  qed
qed simp

lemma pass_steps:
  assumes "main_pass file now ready s = Some t" "main_inv c s" "0 < c_keepalive_interval c"
    and "polled (zip (pollset (reap_inactive (s_loop s))) ready)"
  shows "bridge_step\<^sup>*\<^sup>* s t"
proof -
  let ?r = "on_loop reap_inactive"
  let ?a = "(?r s)\<lparr>s_now := now\<rparr>"
  obtain b where b: "fire_expired (main_env file) now ?a = Some b"
      "run_all_ready (main_env file) (zip (pollset (reap_inactive (s_loop s))) ready) (?r b) = Some t"
    using assms(1) by (auto simp: main_pass_def ev_pass_def Let_def split: bind_splits)
  have one: "bridge_step s (?r s)" "bridge_step (?r s) ?a" "bridge_step b (?r b)"
    by (rule bridge_step.Reap bridge_step.Clock)+
  have "main_inv c ?a" using step_main_inv [OF one(2)] step_main_inv [OF one(1)] assms(2,3) by blast
  then have two: "bridge_step\<^sup>*\<^sup>* ?a b" "main_inv c b"
    using fire_expired_steps [OF b(1) _ assms(3)] by simp_all
  have "main_inv c (?r b)" by (rule step_main_inv [OF one(3) two(2) assms(3)])
  then have "bridge_step\<^sup>*\<^sup>* (?r b) t" by (rule run_all_ready_steps [OF b(2) assms(4) _ assms(3)])
  then show ?thesis using one two(1) by (meson converse_rtranclp_into_rtranclp rtranclp_trans)
qed

lemma reachable_steps: "bridge_step\<^sup>*\<^sup>* s t \<Longrightarrow> reachable c s \<Longrightarrow> reachable c t"
  by (induction rule: rtranclp_induct) (auto intro: reachable.Step)

section \<open>A pass returns\<close>

lemma run_all_ready_returns:
  assumes "fair_rand (s_rand s)" "n_link (s_cfg s) \<le> CFG_MAX_LINKS" "0 < c_keepalive_interval (s_cfg s)"
  shows "\<exists>t. run_all_ready (main_env file) ps s = Some t"
  using assms
proof (induction ps arbitrary: s)
  case (Cons p ps)
  obtain wr i fd r where p: "p = ((wr, i, fd), r)" by (metis surj_pair)
  show ?case
  proof (cases "\<not> ev_running (s_loop s) \<or> r = None")
    case True
    then show ?thesis using Cons by (auto simp: p)
  next
    case False
    then obtain d where d: "r = Some d" by (cases r) auto
    have "\<exists>u. run_ready (main_env file) (wr, i, fd) d s = Some u \<and> calm s u"
      using fd_returns [OF Cons.prems(1,2)] calm_fd [OF _ Cons.prems(3)] calm_refl [OF Cons.prems(3)]
      by (fastforce simp: run_ready_def Let_def)
    then obtain u where u: "run_ready (main_env file) (wr, i, fd) d s = Some u" "calm s u" by blast
    then have "\<exists>t. run_all_ready (main_env file) ps u = Some t"
      using Cons.prems by (intro Cons.IH) (simp_all add: calm_def)
    then show ?thesis using u False by (simp add: p d)
  qed
qed simp

lemma pass_returns:
  assumes "fair_rand (s_rand s)" "n_link (s_cfg s) \<le> CFG_MAX_LINKS" "0 < c_keepalive_interval (s_cfg s)"
  shows "\<exists>t. main_pass file now ready s = Some t"
proof -
  define ok where "ok u \<longleftrightarrow> s_now u = now \<and> s_rand u = s_rand s \<and> without_toggles (s_cfg u) = without_toggles (s_cfg s)" for u :: sys
  have k: "0 < c_keepalive_interval (s_cfg u)" "n_link (s_cfg u) \<le> CFG_MAX_LINKS" if "ok u" for u
    using that assms(2,3) same_shape [of "s_cfg u" "s_cfg s"] by (simp_all add: ok_def)
  let ?r = "on_loop reap_inactive"
  let ?a = "(?r s)\<lparr>s_now := now\<rparr>"
  have "\<exists>b. fire_expired (main_env file) now ?a = Some b \<and> ok b"
  proof (rule fire_expired_returns [where ok = ok])
    show "\<And>l s. get_loop (main_env file) (put_loop (main_env file) l s) = l" by (simp add: main_env_def)
    show "ok ?a" by (simp add: ok_def on_loop_def)
    show "ok u \<Longrightarrow> ok (map_loop (main_env file) (ev_timer_cancel h) u)" for h u by (simp add: ok_def on_loop_def)
    fix cb u assume o: "ok u"
    have "later u (run_timer_cb file cb u)" by (rule timer_later [OF k(1) [OF o]])
    then show "\<exists>v. run_timer (main_env file) cb u = Some v \<and> ok v \<and>
        due_count now (ev_timers (get_loop (main_env file) v)) \<le> due_count now (ev_timers (get_loop (main_env file) u))"
      using o by (simp add: later_def ok_def)
  qed
  then obtain b where b: "fire_expired (main_env file) now ?a = Some b" "ok b" by blast
  have "ok (?r b)" using b(2) by (simp add: ok_def on_loop_def)
  then have "\<exists>t. run_all_ready (main_env file) (zip (pollset (reap_inactive (s_loop s))) ready) (?r b) = Some t"
    using assms(1) k [of "?r b"] by (intro run_all_ready_returns) (simp_all add: ok_def)
  then show ?thesis using b(1) by (simp add: main_pass_def ev_pass_def Let_def)
qed

section \<open>Properties\<close>

lemma counting_is_fair: "fair_rand of_nat"
  unfolding fair_rand_def
proof (intro allI impI, elim conjE)
  fix n and A :: "u32 set"
  assume A: "finite A" "card A \<le> CFG_MAX_LINKS"
  have inj: "inj_on (of_nat :: nat \<Rightarrow> u32) {n..<n + 129}"
  proof (rule inj_onI)
    fix x y assume xy: "x \<in> {n..<n + 129}" "y \<in> {n..<n + 129}" "(of_nat x :: u32) = of_nat y"
    then have "(of_nat (x - n) :: u32) = of_nat (y - n)" by (simp add: of_nat_diff)
    then have "unat (of_nat (x - n) :: u32) = unat (of_nat (y - n) :: u32)" by simp
    moreover have "x - n < 4294967296" "y - n < 4294967296" using xy by auto
    ultimately have "x - n = y - n" by (simp add: unat_of_nat)
    then show "x = y" using xy by auto
  qed
  show "\<exists>k \<ge> n. (of_nat k :: u32) \<notin> A"
  proof (rule ccontr)
    assume "\<not> ?thesis"
    then have "(of_nat :: nat \<Rightarrow> u32) ` {n..<n + 129} \<subseteq> A" by auto
    then have "card ((of_nat :: nat \<Rightarrow> u32) ` {n..<n + 129}) \<le> card A" by (rule card_mono [OF A(1)])
    then show False using A(2) by (simp add: card_image [OF inj] CFG_MAX_LINKS_def)
  qed
qed

lemma started_rand: "main_start c sock rnd now wall = Running s \<Longrightarrow> 0 < c_keepalive_interval c \<Longrightarrow> s_rand s = rnd"
proof -
  assume a: "main_start c sock rnd now wall = Running s" and k: "0 < c_keepalive_interval c"
  let ?a = "(blank_sys c sock rnd)\<lparr>s_now := now, s_wall := wall\<rparr>"
  have "s_rand (foldl (\<lambda>s i. if o_enabled (peer_cfg s i) then bind_peer i s else s) w is) = s_rand w \<and>
     s_cfg (foldl (\<lambda>s i. if o_enabled (peer_cfg s i) then bind_peer i s else s) w is) = s_cfg w" for w "is"
    by (induction "is" arbitrary: w) (simp_all add: bind_peer_def next_sock_def on_loop_def Let_def)
  then have o: "s_rand (obp_mux_start ?a) = rnd" "s_cfg (obp_mux_start ?a) = c"
    by (simp_all add: obp_mux_start_def) (simp_all add: blank_sys_def)
  have "calm (obp_mux_start ?a) (snd (cccc_mux_start (obp_mux_start ?a)))"
    by (rule started_calm) (simp add: o k)
  then show "s_rand s = rnd"
    using a o(1) by (auto simp: main_start_def Let_def calm_def timer_after_def case_prod_beta on_loop_def split: if_splits)
qed

text \<open>
  A pass of the event loop in a reachable state, with whatever poll reports for the registered
  descriptors, is a sequence of the steps of the program, so every state between passes is
  reachable and has all the properties shown for reachable states.
\<close>

lemma pass_is_made_of_steps:
  assumes "valid_config c" "reachable c s" "main_pass file now ready s = Some t"
    and "polled (zip (pollset (reap_inactive (s_loop s))) ready)"
  shows "bridge_step\<^sup>*\<^sup>* s t \<and> reachable c t"
  using pass_steps [OF assms(3) reachable_main_inv [OF assms(2) valid_interval [OF assms(1)]] valid_interval [OF assms(1)] assms(4)]
    reachable_steps assms(2) by blast

text \<open>
  A pass of the event loop in a reachable state always returns.  No callback arms a timer that is
  already due, so firing the due timers ends, and the search for a free SSRC ends because at most
  128 numbers are in use; it needs a random source that does not draw from 128 numbers for ever.
\<close>

lemma pass_always_returns:
  assumes "valid_config c" "reachable c s" "fair_rand (s_rand s)"
  shows "\<exists>t. main_pass file now ready s = Some t"
proof (rule pass_returns [OF assms(3)])
  note sh = reachable_parts(7) [OF assms(1,2)]
  show "n_link (s_cfg s) \<le> CFG_MAX_LINKS" "0 < c_keepalive_interval (s_cfg s)"
    using same_shape [OF sh] assms(1) by (simp_all add: valid_config_def config_fits_def)
qed

lemma pass_always_returns_witness:
  "\<exists>s t. reachable demo_config s \<and> main_pass None 1 [] s = Some t"
proof -
  obtain s where s: "reachable demo_config s"
      "main_start demo_config (\<lambda>k. 10 + int k) (\<lambda>k. of_nat k) 0 (0, 0) = Running s" by (rule demo_running)
  have "fair_rand (s_rand s)" using counting_is_fair started_rand [OF s(2)] valid_interval [OF demo_config_valid] by simp
  then show ?thesis using pass_always_returns [OF demo_config_valid s(1)] s(1) by blast
qed

lemma pass_is_made_of_steps_witness:
  "\<exists>s t. reachable demo_config s \<and> main_pass None 1 [] s = Some t \<and> reachable demo_config t"
proof -
  obtain s where s: "reachable demo_config s"
      "main_start demo_config (\<lambda>k. 10 + int k) (\<lambda>k. of_nat k) 0 (0, 0) = Running s" by (rule demo_running)
  have k: "0 < c_keepalive_interval demo_config" "n_link demo_config \<le> CFG_MAX_LINKS" "s_cfg s = demo_config"
    using valid_interval [OF demo_config_valid] main_start_inv [OF s(2)] by (simp_all add: n_link_def demo_config_def CFG_MAX_LINKS_def)
  have "\<exists>t. main_pass None 1 [] s = Some t"
    using pass_returns [of s] counting_is_fair started_rand [OF s(2) k(1)] k by simp
  then show ?thesis
    using pass_is_made_of_steps [OF demo_config_valid s(1), of None 1 "[]"] s(1) by (auto simp: polled_def)
qed

end
