(* ===== verification/Heartbeat.thy ===== *)
theory Heartbeat
  imports Passes
begin

text \<open>
  The one-second tick as the heartbeat of the loop.  No handler cancels a timer that it does not hold
  the handle of, so the tick's timer stays armed while the loop runs, and it is due at most a tick
  interval after the present; and no handler arms a timer for the past.
\<close>

section \<open>Timers a handler leaves alone\<close>

text \<open>The timers with the handle \<open>h\<close> belong to no link and no pending connection.\<close>

definition apart :: "nat \<Rightarrow> sys \<Rightarrow> bool" where
  "apart h s \<longleftrightarrow> h < ev_next_id (s_loop s) \<and> (\<forall>cb. held s cb \<noteq> Some h)"

definition live :: "nat \<Rightarrow> sys \<Rightarrow> timer_cb ev_timer list" where
  "live h s = filter (\<lambda>t. t_active t \<and> t_id t = h) (ev_timers (s_loop s))"

definition future_only :: "rat \<Rightarrow> sys \<Rightarrow> sys \<Rightarrow> bool" where
  "future_only now s t \<longleftrightarrow>
     (\<forall>tm \<in> set (ev_timers (s_loop t)). t_active tm \<longrightarrow> tm \<in> set (ev_timers (s_loop s)) \<or> now \<le> t_when tm)"

definition spares :: "nat \<Rightarrow> sys \<Rightarrow> sys \<Rightarrow> bool" where
  "spares h s t \<longleftrightarrow> 0 < c_keepalive_interval (s_cfg s) \<and> s_cfg t = s_cfg s \<and> s_now t = s_now s \<and>
     apart h t \<and> live h t = live h s \<and> future_only (s_now s) s t"

named_theorems spare_rules \<open>a handler that has spared a timer goes on sparing it\<close>

lemma apart_fields:
  "apart h s \<longleftrightarrow> h < ev_next_id (s_loop s) \<and>
     (\<forall>i. lk_reconnect_timer (s_links s i) \<noteq> Some h \<and> lk_keepalive_timer (s_links s i) \<noteq> Some h) \<and>
     (\<forall>k. p_timeout_timer (s_pending s k) \<noteq> Some h)"
proof -
  have "(\<forall>cb. held s cb \<noteq> Some h) \<longleftrightarrow> (\<forall>i. held s (Reconnect_cb i) \<noteq> Some h \<and> held s (Keepalive_cb i) \<noteq> Some h) \<and>
      (\<forall>k. held s (Pending_timeout_cb k) \<noteq> Some h)"
    by (metis held.elims option.distinct(1))
  then show ?thesis by (simp add: apart_def)
qed

lemma spares_refl: "apart h s \<Longrightarrow> 0 < c_keepalive_interval (s_cfg s) \<Longrightarrow> spares h s s"
  by (simp add: spares_def future_only_def)

lemma spares_trans: "spares h s t \<Longrightarrow> spares h t u \<Longrightarrow> spares h s u"
  unfolding spares_def future_only_def by metis

lemma spares_same:
  assumes "spares h s t" "s_loop u = s_loop t" "s_cfg u = s_cfg t" "s_now u = s_now t" "apart h u"
  shows "spares h s u"
  using assms by (simp add: spares_def live_def future_only_def)

section \<open>Primitives\<close>

lemma spares_fields [spare_rules]:
  assumes "spares h s t"
  shows "spares h s (emit e t)" "spares h s (snd (next_sock t))" "spares h s (snd (next_rand t))" "spares h s (t\<lparr>s_nrand := k\<rparr>)"
    "spares h s (on_runtime i r t)"
  by (rule spares_same [OF assms]; use assms in \<open>simp add: access_defs spares_def apart_fields\<close>)+

lemma option_subset: "set_option a \<subseteq> set_option b \<Longrightarrow> a = Some x \<Longrightarrow> b = Some x"
  by (cases b) auto

lemma spares_link [spare_rules]:
  assumes "spares h s t" "\<forall>l. set_option (lk_reconnect_timer (f l)) \<subseteq> set_option (lk_reconnect_timer l)"
    and "\<forall>l. set_option (lk_keepalive_timer (f l)) \<subseteq> set_option (lk_keepalive_timer l)"
  shows "spares h s (on_link i f t)"
proof (rule spares_same [OF assms(1)])
  have "lk_reconnect_timer (f l) = Some h \<Longrightarrow> lk_reconnect_timer l = Some h"
    "lk_keepalive_timer (f l) = Some h \<Longrightarrow> lk_keepalive_timer l = Some h" for l
    by (rule option_subset [OF assms(2) [THEN spec]], assumption, rule option_subset [OF assms(3) [THEN spec]], assumption)
  then show "apart h (on_link i f t)" using assms(1) by (auto simp: spares_def apart_fields on_link_def)
qed (simp_all add: on_link_def)

lemma spares_pending [spare_rules]:
  assumes "spares h s t" "\<forall>p. set_option (p_timeout_timer (f p)) \<subseteq> set_option (p_timeout_timer p)"
  shows "spares h s (on_pending k f t)"
proof (rule spares_same [OF assms(1)])
  have "p_timeout_timer (f p) = Some h \<Longrightarrow> p_timeout_timer p = Some h" for p
    by (rule option_subset [OF assms(2) [THEN spec]])
  then show "apart h (on_pending k f t)" using assms(1) by (auto simp: spares_def apart_fields on_pending_def)
qed (simp_all add: on_pending_def)

lemma spares_tables [spare_rules]:
  assumes "spares h s t"
  shows "spares h s (on_loop (ev_add_fd fd cb) t)" "spares h s (on_loop (ev_del_fd fd) t)"
    "spares h s (on_loop (ev_add_fd_write fd cb) t)" "spares h s (on_loop (ev_del_fd_write fd) t)"
  using assms
  by (simp_all add: spares_def apart_fields live_def future_only_def on_loop_def ev_add_fd_def ev_del_fd_def
      ev_add_fd_write_def ev_del_fd_write_def)

lemma live_deactivate: "g \<noteq> h \<Longrightarrow> filter (\<lambda>t. t_active t \<and> t_id t = h) (deactivate g ts) = filter (\<lambda>t. t_active t \<and> t_id t = h) ts"
  by (induction ts) (auto simp: deactivate_def)

lemma spares_cancel:
  assumes "spares h s t" "g \<noteq> Some h"
  shows "spares h s (on_loop (ev_timer_cancel g) t)"
proof (cases g)
  case None
  then show ?thesis using assms(1) by (simp add: on_loop_def ev_timer_cancel_def)
next
  case (Some k)
  have "live h (on_loop (ev_timer_cancel g) t) = live h t"
    using assms(2) live_deactivate [of k h] by (simp add: live_def on_loop_def ev_timer_cancel_def Some)
  moreover have "future_only (s_now s) s (on_loop (ev_timer_cancel g) t)"
    using assms(1) by (auto simp: spares_def future_only_def on_loop_def ev_timer_cancel_def Some deactivate_def)
  ultimately show ?thesis
    using assms(1) by (simp add: spares_def apart_fields on_loop_def) (simp add: ev_timer_cancel_def Some)
qed

lemma spares_cancel_held [spare_rules]:
  assumes "spares h s t"
  shows "spares h s (on_loop (ev_timer_cancel (lk_reconnect_timer (s_links t i))) t)"
    "spares h s (on_loop (ev_timer_cancel (lk_keepalive_timer (s_links t i))) t)"
    "spares h s (on_loop (ev_timer_cancel (p_timeout_timer (s_pending t k))) t)"
  by (rule spares_cancel [OF assms], use assms in \<open>simp add: spares_def apart_fields\<close>)+

lemma spares_after:
  assumes "spares h s t" "0 \<le> d"
  shows "spares h s (snd (timer_after d cb t))" "fst (timer_after d cb t) \<noteq> h"
  using assms
  by (auto simp: spares_def apart_fields live_def future_only_def timer_after_def ev_timer_after_def ev_timer_at_def Let_def)

lemma spares_arm [spare_rules]:
  assumes "spares h s t" "0 \<le> d"
  shows "spares h s (on_link i (\<lambda>l. l\<lparr>lk_reconnect_timer := Some (fst (timer_after d cb t))\<rparr>) (snd (timer_after d cb t)))"
    "spares h s (on_link i (\<lambda>l. l\<lparr>lk_keepalive_timer := Some (fst (timer_after d cb t))\<rparr>) (snd (timer_after d cb t)))"
    "spares h s (on_pending k (\<lambda>p. p\<lparr>p_timeout_timer := Some (fst (timer_after d cb t))\<rparr>) (snd (timer_after d cb t)))"
proof -
  note a = spares_after [OF assms, of cb]
  have ap: "apart h (snd (timer_after d cb t))" using a(1) by (simp add: spares_def)
  show "spares h s (on_link i (\<lambda>l. l\<lparr>lk_reconnect_timer := Some (fst (timer_after d cb t))\<rparr>) (snd (timer_after d cb t)))"
    by (rule spares_same [OF a(1)]) (use ap a(2) in \<open>simp_all add: on_link_def apart_fields\<close>)
  show "spares h s (on_link i (\<lambda>l. l\<lparr>lk_keepalive_timer := Some (fst (timer_after d cb t))\<rparr>) (snd (timer_after d cb t)))"
    by (rule spares_same [OF a(1)]) (use ap a(2) in \<open>simp_all add: on_link_def apart_fields\<close>)
  show "spares h s (on_pending k (\<lambda>p. p\<lparr>p_timeout_timer := Some (fst (timer_after d cb t))\<rparr>) (snd (timer_after d cb t)))"
    by (rule spares_same [OF a(1)]) (use ap a(2) in \<open>simp_all add: on_pending_def apart_fields\<close>)
qed

lemma spares_call:
  assumes "spares h s t" "call_step i t u"
  shows "spares h s u"
proof (rule spares_same [OF assms(1)])
  note k = call_step_keeps [OF assms(2)]
  show "s_loop u = s_loop t" "s_cfg u = s_cfg t" "s_now u = s_now t" using k by simp_all
  show "apart h u" using assms(1) k by (simp add: spares_def apart_fields)
qed

lemma spares_foldl: "spares h s t \<Longrightarrow> (\<And>u x. spares h s u \<Longrightarrow> spares h s (f u x)) \<Longrightarrow> spares h s (foldl f t xs)"
  by (induction xs arbitrary: t) auto

section \<open>Handlers\<close>

lemma spares_translator [spare_rules]:
  assumes "spares h s t"
  shows "spares h s (translator_cccc_link_down i t)" "spares h s (translator_cccc_link_up i t)"
    "spares h s (translator_cccc_bon i r p t)" "spares h s (translator_cccc_boff i t)" "spares h s (translator_cccc_voice i a t)"
    "spares h s (tick_link t i)" "spares h s (translator_obp_dmrd_received q body t)"
proof -
  show "spares h s (translator_cccc_link_down i t)" "spares h s (translator_cccc_link_up i t)"
    by (rule spares_call [OF assms], rule call_step_up_down)+
  show "spares h s (translator_cccc_bon i r p t)" by (rule spares_call [OF assms call_step_bon])
  show "spares h s (translator_cccc_boff i t)"
    by (auto simp: translator_cccc_boff_def intro!: spares_call [OF assms] call_step_end call_step_refl)
  show "spares h s (translator_cccc_voice i a t)" by (rule spares_call [OF assms call_step_voice])
  show "spares h s (tick_link t i)" by (rule spares_call [OF assms call_step_tick])
  show "spares h s (translator_obp_dmrd_received q body t)"
    using assms by (auto simp: dmrd_by_route intro: spares_call call_step_frame split: option.split)
qed

lemma spares_sends [spare_rules]:
  "spares h s t \<Longrightarrow> spares h s (tcp_send i line t)" "spares h s t \<Longrightarrow> spares h s (udp_send_to_link i pkt t)"
  by (simp_all add: tcp_send_def udp_send_to_link_def Let_def spare_rules)

lemma spares_schedule [spare_rules]: "spares h s t \<Longrightarrow> spares h s (schedule_reconnect i t)"
  by (simp add: schedule_reconnect_def case_prod_beta RECONNECT_DELAY_S_def spare_rules)

lemma spares_cancels [spare_rules]:
  "spares h s t \<Longrightarrow> spares h s (cancel_keepalive i t)" "spares h s t \<Longrightarrow> spares h s (cancel_reconnect i t)"
  "spares h s t \<Longrightarrow> spares h s (close_link_fd i t)"
  by (simp_all add: cancel_keepalive_def cancel_reconnect_def close_link_fd_def Let_def spare_rules)

lemma spares_teardown [spare_rules]: "spares h s t \<Longrightarrow> spares h s (teardown_link_connection i t)"
  by (simp add: teardown_link_connection_def Let_def spare_rules)

lemma spares_connect [spare_rules]: "spares h s t \<Longrightarrow> spares h s (start_outbound_connect i t)"
  by (simp add: start_outbound_connect_def case_prod_beta Let_def spare_rules)

lemma spares_reconnect [spare_rules]: "spares h s t \<Longrightarrow> spares h s (reconnect_cb i t)"
  by (simp add: reconnect_cb_def Let_def spare_rules)

lemma spares_rearm [spare_rules]:
  assumes "spares h s t"
  shows "spares h s (rearm_keepalive i t)" "spares h s (arm_keepalive i t)"
proof -
  have *: "spares h s (rearm_keepalive i u)" if "spares h s u" for u
    using that spares_def [of h s u] by (simp add: rearm_keepalive_def case_prod_beta spare_rules)
  show "spares h s (rearm_keepalive i t)" "spares h s (arm_keepalive i t)"
    using * assms by (simp_all add: arm_keepalive_def spare_rules)
qed

lemma spares_keepalive [spare_rules]: "spares h s t \<Longrightarrow> spares h s (keepalive_cb i t)"
  by (simp add: keepalive_cb_def Let_def spare_rules)

lemma spares_lines [spare_rules]:
  "spares h s t \<Longrightarrow> spares h s (finish_outbound_handshake i t)"
  "spares h s t \<Longrightarrow> spares h s (dispatch_established_line i line t)"
  by (auto simp: finish_outbound_handshake_def dispatch_established_line_def Let_def spare_rules split: option.split)

lemma spares_line [spare_rules]: "spares h s t \<Longrightarrow> spares h s (link_on_line i line t)"
  by (simp add: link_on_line_def Let_def spare_rules)

lemma spares_feed:
  assumes "spares h s t" "\<And>u line. spares h s u \<Longrightarrow> spares h s (cb line u)" "\<And>u buf. spares h s u \<Longrightarrow> spares h s (put buf u)"
    and "0 < cap"
  shows "spares h s (feed_bytes get put cap cb bs t)"
  by (rule feed_keeps [where P = "spares h s"]) (use assms in auto)

lemma spares_tcp [spare_rules]: "spares h s t \<Longrightarrow> spares h s (on_link_tcp_readable i inp t)"
  by (auto simp: on_link_tcp_readable_def feed_link_def RXBUF_CAP_def spare_rules intro!: spares_feed split: input.split)

lemma spares_writable:
  assumes "spares h s t" "on_connect_writable i fd inp t = Some u"
  shows "spares h s u"
proof (cases "inp = In_sockerr 0")
  case False
  then show ?thesis using assms by (auto simp: on_connect_writable_def Let_def spare_rules split: if_splits)
next
  case True
  then show ?thesis
    using assms
    by (auto simp: on_connect_writable_def Let_def split: bind_splits dest!: mint_Some intro!: spare_rules)
qed

lemma spares_free [spare_rules]: "spares h s t \<Longrightarrow> spares h s (free_pending k b t)"
  by (simp add: free_pending_def Let_def spare_rules)

lemma spares_pending_timeout [spare_rules]: "spares h s t \<Longrightarrow> spares h s (pending_timeout_cb k t)"
  by (simp add: pending_timeout_cb_def spare_rules)

lemma spares_accept [spare_rules]: "spares h s t \<Longrightarrow> spares h s (accept_question k i v t)"
  by (simp add: accept_question_def Let_def spare_rules)

lemma spares_question [spare_rules]: "spares h s t \<Longrightarrow> spares h s (handle_question_complete k t)"
  by (auto simp: handle_question_complete_def Let_def spare_rules split: option.split)

lemma spares_pending_line [spare_rules]: "spares h s t \<Longrightarrow> spares h s (pending_on_line k line t)"
  by (simp add: pending_on_line_def Let_def spare_rules)

lemma spares_pending_readable [spare_rules]: "spares h s t \<Longrightarrow> spares h s (on_pending_readable k inp t)"
  by (auto simp: on_pending_readable_def feed_pending_def RXBUF_CAP_def spare_rules intro!: spares_feed split: input.split)

lemma spares_accept_connection [spare_rules]: "spares h s t \<Longrightarrow> spares h s (accept_connection t x)"
  by (auto simp: accept_connection_def case_prod_beta Let_def PENDING_TIMEOUT_S_def zero_pending_def spare_rules
      split: option.split)

lemma spares_shared [spare_rules]:
  "spares h s t \<Longrightarrow> spares h s (on_listen_readable inp t)" "spares h s t \<Longrightarrow> spares h s (on_voice_readable fd inp t)"
  "spares h s t \<Longrightarrow> spares h s (on_trial_readable fd inp t)" "spares h s t \<Longrightarrow> spares h s (on_obp_readable idx inp t)"
  by (auto simp: on_listen_readable_def on_voice_readable_def on_trial_readable_def on_obp_readable_def Let_def
      spare_rules intro: spares_foldl split: input.split option.split)

lemma spares_reconcile_link [spare_rules]: "spares h s t \<Longrightarrow> spares h s (reconcile_link t i)"
  by (simp add: reconcile_link_def Let_def spare_rules)

lemma spares_muxes [spare_rules]: "spares h s t \<Longrightarrow> spares h s (cccc_mux_reconcile t)" "spares h s t \<Longrightarrow> spares h s (translator_tick t)"
  by (simp_all add: cccc_mux_reconcile_def translator_tick_def spares_foldl spare_rules)

lemma spares_fd: "run_fd_cb cb fd inp s = Some t \<Longrightarrow> spares h s s \<Longrightarrow> spares h s t"
  by (cases cb) (auto simp: spare_rules intro: spares_writable)

section \<open>The tick stays armed\<close>

definition tick_by :: "rat \<Rightarrow> sys \<Rightarrow> bool" where
  "tick_by d s \<longleftrightarrow> (\<exists>tm \<in> set (ev_timers (s_loop s)). t_active tm \<and> t_cb tm = Tick_cb \<and> t_when tm \<le> d)"

definition no_past :: "sys \<Rightarrow> bool" where
  "no_past s \<longleftrightarrow> (\<forall>tm \<in> set (ev_timers (s_loop s)). t_active tm \<longrightarrow> 0 \<le> t_when tm)"

lemma no_past_future: "no_past s \<Longrightarrow> 0 \<le> now \<Longrightarrow> future_only now s t \<Longrightarrow> no_past t"
  by (fastforce simp: no_past_def future_only_def)

lemma tick_apart:
  assumes "bridge_inv s" "tm \<in> set (ev_timers (s_loop s))" "t_active tm" "t_cb tm = Tick_cb"
  shows "apart (t_id tm) s"
proof -
  have b: "ev_ok (s_loop s)" "timers_match s" using assms(1) by (simp_all add: bridge_inv_def links_inv_def base_ok_def)
  have h: "t_id tm \<in> armed s Tick_cb" using assms(2-4) by (auto simp: armed_def)
  have "held s cb \<noteq> Some (t_id tm)" for cb
  proof (cases "cb = Tick_cb")
    case False
    then have "t_id tm \<notin> armed s cb" using armed_unique [OF b(1) h, of cb] by auto
    then show ?thesis using b(2) False by (auto simp: timers_match_def)
  qed simp
  then show ?thesis using b(1) assms(2) by (simp add: apart_def ev_ok_def)
qed

lemma spares_tick:
  assumes "spares (t_id tm) s t" "tm \<in> set (ev_timers (s_loop s))" "t_active tm" "t_cb tm = Tick_cb" "t_when tm \<le> d"
  shows "tick_by d t"
proof -
  have "tm \<in> set (live (t_id tm) s)" using assms(2,3) by (simp add: live_def)
  then have "tm \<in> set (live (t_id tm) t)" using assms(1) by (simp add: spares_def)
  then show ?thesis using assms(3-5) by (auto simp: tick_by_def live_def)
qed

lemma spared_beats:
  assumes "bridge_inv s" "0 < c_keepalive_interval (s_cfg s)" "tick_by d s" "no_past s" "0 \<le> s_now s"
    and "\<And>h. h \<in> armed s Tick_cb \<Longrightarrow> spares h s s \<Longrightarrow> spares h s t"
  shows "tick_by d t \<and> no_past t"
proof -
  obtain tm where tm: "tm \<in> set (ev_timers (s_loop s))" "t_active tm" "t_cb tm = Tick_cb" "t_when tm \<le> d"
    using assms(3) by (auto simp: tick_by_def)
  have "spares (t_id tm) s s" by (rule spares_refl [OF tick_apart [OF assms(1) tm(1-3)] assms(2)])
  moreover have "t_id tm \<in> armed s Tick_cb" using tm by (auto simp: armed_def)
  ultimately have sp: "spares (t_id tm) s t" by (rule assms(6) [rotated])
  show ?thesis
    using spares_tick [OF sp tm] no_past_future [OF assms(4,5), of t] sp by (simp add: spares_def)
qed

text \<open>What the tick does before it arms itself again, or stops the loop.\<close>

definition tick_work :: "string option \<Rightarrow> sys \<Rightarrow> sys" where
  "tick_work file s = (let s = translator_tick s in
     if s_reload_requested s then do_reload file (s\<lparr>s_reload_requested := False\<rparr>) else s)"

lemma tick_by_work:
  "tick_cb file s = (if s_shutdown_requested (tick_work file s) then on_loop ev_stop (tick_work file s)
     else snd (timer_after TICK_INTERVAL_S Tick_cb (tick_work file s)))"
  by (simp add: tick_cb_def tick_work_def Let_def)

lemma obp_reconcile_shutdown: "s_shutdown_requested (obp_mux_reconcile s) = s_shutdown_requested s"
proof -
  have "s_shutdown_requested (foldl obp_reconcile_peer s is) = s_shutdown_requested s" for "is"
    by (induction "is" arbitrary: s)
       (simp_all add: obp_reconcile_peer_def bind_peer_def unbind_peer_def next_sock_def on_loop_def emit_def Let_def)
  then show ?thesis by (simp add: obp_mux_reconcile_def)
qed

lemma reload_beats:
  assumes "apart h s" "0 < c_keepalive_interval (s_cfg s)"
  shows "future_only (s_now s) s (do_reload file s) \<and> s_shutdown_requested (do_reload file s) = s_shutdown_requested s"
proof (cases "config_reload_toggles file (s_cfg s)")
  case (Inr c)
  let ?u = "s\<lparr>s_cfg := c\<rparr>"
  have k: "0 < c_keepalive_interval c"
    using Inr without_toggles_apply assms(2) same_shape(1) [of c "s_cfg s"]
    by (auto simp: config_reload_toggles_def split: sum.splits)
  have "spares h ?u (cccc_mux_reconcile ?u)"
    by (intro spare_rules spares_refl) (use assms(1) k in \<open>simp_all add: apart_fields\<close>)
  moreover have "calm ?u (cccc_mux_reconcile ?u)" using k by (intro calm_rules calm_refl) simp
  ultimately show ?thesis
    using obp_reconcile_quiet [of "cccc_mux_reconcile ?u"]
    by (simp add: do_reload_def Inr obp_reconcile_shutdown spares_def calm_def future_only_def)
qed (simp add: do_reload_def future_only_def)

lemma tick_work_beats:
  assumes "apart h s" "0 < c_keepalive_interval (s_cfg s)"
  shows "future_only (s_now s) s (tick_work file s) \<and> s_now (tick_work file s) = s_now s \<and>
    s_shutdown_requested (tick_work file s) = s_shutdown_requested s"
proof -
  define u where "u = translator_tick s"
  let ?v = "u\<lparr>s_reload_requested := False\<rparr>"
  have u: "spares h s u" "calm s u" unfolding u_def by (intro spare_rules spares_refl calm_rules calm_refl assms)+
  then have v: "apart h ?v" "0 < c_keepalive_interval (s_cfg ?v)" using assms(2) by (simp_all add: spares_def apart_fields)
  have "future_only (s_now s) u (do_reload file ?v)" "s_shutdown_requested (do_reload file ?v) = s_shutdown_requested s"
    using reload_beats [OF v, of "file"] u by (simp_all add: spares_def calm_def future_only_def)
  moreover have "s_now (do_reload file ?v) = s_now s"
    using reload_later [OF v(2), of "file"] u(2) by (simp add: later_def calm_def)
  ultimately show ?thesis
    using u by (auto simp: tick_work_def u_def [symmetric] Let_def spares_def calm_def future_only_def)
qed

section \<open>Callbacks and passes\<close>

text \<open>
  The state of a running loop at the time \<open>now\<close>: the tick is due by \<open>d\<close> and nothing is armed for the
  past; \<open>stop\<close> says that the stop has been asked for, and if not, the tick can be armed again by \<open>d\<close>.
\<close>

definition beats :: "config \<Rightarrow> rat \<Rightarrow> rat \<Rightarrow> bool \<Rightarrow> sys \<Rightarrow> bool" where
  "beats c now d stop s \<longleftrightarrow> 0 < c_keepalive_interval c \<and> 0 \<le> now \<and> (stop \<or> now + TICK_INTERVAL_S \<le> d) \<and>
     main_inv c s \<and> s_now s = now \<and> (stop \<longrightarrow> s_shutdown_requested s) \<and>
     (ev_running (s_loop s) \<longrightarrow> tick_by d s \<and> no_past s)"

lemma beats_parts:
  assumes "beats c now d stop s"
  shows "bridge_inv s" "0 < c_keepalive_interval (s_cfg s)" "0 \<le> s_now s" "main_inv c s" "0 < c_keepalive_interval c"
    "0 \<le> now" "stop \<or> now + TICK_INTERVAL_S \<le> d"
  using assms same_shape(1) [of "s_cfg s" c] by (auto simp: beats_def main_inv_def)

lemma timer_beats:
  assumes "beats c now d stop s" "ev_running (s_loop s)" "tm \<in> set (ev_timers (s_loop s))" "t_active tm" "t_when tm \<le> now"
  shows "beats c now d stop (run_timer_cb file (t_cb tm) (fired (t_id tm) s))"
proof -
  let ?f = "fired (t_id tm) s" and ?t = "run_timer_cb file (t_cb tm) (fired (t_id tm) s)"
  note b = beats_parts [OF assms(1)]
  have e: "ev_ok (s_loop s)" using b(1) by (simp add: bridge_inv_def links_inv_def base_ok_def)
  have s: "tick_by d s" "no_past s" "s_now s = now" "stop \<longrightarrow> s_shutdown_requested s"
    using assms(1,2) by (simp_all add: beats_def)
  have "bridge_step s ?t" by (rule bridge_step.Timer) (use assms(3-5) s(3) in simp_all)
  then have inv: "main_inv c ?t" using step_main_inv b(4,5) by blast
  have "calm s ?f" by (intro calm_rules calm_refl b)
  then have f: "s_now ?f = now" "0 < c_keepalive_interval (s_cfg ?f)" "s_shutdown_requested ?f = s_shutdown_requested s"
    using s(3) by (simp_all add: calm_def)
  show ?thesis
  proof (cases "t_cb tm = Tick_cb")
    case True
    let ?w = "tick_work file ?f"
    have "apart (t_id tm) ?f"
      using tick_apart [OF b(1) assms(3,4) True]
      by (simp add: apart_fields fired_def on_loop_def ev_timer_cancel_def)
    then have w: "future_only now ?f ?w" "s_now ?w = now" "s_shutdown_requested ?w = s_shutdown_requested s"
      using tick_work_beats [of "t_id tm" ?f "file"] f by simp_all
    have "no_past ?f"
      using s(2) by (auto simp: no_past_def fired_def on_loop_def ev_timer_cancel_def deactivate_def)
    then have n: "no_past ?w" using no_past_future b(6) w(1) by blast
    show ?thesis
    proof (cases "s_shutdown_requested ?w")
      case True
      then show ?thesis using inv w s(4) b(5-7) \<open>t_cb tm = Tick_cb\<close>
        by (simp add: beats_def tick_by_work) (simp add: on_loop_def ev_stop_def)
    next
      case False
      then have "now + TICK_INTERVAL_S \<le> d" using b(7) s(4) w(3) by auto
      then show ?thesis using inv w s(4) b(5-7) \<open>t_cb tm = Tick_cb\<close> False n
        by (simp add: beats_def tick_by_work tick_by_def no_past_def)
           (simp add: timer_after_def ev_timer_after_def ev_timer_at_def TICK_INTERVAL_S_def)
    qed
  next
    case False
    have c: "calm s ?t" using b(2) False by (cases "t_cb tm") (simp_all add: calm_rules calm_refl)
    have "tick_by d ?t \<and> no_past ?t"
    proof (rule spared_beats [OF b(1,2) s(1,2) b(3)])
      fix h assume h: "h \<in> armed s Tick_cb" and sp: "spares h s s"
      have "t_id tm \<in> armed s (t_cb tm)" using assms(3,4) by (auto simp: armed_def)
      then have "Some (t_id tm) \<noteq> Some h" using armed_unique [OF e h, of "t_cb tm"] False by auto
      then have "spares h s ?f" unfolding fired_def by (rule spares_cancel [OF sp])
      then show "spares h s ?t" using False by (cases "t_cb tm") (simp_all add: spare_rules)
    qed
    then show ?thesis using inv c s(3,4) b(5-7) by (simp add: beats_def calm_def)
  qed
qed

lemma fd_beats:
  assumes "beats c now d stop s" "ev_running (s_loop s)" "bridge_step s t" "run_fd_cb cb fd inp s = Some t"
  shows "beats c now d stop t"
proof -
  note b = beats_parts [OF assms(1)]
  have s: "tick_by d s" "no_past s" "s_now s = now" "stop \<longrightarrow> s_shutdown_requested s"
    using assms(1,2) by (simp_all add: beats_def)
  have "tick_by d t \<and> no_past t"
    by (rule spared_beats [OF b(1,2) s(1,2) b(3)]) (rule spares_fd [OF assms(4)])
  moreover have "calm s t" by (rule calm_fd [OF assms(4) b(2)])
  moreover have "main_inv c t" using step_main_inv assms(3) b(4,5) by blast
  ultimately show ?thesis using s(3,4) b(5-7) by (simp add: beats_def calm_def)
qed

lemma reap_beats:
  assumes "beats c now d stop s"
  shows "beats c now d stop (on_loop reap_inactive s)"
proof -
  have "main_inv c (on_loop reap_inactive s)"
    by (rule step_main_inv [OF bridge_step.Reap beats_parts(4,5) [OF assms]])
  then show ?thesis using assms by (auto simp: beats_def tick_by_def no_past_def on_loop_def reap_inactive_def)
qed

end
