(* ===== verification/Main_Run.thy ===== *)
theory Main_Run
  imports Heartbeat
begin

text \<open>
  The whole run of the program: \<open>ev_run\<close> with the results of poll as its input, and \<open>main\<close> from the
  command line to its exit status.  A run always returns and stays in the reachable states; poll is
  never asked to wait longer than a tick; and after SIGTERM the program ends.
\<close>

section \<open>The loop\<close>

text \<open>
  What has happened by the time poll returns: the clocks, the signals that have arrived, and what the
  configuration file holds from then on.  \<open>poll\<close> fails, is interrupted by a signal, or reports what
  there is to read for the entries of its set; it reports nothing for a negative descriptor.
\<close>

record moment =
  w_now :: rat
  w_wall :: "int \<times> int"
  w_file :: "string option"
  w_sighup :: bool
  w_sigterm :: bool

datatype poll_result = Poll_failed | Poll_eintr | Poll_ready "input option list"

definition signals :: "moment \<Rightarrow> sys \<Rightarrow> sys" where
  "signals w s =
     (let s = s\<lparr>s_wall := w_wall w\<rparr>;
          s = (if w_sighup w then on_sighup s else s)
      in if w_sigterm w then on_sigterm s else s)"

definition poll_reports :: "(bool \<times> nat \<times> int) list \<Rightarrow> input option list \<Rightarrow> input option list" where
  "poll_reports ps ready = map2 (\<lambda>(wr, i, fd) r. if 0 \<le> fd then r else None) ps ready"

text \<open>
  \<open>ev_run\<close> on a list of poll results: it has returned, or it is back in poll when the list ends.  The
  signals change flags that nothing before the callbacks reads, so they come first.
\<close>

datatype run_end = Polling sys | Returned sys

fun ev_run :: "(moment \<times> poll_result) list \<Rightarrow> sys \<Rightarrow> run_end option" where
  "ev_run [] s = Some (if ev_running (s_loop s) then Polling s else Returned s)"
| "ev_run ((w, r) # polls) s =
     (if \<not> ev_running (s_loop s) then Some (Returned s)
      else let s = signals w s in
        case r of
          Poll_failed \<Rightarrow> Some (Returned ((on_loop reap_inactive s)\<lparr>s_now := w_now w\<rparr>))
        | Poll_eintr \<Rightarrow> ev_run polls ((on_loop reap_inactive s)\<lparr>s_now := w_now w\<rparr>)
        | Poll_ready ready \<Rightarrow>
            do { s \<leftarrow> main_pass (w_file w) (w_now w) (poll_reports (pollset (reap_inactive (s_loop s))) ready) s;
                 ev_run polls s })"

section \<open>The program\<close>

text \<open>Refused with an exit status, waiting in poll, or ended with exit status 0.\<close>

datatype progress = Refused nat last_words | Waiting sys | Stopped sys

definition main_program ::
  "(string \<Rightarrow> string option) \<Rightarrow> string list \<Rightarrow> (nat \<Rightarrow> int) \<Rightarrow> (nat \<Rightarrow> u32) \<Rightarrow> rat \<Rightarrow> int \<times> int \<Rightarrow>
   (moment \<times> poll_result) list \<Rightarrow> progress option" where
  "main_program files args sock rnd now wall polls =
     (case main_entry files args sock rnd now wall of
        Exit code w \<Rightarrow> Some (Refused code w)
      | Running s \<Rightarrow>
          do { e \<leftarrow> ev_run polls s;
               Some (case e of Polling s \<Rightarrow> Waiting s | Returned s \<Rightarrow> Stopped (main_stop s)) })"

section \<open>Passes keep the beat\<close>

lemma run_all_ready_beats:
  assumes "run_all_ready (main_env file) ps s = Some t" "polled ps" "beats c now d stop s"
  shows "beats c now d stop t \<and> (\<not> ev_running (s_loop s) \<longrightarrow> t = s)"
  using assms
proof (induction ps arbitrary: s)
  case (Cons p ps)
  obtain wr i fd r where p: "p = ((wr, i, fd), r)" by (metis surj_pair)
  have ps: "polled ps" using Cons.prems(2) by (simp add: polled_def p)
  show ?case
  proof (cases "r = None \<or> \<not> ev_running (s_loop s)")
    case True
    then show ?thesis using Cons.prems Cons.IH [OF _ ps] by (auto simp: p split: if_splits)
  next
    case False
    then obtain x where x: "r = Some x" by (cases r) auto
    then obtain u where u: "run_ready (main_env file) (wr, i, fd) x s = Some u" "run_all_ready (main_env file) ps u = Some t"
      using Cons.prems(1) False by (auto simp: p split: bind_splits)
    have e: "ev_ok (s_loop s)"
      using beats_parts(1) [OF Cons.prems(3)] by (simp add: bridge_inv_def links_inv_def base_ok_def)
    have "0 \<le> fd" using Cons.prems(2) by (simp add: polled_def p x)
    then have su: "u = s \<or> bridge_step s u" by (rule run_ready_step [OF u(1) _ e])
    have cb: "u = s \<or> (\<exists>cb. run_fd_cb cb fd x s = Some u)" using u(1) by (auto simp: run_ready_def Let_def split: if_splits)
    have "beats c now d stop u"
      using su cb fd_beats [OF Cons.prems(3)] False Cons.prems(3) by blast
    then show ?thesis using Cons.IH [OF u(2) ps] False by blast
  qed
qed simp

lemma polled_reports: "polled (zip ps (poll_reports ps ready))"
proof -
  have "r \<noteq> None \<longrightarrow> 0 \<le> fd" if m: "((wr, i, fd), r) \<in> set (zip ps (poll_reports ps ready))" for wr i fd r
  proof -
    from m obtain k where k: "k < length ps" "k < length ready" "ps ! k = (wr, i, fd)" "poll_reports ps ready ! k = r"
      by (auto simp: in_set_zip poll_reports_def)
    then have "r = (if 0 \<le> fd then ready ! k else None)" by (simp add: poll_reports_def)
    then show ?thesis by simp
  qed
  then show ?thesis by (auto simp: polled_def)
qed

lemma pass_beats:
  assumes "main_pass file now ready s = Some t" "polled (zip (pollset (reap_inactive (s_loop s))) ready)"
    and "beats c now d stop (s\<lparr>s_now := now\<rparr>)" "ev_running (s_loop s)"
  shows "beats c now d stop t \<and> (stop \<and> d \<le> now \<longrightarrow> \<not> ev_running (s_loop t))"
proof -
  let ?r = "on_loop reap_inactive"
  let ?a = "(?r s)\<lparr>s_now := now\<rparr>"
  obtain b where b: "fire_expired (main_env file) now ?a = Some b"
      "run_all_ready (main_env file) (zip (pollset (reap_inactive (s_loop s))) ready) (?r b) = Some t"
    using assms(1) by (auto simp: main_pass_def ev_pass_def Let_def split: bind_splits)
  have eq: "?r (s\<lparr>s_now := now\<rparr>) = ?a" by (simp add: on_loop_def)
  have a: "beats c now d stop ?a \<and> ev_running (s_loop ?a)"
    using reap_beats [OF assms(3), unfolded eq] assms(4) by (simp add: on_loop_def) (simp add: reap_inactive_def)
  have bb: "beats c now d stop b"
  proof (rule fire_expired_keeps [where P = "\<lambda>u. beats c now d stop u \<and> ev_running (s_loop u)", OF b(1) a])
    show "beats c now d stop (run_timer_cb file (t_cb tm) (fired (t_id tm) u))"
      if "beats c now d stop u \<and> ev_running (s_loop u)" "pick_due now (ev_timers (s_loop u)) = Some tm" for u tm
      by (rule timer_beats) (use that pick_due_SomeD [OF that(2)] in simp_all)
  qed simp_all
  have "\<not> ev_running (s_loop b)" if "d \<le> now"
  proof
    assume run: "ev_running (s_loop b)"
    then obtain tm where "tm \<in> set (ev_timers (s_loop b))" "t_active tm" "t_when tm \<le> d"
      using bb by (auto simp: beats_def tick_by_def)
    moreover have "pick_due now (ev_timers (s_loop b)) = None" using fire_expired_done [OF b(1)] run by simp
    ultimately show False using that by (auto simp: pick_due_None)
  qed
  moreover have "ev_running (s_loop (?r b)) = ev_running (s_loop b)" by (simp add: on_loop_def reap_inactive_def)
  ultimately show ?thesis
    using run_all_ready_beats [OF b(2) assms(2) reap_beats [OF bb]] by auto
qed

section \<open>Runs\<close>

fun run_state :: "run_end \<Rightarrow> sys" where
  "run_state (Polling s) = s"
| "run_state (Returned s) = s"

lemma ev_run_Cons:
  "ev_run (x # polls) s =
     do { e \<leftarrow> ev_run [x] s; (case e of Returned t \<Rightarrow> Some (Returned t) | Polling t \<Rightarrow> ev_run polls t) }"
proof -
  have stopped: "ev_run polls u = Some (Returned u)" if "\<not> ev_running (s_loop u)" for u
    using that by (cases polls) auto
  obtain w r where x: "x = (w, r)" by (cases x)
  show ?thesis by (cases r) (auto simp: x Let_def stopped on_loop_def split: bind_split)
qed

lemma ev_run_append:
  "ev_run (xs @ ys) s =
     do { e \<leftarrow> ev_run xs s; (case e of Returned t \<Rightarrow> Some (Returned t) | Polling t \<Rightarrow> ev_run ys t) }"
proof (induction xs arbitrary: s)
  case Nil
  have "ev_run ys s = Some (Returned s)" if "\<not> ev_running (s_loop s)" using that by (cases ys) auto
  then show ?case by simp
next
  case (Cons x xs)
  then show ?case
    by (simp add: ev_run_Cons [of x "xs @ ys"] ev_run_Cons [of x xs]) (auto split: bind_split run_end.split)
qed

lemma signals_steps: "bridge_step\<^sup>*\<^sup>* s (signals w s)"
proof -
  let ?a = "s\<lparr>s_wall := w_wall w\<rparr>"
  let ?b = "if w_sighup w then on_sighup ?a else ?a"
  have "bridge_step s ?a" "bridge_step\<^sup>*\<^sup>* ?a ?b" by (auto intro: bridge_step.Wall bridge_step.Sighup)
  moreover have "bridge_step\<^sup>*\<^sup>* ?b (signals w s)"
    by (auto simp: signals_def Let_def intro: bridge_step.Sigterm)
  ultimately show ?thesis by (meson converse_rtranclp_into_rtranclp rtranclp_trans)
qed

lemma signals_fields [simp]:
  "s_loop (signals w s) = s_loop s" "s_rand (signals w s) = s_rand s" "s_cfg (signals w s) = s_cfg s"
  "s_shutdown_requested (signals w s) = (w_sigterm w \<or> s_shutdown_requested s)"
  by (simp_all add: signals_def on_sighup_def on_sigterm_def Let_def)

lemma step_rand:
  assumes "bridge_step s t" "main_inv c s" "0 < c_keepalive_interval c"
  shows "s_rand t = s_rand s"
proof -
  have k: "0 < c_keepalive_interval (s_cfg s)"
    using assms(2,3) same_shape(1) [of "s_cfg s" c] by (simp add: main_inv_def)
  show ?thesis
    using assms(1)
  proof cases
    case (Timer tm f)
    then show ?thesis
      using timer_later [of "fired (t_id tm) s" f "t_cb tm"] k by (simp add: later_def fired_def on_loop_def)
  qed (use calm_fd [OF _ k] in \<open>auto simp: calm_def on_loop_def on_sighup_def on_sigterm_def\<close>)
qed

lemma steps_main_inv:
  assumes "bridge_step\<^sup>*\<^sup>* s t" "main_inv c s" "0 < c_keepalive_interval c"
  shows "main_inv c t \<and> s_rand t = s_rand s"
  using assms(1) by induction (use assms(2,3) step_main_inv step_rand in auto)

text \<open>One turn of the loop.\<close>

lemma turn_returns:
  assumes "main_inv c s" "0 < c_keepalive_interval c" "n_link c \<le> CFG_MAX_LINKS" "fair_rand (s_rand s)"
  shows "\<exists>e. ev_run [x] s = Some e \<and> bridge_step\<^sup>*\<^sup>* s (run_state e)"
proof -
  obtain w r where x: "x = (w, r)" by (cases x)
  let ?u = "signals w s"
  let ?v = "(on_loop reap_inactive ?u)\<lparr>s_now := w_now w\<rparr>"
  have "bridge_step ?u (on_loop reap_inactive ?u)" "bridge_step (on_loop reap_inactive ?u) ?v"
    by (rule bridge_step.Reap bridge_step.Clock)+
  then have v: "bridge_step\<^sup>*\<^sup>* s ?v" using signals_steps by (meson rtranclp.rtrancl_into_rtrancl)
  have u: "main_inv c ?u" using steps_main_inv [OF signals_steps assms(1,2)] by simp
  have k: "0 < c_keepalive_interval (s_cfg s)" "n_link (s_cfg s) \<le> CFG_MAX_LINKS"
    using assms same_shape [of "s_cfg s" c] by (simp_all add: main_inv_def)
  show ?thesis
  proof (cases r)
    case (Poll_ready ready)
    let ?ready = "poll_reports (pollset (reap_inactive (s_loop s))) ready"
    obtain t where t: "main_pass (w_file w) (w_now w) ?ready ?u = Some t"
      using pass_returns [of ?u "w_file w" "w_now w" ?ready] assms(4) k by auto
    have "bridge_step\<^sup>*\<^sup>* ?u t" by (rule pass_steps [OF t u assms(2)]) (simp add: polled_reports)
    then have "bridge_step\<^sup>*\<^sup>* s t" using signals_steps by (meson rtranclp_trans)
    then show ?thesis using t by (simp add: x Poll_ready Let_def)
  qed (use v in \<open>auto simp: x Let_def\<close>)
qed

lemma run_returns:
  assumes "main_inv c s" "0 < c_keepalive_interval c" "n_link c \<le> CFG_MAX_LINKS" "fair_rand (s_rand s)"
  shows "\<exists>e. ev_run polls s = Some e \<and> bridge_step\<^sup>*\<^sup>* s (run_state e)"
  using assms
proof (induction polls arbitrary: s)
  case (Cons x polls)
  obtain e where e: "ev_run [x] s = Some e" "bridge_step\<^sup>*\<^sup>* s (run_state e)" using turn_returns [OF Cons.prems] by blast
  show ?case
  proof (cases e)
    case (Polling t)
    then have t: "main_inv c t" "s_rand t = s_rand s" using steps_main_inv e(2) Cons.prems(1,2) by auto
    then obtain f where "ev_run polls t = Some f" "bridge_step\<^sup>*\<^sup>* t (run_state f)"
      using Cons.IH [OF t(1)] Cons.prems by auto
    then show ?thesis using e Polling by (subst ev_run_Cons) (auto intro: rtranclp_trans)
  qed (use e in \<open>subst ev_run_Cons, auto\<close>)
qed simp

text \<open>A turn keeps the beat, and ends the loop when the stop has been asked for and the tick is due.\<close>

lemma beats_later:
  assumes "beats c now d stop s" "0 \<le> now'" "d \<le> d'" "stop' \<or> now' + TICK_INTERVAL_S \<le> d'" "stop' \<longrightarrow> w_sigterm w \<or> stop"
  shows "beats c now' d' stop' ((signals w s)\<lparr>s_now := now'\<rparr>)"
proof -
  have "main_inv c (signals w s)" using steps_main_inv [OF signals_steps] beats_parts [OF assms(1)] by blast
  then have "main_inv c ((signals w s)\<lparr>s_now := now'\<rparr>)"
    by (rule step_main_inv [OF bridge_step.Clock _ beats_parts(5) [OF assms(1)]])
  moreover have "tick_by d s \<Longrightarrow> tick_by d' ((signals w s)\<lparr>s_now := now'\<rparr>)" using assms(3) by (force simp: tick_by_def)
  ultimately show ?thesis using assms by (auto simp: beats_def no_past_def)
qed

lemma turn_beats:
  assumes "ev_run [(w, r)] s = Some (Polling t)" "beats c now d stop s" "0 \<le> w_now w" "d \<le> d'"
    and "stop' \<or> w_now w + TICK_INTERVAL_S \<le> d'" "stop' \<longrightarrow> w_sigterm w \<or> stop"
  shows "beats c (w_now w) d' stop' t \<and> ev_running (s_loop t) \<and>
    \<not> (stop' \<and> d' \<le> w_now w \<and> (\<exists>ready. r = Poll_ready ready))"
proof -
  let ?u = "(signals w s)\<lparr>s_now := w_now w\<rparr>"
  have u: "beats c (w_now w) d' stop' ?u" by (rule beats_later [OF assms(2-6)])
  have run: "ev_running (s_loop s)" using assms(1) by (auto split: if_splits)
  show ?thesis
  proof (cases r)
    case Poll_eintr
    have "on_loop reap_inactive ?u = (on_loop reap_inactive (signals w s))\<lparr>s_now := w_now w\<rparr>" by (simp add: on_loop_def)
    then have "t = on_loop reap_inactive ?u" using assms(1) run by (simp add: Poll_eintr Let_def split: if_splits)
    then show ?thesis using reap_beats [OF u] run Poll_eintr by (simp add: on_loop_def reap_inactive_def)
  next
    case (Poll_ready ready)
    then have "main_pass (w_file w) (w_now w) (poll_reports (pollset (reap_inactive (s_loop s))) ready) (signals w s) = Some t"
      and t: "ev_running (s_loop t)"
      using assms(1) run by (auto simp: Let_def split: bind_splits if_splits)
    from pass_beats [OF this(1) _ u] run t show ?thesis by (auto simp: polled_reports)
  qed (use assms(1) run in \<open>simp add: Let_def\<close>)
qed

text \<open>A run on clocks that do not go back.\<close>

definition poll_times :: "(moment \<times> poll_result) list \<Rightarrow> rat list" where
  "poll_times polls = map (w_now \<circ> fst) polls"

lemma steady_run:
  assumes "ev_run polls s = Some (Polling t)" "beats c now (now + TICK_INTERVAL_S) False s" "sorted (now # poll_times polls)"
  shows "beats c (last (now # poll_times polls)) (last (now # poll_times polls) + TICK_INTERVAL_S) False t \<and> ev_running (s_loop t)"
  using assms
proof (induction polls arbitrary: s now)
  case (Cons x polls)
  obtain w r where x: "x = (w, r)" by (cases x)
  obtain u where u: "ev_run [x] s = Some (Polling u)" "ev_run polls u = Some (Polling t)"
    using Cons.prems(1) by (subst (asm) ev_run_Cons) (auto split: bind_splits run_end.splits)
  have le: "now \<le> w_now w" "sorted (w_now w # poll_times polls)" using Cons.prems(3) by (simp_all add: poll_times_def x)
  have "0 \<le> w_now w" using beats_parts(6) [OF Cons.prems(2)] le(1) by simp
  then have "beats c (w_now w) (w_now w + TICK_INTERVAL_S) False u"
    using turn_beats [OF u(1) [unfolded x] Cons.prems(2), of "w_now w + TICK_INTERVAL_S" False] le(1) by simp
  from Cons.IH [OF u(2) this le(2)] show ?case by (simp add: poll_times_def x)
qed (auto simp: poll_times_def split: if_splits)

lemma stopping_run:
  assumes "ev_run polls s = Some (Polling t)" "beats c now d True s" "\<forall>v \<in> set (poll_times polls). 0 \<le> v"
  shows "\<forall>(w, r) \<in> set polls. \<not> (d \<le> w_now w \<and> (\<exists>ready. r = Poll_ready ready))"
  using assms
proof (induction polls arbitrary: s now)
  case (Cons x polls)
  obtain w r where x: "x = (w, r)" by (cases x)
  obtain u where u: "ev_run [x] s = Some (Polling u)" "ev_run polls u = Some (Polling t)"
    using Cons.prems(1) by (subst (asm) ev_run_Cons) (auto split: bind_splits run_end.splits)
  have pos: "0 \<le> w_now w" "\<forall>v \<in> set (poll_times polls). 0 \<le> v" using Cons.prems(3) by (simp_all add: poll_times_def x)
  have b: "beats c (w_now w) d True u \<and> \<not> (d \<le> w_now w \<and> (\<exists>ready. r = Poll_ready ready))"
    using turn_beats [OF u(1) [unfolded x] Cons.prems(2) pos(1), of d True] by simp
  show ?case using Cons.IH [OF u(2) conjunct1 [OF b] pos(2)] b by (simp add: x)
qed simp

section \<open>The start\<close>

lemma start_link_times: "no_past s \<and> s_now s = now \<Longrightarrow> 0 \<le> now \<Longrightarrow> no_past (start_link s i) \<and> s_now (start_link s i) = now"
  by (auto simp: start_link_def start_outbound_connect_def schedule_reconnect_def next_sock_def on_link_def on_loop_def
      timer_after_def ev_timer_after_def ev_timer_at_def ev_add_fd_write_def no_past_def RECONNECT_DELAY_S_def Let_def)

lemma started_times:
  assumes "no_past s \<and> s_now s = now" "0 \<le> now"
  shows "no_past (snd (cccc_mux_start s)) \<and> s_now (snd (cccc_mux_start s)) = now"
proof -
  have fold: "no_past (foldl start_link u is)" "s_now (foldl start_link u is) = now" if "no_past u" "s_now u = now" for u "is"
    using that by (induction "is" arbitrary: u) (simp_all add: start_link_times assms(2))
  have same: "no_past (on_loop (ev_add_fd fd cb) u) = no_past u" "no_past (u\<lparr>s_nsock := k, s_voice_fd := fd\<rparr>) = no_past u"
    "no_past (u\<lparr>s_nsock := k, s_trial_fd := fd\<rparr>) = no_past u" "no_past (u\<lparr>s_nsock := k, s_listen_fd := fd\<rparr>) = no_past u"
    "s_now (on_loop (ev_add_fd fd cb) u) = s_now u" for u fd cb k
    by (simp_all add: no_past_def on_loop_def ev_add_fd_def)
  show ?thesis using assms(1) by (simp add: cccc_mux_start_def next_sock_def Let_def same fold)
qed

lemma obp_start_times: "ev_timers (s_loop (obp_mux_start s)) = ev_timers (s_loop s) \<and> s_now (obp_mux_start s) = s_now s"
proof -
  have "ev_timers (s_loop (foldl (\<lambda>s i. if o_enabled (peer_cfg s i) then bind_peer i s else s) w is)) = ev_timers (s_loop w) \<and>
      s_now (foldl (\<lambda>s i. if o_enabled (peer_cfg s i) then bind_peer i s else s) w is) = s_now w" for w "is"
    by (induction "is" arbitrary: w) (simp_all add: bind_peer_def next_sock_def on_loop_def ev_add_fd_def Let_def)
  then show ?thesis by (simp add: obp_mux_start_def)
qed

lemma start_beats:
  assumes "main_start c sock rnd now wall = Running s" "0 < c_keepalive_interval c" "0 \<le> now"
  shows "beats c now (now + TICK_INTERVAL_S) False s"
proof -
  define a where "a = (blank_sys c sock rnd)\<lparr>s_now := now, s_wall := wall\<rparr>"
  define t where "t = snd (cccc_mux_start (obp_mux_start a))"
  have s: "s = on_loop (\<lambda>l. l\<lparr>ev_running := True\<rparr>) (snd (timer_after TICK_INTERVAL_S Tick_cb t))"
    using assms(1) by (auto simp: main_start_def Let_def a_def t_def split: prod.splits if_splits)
  have "no_past (obp_mux_start a) \<and> s_now (obp_mux_start a) = now"
    by (simp add: no_past_def obp_start_times) (simp add: a_def blank_sys_def ev_new_def)
  then have t: "no_past t \<and> s_now t = now" unfolding t_def by (rule started_times [OF _ assms(3)])
  have "main_inv c s" using main_start_inv [OF assms(1,2)] by (simp add: main_inv_def)
  then show ?thesis
    using t assms(2,3)
    by (simp add: beats_def) (simp add: s tick_by_def no_past_def on_loop_def timer_after_def ev_timer_after_def
      ev_timer_at_def TICK_INTERVAL_S_def)
qed

lemma main_entry_runs:
  assumes "main_entry files args sock rnd now wall = Running s"
  obtains c where "valid_config c" "main_start c sock rnd now wall = Running s"
  using assms valid_config_loaded by (auto simp: main_entry_def split: sum.splits if_splits)

section \<open>The timeout of poll\<close>

lemma next_fire_is_least:
  assumes "\<forall>t \<in> set ts. t_active t \<longrightarrow> 0 \<le> t_when t" "a = - 1 \<or> 0 \<le> a"
  defines "n \<equiv> foldl (\<lambda>next t. if t_active t \<and> (next < 0 \<or> t_when t < next) then t_when t else next) a ts"
  shows "(n = - 1 \<or> 0 \<le> n) \<and> (0 \<le> a \<longrightarrow> 0 \<le> n \<and> n \<le> a) \<and> (\<forall>t \<in> set ts. t_active t \<longrightarrow> 0 \<le> n \<and> n \<le> t_when t)"
  unfolding n_def using assms(1,2)
proof (induction ts arbitrary: a)
  case (Cons t ts)
  let ?b = "if t_active t \<and> (a < 0 \<or> t_when t < a) then t_when t else a"
  let ?n = "foldl (\<lambda>next t. if t_active t \<and> (next < 0 \<or> t_when t < next) then t_when t else next) ?b ts"
  have IH: "(?n = - 1 \<or> 0 \<le> ?n) \<and> (0 \<le> ?b \<longrightarrow> 0 \<le> ?n \<and> ?n \<le> ?b) \<and> (\<forall>t \<in> set ts. t_active t \<longrightarrow> 0 \<le> ?n \<and> ?n \<le> t_when t)"
    by (rule Cons.IH) (use Cons.prems in auto)
  have "0 \<le> a \<longrightarrow> 0 \<le> ?b \<and> ?b \<le> a" "t_active t \<longrightarrow> 0 \<le> ?b \<and> ?b \<le> t_when t" using Cons.prems by auto
  then show ?case using IH by fastforce
qed simp

lemma poll_timeout_bounds:
  assumes "tick_by (now + TICK_INTERVAL_S) s" "no_past s" "now \<le> clock"
  shows "0 \<le> poll_timeout_ms clock (reap_inactive (s_loop s)) \<and> poll_timeout_ms clock (reap_inactive (s_loop s)) \<le> 1000"
proof -
  let ?n = "next_fire (reap_inactive (s_loop s))"
  obtain tm where tm: "tm \<in> set (ev_timers (s_loop s))" "t_active tm" "t_when tm \<le> now + 1"
    using assms(1) by (auto simp: tick_by_def TICK_INTERVAL_S_def)
  have "0 \<le> ?n \<and> ?n \<le> t_when tm"
    using next_fire_is_least [of "filter t_active (ev_timers (s_loop s))" "- 1"] tm assms(2)
    by (simp add: next_fire_def reap_inactive_def no_past_def)
  then have "0 \<le> ?n" "(?n - clock) * 1000 \<le> 1000" using tm(3) assms(3) by simp_all
  then show ?thesis by (simp add: poll_timeout_ms_def Let_def floor_le_iff)
qed

section \<open>Properties\<close>

text \<open>
  C16: \<open>ev_run\<close> never hangs in a callback and never leaves the states shown to be safe.  From a
  reachable state, whatever poll returns, however often, and whatever signals arrive meanwhile, the
  loop comes back to poll or returns, by the steps of the program; so every state of a run is
  reachable.  It needs a random source that does not draw from 128 numbers for ever.
\<close>

theorem run_always_returns:
  assumes "valid_config c" "reachable c s" "fair_rand (s_rand s)"
  shows "\<exists>e. ev_run polls s = Some e \<and> bridge_step\<^sup>*\<^sup>* s (run_state e) \<and> reachable c (run_state e)"
proof -
  have "n_link c \<le> CFG_MAX_LINKS" using assms(1) by (simp add: valid_config_def config_fits_def)
  then show ?thesis
    using run_returns [OF reachable_main_inv [OF assms(2)], of polls] valid_interval [OF assms(1)] assms(2,3)
      reachable_steps by blast
qed

lemma started_fair:
  assumes "main_start c sock rnd now wall = Running s" "valid_config c" "fair_rand rnd"
  shows "fair_rand (s_rand s)" "reachable c s" "main_inv c s" "n_link c \<le> CFG_MAX_LINKS"
  using started_rand [OF assms(1) valid_interval [OF assms(2)]] assms reachable.Start
    reachable_main_inv [OF _ valid_interval [OF assms(2)]]
  by (auto simp: valid_config_def config_fits_def)

lemma run_always_returns_witness:
  "\<exists>s e. reachable demo_config s \<and>
     ev_run [(\<lparr>w_now = 3, w_wall = (0, 0), w_file = None, w_sighup = True, w_sigterm = False\<rparr>, Poll_ready [])] s = Some e"
proof -
  obtain s where s: "main_start demo_config (\<lambda>k. 10 + int k) of_nat 0 (0, 0) = Running s" by (rule demo_running)
  note f = started_fair [OF s demo_config_valid counting_is_fair]
  from run_always_returns [OF demo_config_valid f(2,1)] f(2) show ?thesis by blast
qed

text \<open>
  C17: the program does not sleep through its work.  Whenever it is back in poll, on clocks that do not
  go back, it asks poll to wait between 0 and 1000 milliseconds, never for ever, because the tick's
  timer is armed and due within a second; so reloads, the watchdogs and the shutdown are looked at
  at least once a second.
\<close>

theorem poll_waits_at_most_a_tick:
  assumes "main_entry files args sock rnd now wall = Running s" "0 \<le> now" "sorted (now # poll_times polls)"
    and "ev_run polls s = Some (Polling t)" "last (now # poll_times polls) \<le> clock"
  shows "0 \<le> poll_timeout_ms clock (reap_inactive (s_loop t)) \<and> poll_timeout_ms clock (reap_inactive (s_loop t)) \<le> 1000"
proof -
  obtain c where c: "valid_config c" "main_start c sock rnd now wall = Running s" using assms(1) by (rule main_entry_runs)
  have "beats c now (now + TICK_INTERVAL_S) False s" by (rule start_beats [OF c(2) valid_interval [OF c(1)] assms(2)])
  from steady_run [OF assms(4) this assms(3)] show ?thesis
    using poll_timeout_bounds [OF _ _ assms(5)] by (simp add: beats_def)
qed

text \<open>A start from the example file, for the instances.\<close>

abbreviation demo_files :: "string \<Rightarrow> string option" where
  "demo_files \<equiv> \<lambda>_. Some (file_of demo_lines)"

definition demo_moment :: "rat \<Rightarrow> bool \<Rightarrow> moment" where
  "demo_moment t0 sig = \<lparr>w_now = t0, w_wall = (0, 0), w_file = None, w_sighup = False, w_sigterm = sig\<rparr>"

lemma demo_entry:
  obtains s where "main_entry demo_files [] (\<lambda>k. 10 + int k) of_nat 0 (0, 0) = Running s" "ev_running (s_loop s)"
proof -
  obtain c where c: "config_load (Some (file_of demo_lines)) = Inr c" "valid_config c" by (rule demo_valid)
  obtain s where s: "main_start c (\<lambda>k. 10 + int k) of_nat 0 (0, 0) = Running s"
    using main_start_runs [of "\<lambda>k. 10 + int k" c of_nat 0 "(0, 0)"] by auto
  have "main_entry demo_files [] (\<lambda>k. 10 + int k) of_nat 0 (0, 0) = Running s"
    using s by (simp add: main_entry_def default_options_def c(1))
  then show thesis using that main_start_inv [OF s valid_interval [OF c(2)]] by blast
qed

lemma poll_waits_at_most_a_tick_witness:
  "\<exists>s t. main_entry demo_files [] (\<lambda>k. 10 + int k) of_nat 0 (0, 0) = Running s \<and>
     ev_run [(demo_moment (1 / 2) False, Poll_eintr)] s = Some (Polling t) \<and>
     poll_timeout_ms (1 / 2) (reap_inactive (s_loop t)) \<le> 1000"
proof -
  obtain s where s: "main_entry demo_files [] (\<lambda>k. 10 + int k) of_nat 0 (0, 0) = Running s" "ev_running (s_loop s)"
    by (rule demo_entry)
  let ?polls = "[(demo_moment (1 / 2) False, Poll_eintr)]"
  obtain t where t: "ev_run ?polls s = Some (Polling t)"
    using s(2) by (simp add: Let_def on_loop_def reap_inactive_def)
  have "sorted (0 # poll_times ?polls)" "last (0 # poll_times ?polls) \<le> 1 / 2"
    by (simp_all add: poll_times_def demo_moment_def)
  from poll_waits_at_most_a_tick [OF s(1) _ this(1) t this(2)] show ?thesis using s(1) t by auto
qed

text \<open>
  C9: SIGTERM ends the program.  Once the signal has arrived, the first poll that returns a tick
  interval later or after that is the last one, if poll has not failed before: the program ends with
  status 0, every link and unidentified connection is closed and all sockets are, whatever else has happened.
\<close>

theorem sigterm_ends_program:
  assumes "main_entry files args sock rnd now wall = Running s" "fair_rand rnd" "0 \<le> now"
    and "sorted (now # poll_times (xs @ (w, r) # ys))" "w_sigterm w"
    and "(v, Poll_ready ready) \<in> set ys" "w_now w + TICK_INTERVAL_S \<le> w_now v"
  shows "\<exists>t. main_program files args sock rnd now wall (xs @ (w, r) # ys) = Some (Stopped t) \<and>
    (\<forall>i < n_link (s_cfg t). lk_state (s_links t i) = LST_DOWN \<and> \<not> lk_active (s_links t i)) \<and>
    (\<forall>k < MAX_PENDING. \<not> p_in_use (s_pending t k)) \<and> (\<forall>i < n_openbridge (s_cfg t). s_obp_fd t i < 0) \<and>
    s_voice_fd t < 0 \<and> s_trial_fd t < 0 \<and> s_listen_fd t < 0"
proof -
  let ?polls = "xs @ (w, r) # ys"
  obtain c where c: "valid_config c" "main_start c sock rnd now wall = Running s" using assms(1) by (rule main_entry_runs)
  note k = valid_interval [OF c(1)] and f = started_fair [OF c(2,1) assms(2)]
  obtain e where e: "ev_run ?polls s = Some e" "bridge_step\<^sup>*\<^sup>* s (run_state e)"
    using run_returns [OF f(3) k f(4,1)] by blast
  have "e \<noteq> Polling t" for t
  proof
    assume p: "e = Polling t"
    then obtain u where u: "ev_run xs s = Some (Polling u)" "ev_run ((w, r) # ys) u = Some (Polling t)"
      using e(1) by (subst (asm) ev_run_append) (auto split: bind_splits run_end.splits)
    then obtain x where x: "ev_run [(w, r)] u = Some (Polling x)" "ev_run ys x = Some (Polling t)"
      by (subst (asm) (2) ev_run_Cons) (auto split: bind_splits run_end.splits)
    let ?l = "last (now # poll_times xs)"
    have s: "sorted (now # poll_times xs)" "\<forall>y \<in> set (now # poll_times xs). y \<le> w_now w"
      "\<forall>y \<in> set (poll_times ys). w_now w \<le> y"
      using assms(4) by (auto simp: poll_times_def sorted_append)
    have le: "?l \<le> w_now w" "now \<le> w_now w" using s(2) last_in_set [of "now # poll_times xs"] by (blast, simp)
    have "beats c ?l (?l + TICK_INTERVAL_S) False u"
      using steady_run [OF u(1) start_beats [OF c(2) k assms(3)] s(1)] by simp
    then have "beats c (w_now w) (w_now w + TICK_INTERVAL_S) True x"
      using turn_beats [OF x(1), where d' = "w_now w + TICK_INTERVAL_S" and stop' = True] le assms(3,5) by simp
    from stopping_run [OF x(2) this] s(3) le(2) assms(3,6,7) show False by fastforce
  qed
  then obtain t where t: "e = Returned t" by (cases e) auto
  have "reachable c t" using reachable_steps [OF e(2) f(2)] by (simp add: t)
  note r = stop_releases [OF c(1) this] and sh = reachable_parts(7) [OF c(1) this]
  have "n_link (s_cfg (main_stop t)) = n_link c" "n_openbridge (s_cfg (main_stop t)) = n_openbridge c"
    using r same_shape(2,3) [OF sh] by simp_all
  then show ?thesis using r by (simp add: main_program_def assms(1) e(1) t)
qed

lemma sigterm_ends_program_witness:
  "\<exists>t. main_program demo_files [] (\<lambda>k. 10 + int k) of_nat 0 (0, 0)
     [(demo_moment (1 / 2) False, Poll_eintr), (demo_moment 5 True, Poll_eintr), (demo_moment 6 False, Poll_ready [])] =
     Some (Stopped t) \<and> s_listen_fd t < 0"
proof -
  obtain s where s: "main_entry demo_files [] (\<lambda>k. 10 + int k) of_nat 0 (0, 0) = Running s" by (rule demo_entry)
  show ?thesis
    using sigterm_ends_program [OF s counting_is_fair, of "[(demo_moment (1 / 2) False, Poll_eintr)]" "demo_moment 5 True"
      Poll_eintr "[(demo_moment 6 False, Poll_ready [])]" "demo_moment 6 False" "[]"]
    by (auto simp: poll_times_def demo_moment_def TICK_INTERVAL_S_def)
qed

end
