(* ===== verification/Tables.thy ===== *)
theory Tables
  imports Main_Props
begin

text \<open>
  The descriptor tables of the event loop have 256 entries each and drop a registration that finds
  them full.  They never are: in every reachable state each registered descriptor has an owner of
  its own, and the owners are fewer.
\<close>

section \<open>Owners\<close>

text \<open>The owners that \<open>rd_ok\<close> says nothing of.\<close>

fun shared_ok :: "sys \<Rightarrow> int \<Rightarrow> fd_cb \<Rightarrow> bool" where
  "shared_ok s fd (On_obp_readable i) \<longleftrightarrow> 0 \<le> fd \<and> s_obp_fd s i = fd \<and> i < n_openbridge (s_cfg s)"
| "shared_ok s fd On_voice_readable \<longleftrightarrow> 0 \<le> fd \<and> s_voice_fd s = fd"
| "shared_ok s fd On_trial_readable \<longleftrightarrow> 0 \<le> fd \<and> s_trial_fd s = fd"
| "shared_ok s fd On_listen_readable \<longleftrightarrow> 0 \<le> fd \<and> s_listen_fd s = fd"
| "shared_ok s fd _ \<longleftrightarrow> True"

definition tables_inv :: "sys \<Rightarrow> bool" where
  "tables_inv s \<longleftrightarrow> ev_ok (s_loop s) \<and>
     (\<forall>fd cb. readers s fd = Some cb \<longrightarrow> - 1 \<le> fd \<and> shared_ok s fd cb) \<and>
     (\<forall>fd cb. writers s fd = Some cb \<longrightarrow> 0 \<le> fd) \<and>
     (\<forall>k. - 1 \<le> p_fd (s_pending s k) \<and> (p_in_use (s_pending s k) \<longrightarrow> k < MAX_PENDING))"

named_theorems table_rules \<open>a handler keeps the owners of the tables\<close>

text \<open>A step that leaves the tables, the shared sockets and the pending connections alone.\<close>

lemma tables_cong:
  assumes "s_loop t = s_loop s \<or> ev_fds (s_loop t) = ev_fds (s_loop s) \<and> ev_wfds (s_loop t) = ev_wfds (s_loop s) \<and> ev_ok (s_loop t)"
    and "s_pending t = s_pending s" "s_cfg t = s_cfg s" "s_obp_fd t = s_obp_fd s" "s_voice_fd t = s_voice_fd s"
    and "s_trial_fd t = s_trial_fd s" "s_listen_fd t = s_listen_fd s" "tables_inv s"
  shows "tables_inv t"
proof -
  have "shared_ok t fd cb = shared_ok s fd cb" for fd cb using assms by (cases cb) simp_all
  then show ?thesis using assms by (auto simp: tables_inv_def)
qed

lemma tables_register:
  assumes "tables_inv s" "- 1 \<le> fd" "shared_ok s fd cb"
  shows "tables_inv (on_loop (ev_add_fd fd cb) s)"
proof -
  let ?t = "on_loop (ev_add_fd fd cb) s"
  have ok: "shared_ok ?t fd' c = shared_ok s fd' c" for fd' c by (cases c) (simp_all add: on_loop_def)
  have "readers ?t = (readers s)(fd \<mapsto> cb) \<or> readers ?t = readers s" "writers ?t = writers s" "s_pending ?t = s_pending s"
    by (simp_all add: on_loop_def ev_add_fd_def map_of_register)
  moreover have "ev_ok (s_loop ?t)" using assms(1) by (simp add: tables_inv_def ev_ok_ops)
  ultimately show ?thesis using assms unfolding tables_inv_def ok by (auto split: if_splits)
qed

lemma tables_register_write:
  assumes "tables_inv s" "0 \<le> fd"
  shows "tables_inv (on_loop (ev_add_fd_write fd cb) s)"
proof -
  let ?t = "on_loop (ev_add_fd_write fd cb) s"
  have ok: "shared_ok ?t fd' c = shared_ok s fd' c" for fd' c by (cases c) (simp_all add: on_loop_def)
  have "writers ?t = (writers s)(fd \<mapsto> cb) \<or> writers ?t = writers s" "readers ?t = readers s" "s_pending ?t = s_pending s"
    by (simp_all add: on_loop_def ev_add_fd_write_def map_of_register)
  moreover have "ev_ok (s_loop ?t)" using assms(1) by (simp add: tables_inv_def ev_ok_ops)
  ultimately show ?thesis using assms unfolding tables_inv_def ok by (auto split: if_splits)
qed

lemma tables_delete [table_rules]:
  assumes "tables_inv s"
  shows "tables_inv (on_loop (ev_del_fd fd) s)" "tables_inv (on_loop (ev_del_fd_write fd) s)"
proof -
  have e: "ev_ok (s_loop s)" using assms by (simp add: tables_inv_def)
  have ok: "shared_ok (on_loop f s) fd' c = shared_ok s fd' c" for f fd' c by (cases c) (simp_all add: on_loop_def)
  have e': "ev_ok (s_loop (on_loop (ev_del_fd fd) s))" "ev_ok (s_loop (on_loop (ev_del_fd_write fd) s))"
    using e by (simp_all add: ev_ok_ops)
  show "tables_inv (on_loop (ev_del_fd fd) s)"
    using assms e'(1) unfolding tables_inv_def ok del_fd_tables [OF e] by simp
  show "tables_inv (on_loop (ev_del_fd_write fd) s)"
    using assms e'(2) unfolding tables_inv_def ok del_fd_tables [OF e] by simp
qed

lemma tables_pending:
  assumes "tables_inv s" "- 1 \<le> p_fd (f (s_pending s k))" "p_in_use (f (s_pending s k)) \<longrightarrow> k < MAX_PENDING"
  shows "tables_inv (on_pending k f s)"
proof -
  have ok: "shared_ok (on_pending k f s) fd' c = shared_ok s fd' c" for fd' c by (cases c) (simp_all add: on_pending_def)
  show ?thesis using assms unfolding tables_inv_def ok by simp
qed

lemma tables_slot: "tables_inv s \<Longrightarrow> - 1 \<le> p_fd (s_pending s k)" "tables_inv s \<Longrightarrow> p_in_use (s_pending s k) \<Longrightarrow> k < MAX_PENDING"
  by (simp_all add: tables_inv_def)

lemma tables_access [table_rules]:
  assumes "tables_inv s"
  shows "tables_inv (on_link i f s)" "tables_inv (emit e s)" "tables_inv (snd (next_sock s))" "tables_inv (s\<lparr>s_nrand := r\<rparr>)"
    "tables_inv (s\<lparr>s_now := now\<rparr>)" "tables_inv (s\<lparr>s_wall := wall\<rparr>)" "tables_inv (s\<lparr>s_reload_requested := b\<rparr>)"
    "tables_inv (s\<lparr>s_shutdown_requested := b\<rparr>)" "tables_inv (snd (timer_after d cb s))" "tables_inv (on_loop (ev_timer_cancel h) s)"
    "tables_inv (on_loop reap_inactive s)" "tables_inv (on_loop ev_stop s)" "tables_inv (on_loop (\<lambda>l. l\<lparr>ev_running := b\<rparr>) s)"
    "tables_inv (on_pending k (\<lambda>p. p\<lparr>p_timeout_timer := pt\<rparr>) s)" "tables_inv (on_pending k (\<lambda>p. p\<lparr>p_rxbuf := buf\<rparr>) s)"
    "tables_inv (on_pending k (\<lambda>p. p\<lparr>p_qlines := q p\<rparr>) s)" "tables_inv (on_pending k (\<lambda>p. p\<lparr>p_fd := - 1\<rparr>) s)"
    "tables_inv (on_pending k (\<lambda>p. p\<lparr>p_in_use := False, p_fd := - 1\<rparr>) s)"
proof -
  have e: "ev_ok (s_loop s)" using assms by (simp add: tables_inv_def)
  show "tables_inv (on_link i f s)" "tables_inv (emit e s)" "tables_inv (snd (next_sock s))" "tables_inv (s\<lparr>s_nrand := r\<rparr>)"
    "tables_inv (s\<lparr>s_now := now\<rparr>)" "tables_inv (s\<lparr>s_wall := wall\<rparr>)" "tables_inv (s\<lparr>s_reload_requested := b\<rparr>)"
    "tables_inv (s\<lparr>s_shutdown_requested := b\<rparr>)"
    by (rule tables_cong [where s = s]; simp add: assms access_defs)+
  show "tables_inv (snd (timer_after d cb s))"
    by (rule tables_cong [where s = s]) (use timer_after_loop [where s = s and d = d and c = cb] e assms in \<open>auto simp: timer_after_def case_prod_beta\<close>)
  show "tables_inv (on_loop (ev_timer_cancel h) s)" "tables_inv (on_loop reap_inactive s)" "tables_inv (on_loop ev_stop s)"
    "tables_inv (on_loop (\<lambda>l. l\<lparr>ev_running := b\<rparr>) s)"
    by (rule tables_cong [where s = s];
        use e assms ev_ok_ops [OF e] in \<open>simp add: cancel_loop reap_inactive_def ev_stop_def ev_ok_def on_loop_def\<close>)+
  show "tables_inv (on_pending k (\<lambda>p. p\<lparr>p_timeout_timer := pt\<rparr>) s)" "tables_inv (on_pending k (\<lambda>p. p\<lparr>p_rxbuf := buf\<rparr>) s)"
    "tables_inv (on_pending k (\<lambda>p. p\<lparr>p_qlines := q p\<rparr>) s)" "tables_inv (on_pending k (\<lambda>p. p\<lparr>p_fd := - 1\<rparr>) s)"
    "tables_inv (on_pending k (\<lambda>p. p\<lparr>p_in_use := False, p_fd := - 1\<rparr>) s)"
    by (rule tables_pending [OF assms]; use tables_slot [OF assms] in simp)+
qed

lemma tables_call:
  assumes "tables_inv s" "call_step i s t"
  shows "tables_inv t"
proof -
  have "s_trial_fd t = s_trial_fd s" "s_listen_fd t = s_listen_fd s" using assms(2) by (auto simp: call_step_def only_sends_def)
  then show "tables_inv t" by (intro tables_cong [OF _ _ _ _ _ _ _ assms(1)]) (simp_all add: call_step_keeps [OF assms(2)])
qed

lemma tables_foldl: "tables_inv s \<Longrightarrow> (\<And>u x. x \<in> set xs \<Longrightarrow> tables_inv u \<Longrightarrow> tables_inv (f u x)) \<Longrightarrow> tables_inv (foldl f s xs)"
  by (induction xs arbitrary: s) auto

section \<open>Handlers\<close>

lemma tables_translator [table_rules]:
  assumes "tables_inv s"
  shows "tables_inv (translator_cccc_link_down i s)" "tables_inv (translator_cccc_link_up i s)"
    "tables_inv (translator_cccc_bon i r p s)" "tables_inv (translator_cccc_boff i s)" "tables_inv (translator_cccc_voice i a s)"
    "tables_inv (tick_link s i)" "tables_inv (translator_obp_dmrd_received q body s)"
proof -
  note c = tables_call [OF assms]
  show "tables_inv (translator_cccc_link_down i s)" "tables_inv (translator_cccc_link_up i s)"
    by (rule c, rule call_step_up_down)+
  show "tables_inv (translator_cccc_bon i r p s)" by (rule c [OF call_step_bon])
  show "tables_inv (translator_cccc_boff i s)"
    by (auto simp: translator_cccc_boff_def assms intro!: c call_step_end)
  show "tables_inv (translator_cccc_voice i a s)" by (rule c [OF call_step_voice])
  show "tables_inv (tick_link s i)" by (rule c [OF call_step_tick])
  show "tables_inv (translator_obp_dmrd_received q body s)"
    using assms by (auto simp: dmrd_by_route intro: c call_step_frame split: option.split)
qed

lemma tables_sends [table_rules]:
  "tables_inv s \<Longrightarrow> tables_inv (tcp_send i line s)" "tables_inv s \<Longrightarrow> tables_inv (udp_send_to_link i pkt s)"
  by (simp_all add: tcp_send_def udp_send_to_link_def table_rules)

lemma tables_links [table_rules]:
  assumes "tables_inv s"
  shows "tables_inv (schedule_reconnect i s)" "tables_inv (cancel_keepalive i s)" "tables_inv (cancel_reconnect i s)"
    "tables_inv (close_link_fd i s)" "tables_inv (fired h s)" "tables_inv (rearm_keepalive i s)" "tables_inv (arm_keepalive i s)"
  using assms
  by (simp_all add: schedule_reconnect_def cancel_keepalive_def cancel_reconnect_def close_link_fd_def fired_def
      rearm_keepalive_def arm_keepalive_def case_prod_beta Let_def table_rules)

lemma tables_teardown [table_rules]: "tables_inv s \<Longrightarrow> tables_inv (teardown_link_connection i s)"
  by (simp add: teardown_link_connection_def Let_def table_rules)

lemma tables_connect [table_rules]: "tables_inv s \<Longrightarrow> tables_inv (start_outbound_connect i s)"
  by (simp add: start_outbound_connect_def case_prod_beta Let_def table_rules tables_register_write)

lemma tables_link_timers [table_rules]:
  assumes "tables_inv s"
  shows "tables_inv (reconnect_cb i s)" "tables_inv (keepalive_cb i s)"
  using assms by (simp_all add: reconnect_cb_def keepalive_cb_def Let_def table_rules)

lemma tables_lines [table_rules]:
  assumes "tables_inv s"
  shows "tables_inv (finish_outbound_handshake i s)" "tables_inv (dispatch_established_line i line s)"
  using assms
  by (auto simp: finish_outbound_handshake_def dispatch_established_line_def Let_def table_rules split: option.split)

lemma tables_line [table_rules]: "tables_inv s \<Longrightarrow> tables_inv (link_on_line i line s)"
  by (simp add: link_on_line_def Let_def table_rules)

lemma tables_tcp [table_rules]: "tables_inv s \<Longrightarrow> tables_inv (on_link_tcp_readable i inp s)"
  by (auto simp: on_link_tcp_readable_def feed_link_def RXBUF_CAP_def table_rules
      intro!: feed_keeps [where P = tables_inv] split: input.split)

lemma tables_writable:
  assumes "tables_inv s" "0 \<le> fd" "on_connect_writable i fd inp s = Some t"
  shows "tables_inv t"
proof (cases "inp = In_sockerr 0")
  case False
  then show ?thesis using assms by (auto simp: on_connect_writable_def Let_def table_rules split: if_splits)
next
  case True
  have r: "tables_inv u \<Longrightarrow> tables_inv (on_loop (ev_add_fd fd (On_link_tcp_readable i)) u)" for u
    using assms(2) by (intro tables_register) simp_all
  show ?thesis
    using assms(1,3) True
    by (auto simp: on_connect_writable_def Let_def split: bind_splits dest!: mint_Some intro!: table_rules r)
qed

lemma tables_free [table_rules]: "tables_inv s \<Longrightarrow> tables_inv (free_pending k b s)"
  by (simp add: free_pending_def Let_def table_rules)

lemma tables_pending_timeout [table_rules]: "tables_inv s \<Longrightarrow> tables_inv (pending_timeout_cb k s)"
  by (simp add: pending_timeout_cb_def table_rules)

lemma tables_accept [table_rules]:
  assumes "tables_inv s"
  shows "tables_inv (accept_question k i v s)"
  using assms by (simp add: accept_question_def Let_def table_rules tables_register tables_slot)

lemma tables_question [table_rules]: "tables_inv s \<Longrightarrow> tables_inv (handle_question_complete k s)"
  by (auto simp: handle_question_complete_def Let_def table_rules split: option.split)

lemma tables_pending_line [table_rules]: "tables_inv s \<Longrightarrow> tables_inv (pending_on_line k line s)"
  by (simp add: pending_on_line_def Let_def table_rules)

lemma tables_pending_readable [table_rules]: "tables_inv s \<Longrightarrow> tables_inv (on_pending_readable k inp s)"
  by (auto simp: on_pending_readable_def feed_pending_def RXBUF_CAP_def table_rules
      intro!: feed_keeps [where P = tables_inv] split: input.split)

lemma tables_accept_connection:
  assumes "tables_inv s" "0 \<le> cfd"
  shows "tables_inv (accept_connection s (cfd, ip))"
proof (cases "find (\<lambda>k. \<not> p_in_use (s_pending s k)) [0..<MAX_PENDING]")
  case (Some k)
  then have "k < MAX_PENDING" by (auto simp: find_Some_iff)
  then have "tables_inv (on_pending k (\<lambda>_. zero_pending\<lparr>p_in_use := True, p_fd := cfd, p_src_ip := ip\<rparr>) s)"
    using assms by (intro tables_pending) simp_all
  then show ?thesis using assms(2) by (simp add: accept_connection_def Some case_prod_beta Let_def table_rules tables_register)
qed (simp add: accept_connection_def table_rules assms)

lemma tables_shared [table_rules]:
  assumes "tables_inv s"
  shows "tables_inv (on_listen_readable inp s)" "tables_inv (on_voice_readable fd inp s)"
    "tables_inv (on_trial_readable fd inp s)" "tables_inv (on_obp_readable idx inp s)"
proof -
  show "tables_inv (on_listen_readable inp s)"
    using assms
    by (auto simp: on_listen_readable_def tables_accept_connection intro!: tables_foldl dest: set_takeWhileD split: input.split)
  show "tables_inv (on_voice_readable fd inp s)" "tables_inv (on_trial_readable fd inp s)" "tables_inv (on_obp_readable idx inp s)"
    using assms
    by (auto simp: on_voice_readable_def on_trial_readable_def on_obp_readable_def Let_def table_rules
        split: input.split option.split)
qed

section \<open>Sockets of the peers\<close>

lemma tables_bind:
  assumes "tables_inv s" "s_obp_fd s i < 0" "i < n_openbridge (s_cfg s)"
  shows "tables_inv (bind_peer i s)"
proof -
  let ?fd = "s_sock s (s_nsock s)"
  let ?u = "s\<lparr>s_nsock := Suc (s_nsock s), s_obp_fd := (s_obp_fd s)(i := ?fd)\<rparr>"
  have "shared_ok s fd cb \<Longrightarrow> shared_ok ?u fd cb" for fd cb using assms(2) by (cases cb) auto
  then have u: "tables_inv ?u" using assms(1) by (auto simp: tables_inv_def)
  have a: "tables_inv (v\<lparr>s_obp_active := f\<rparr>)" if "tables_inv v" for v f
    by (rule tables_cong [where s = v]) (simp_all add: that)
  show ?thesis
    using u assms(3)
    by (auto simp: bind_peer_def next_sock_def Let_def intro!: a tables_register)
qed

lemma tables_unbind:
  assumes "tables_inv s"
  shows "tables_inv (unbind_peer i s)"
proof -
  let ?fd = "s_obp_fd s i"
  have a: "tables_inv (v\<lparr>s_obp_active := f\<rparr>)" if "tables_inv v" for v f
    by (rule tables_cong [where s = v]) (simp_all add: that)
  let ?u = "emit (Close ?fd) (on_loop (ev_del_fd ?fd) s)"
  have u: "tables_inv ?u" using assms by (simp add: table_rules)
  have e: "ev_ok (s_loop s)" using assms by (simp add: tables_inv_def)
  have "readers ?u ?fd = None" using del_fd_tables(1) [OF e, of ?fd] by (simp add: emit_def)
  then have "shared_ok (?u\<lparr>s_obp_fd := (s_obp_fd s)(i := - 1)\<rparr>) fd cb" if "readers ?u fd = Some cb" "shared_ok ?u fd cb" for fd cb
    using that by (cases cb) (auto simp: emit_def on_loop_def)
  then have "tables_inv (?u\<lparr>s_obp_fd := (s_obp_fd s)(i := - 1)\<rparr>)" using u by (auto simp: tables_inv_def)
  then show ?thesis using assms by (simp add: unbind_peer_def Let_def a)
qed

lemma tables_reconcile_peers:
  assumes "tables_inv s" "obp_ok s"
  shows "tables_inv (obp_mux_reconcile s)"
proof -
  have "k \<le> n_openbridge (s_cfg s) \<Longrightarrow> let t = foldl obp_reconcile_peer s [0..<k] in
      tables_inv t \<and> obp_ok t \<and> s_cfg t = s_cfg s" for k
  proof (induction k)
    case (Suc k)
    let ?t = "foldl obp_reconcile_peer s [0..<k]"
    have t: "tables_inv ?t" "obp_ok ?t" "s_cfg ?t = s_cfg s" using Suc by (simp_all add: Let_def)
    have "s_obp_fd ?t k < 0" if "\<not> s_obp_active ?t k" using that t(2) by (auto simp: obp_ok_def)
    then have "tables_inv (obp_reconcile_peer ?t k)"
      using t Suc.prems by (simp add: obp_reconcile_peer_def Let_def tables_bind tables_unbind)
    moreover have "obp_ok (obp_reconcile_peer ?t k)" by (rule reconcile_peer_ok [OF t(2)])
    moreover have "s_cfg (obp_reconcile_peer ?t k) = s_cfg s" using t(3) by (simp add: obp_reconcile_peer_def Let_def frame)
    ultimately show ?case by (simp add: Let_def)
  qed (simp add: assms)
  then show ?thesis by (simp add: obp_mux_reconcile_def Let_def)
qed

section \<open>Every step\<close>

lemma tables_cfg:
  assumes "tables_inv s" "n_openbridge c = n_openbridge (s_cfg s)"
  shows "tables_inv (s\<lparr>s_cfg := c\<rparr>)"
proof -
  have "shared_ok (s\<lparr>s_cfg := c\<rparr>) fd cb = shared_ok s fd cb" for fd cb using assms(2) by (cases cb) simp_all
  then show ?thesis using assms(1) by (simp add: tables_inv_def)
qed

lemma tables_reconcile_links [table_rules]: "tables_inv s \<Longrightarrow> tables_inv (cccc_mux_reconcile s)"
  unfolding cccc_mux_reconcile_def
  by (rule tables_foldl) (simp_all add: reconcile_link_def Let_def table_rules)

lemma tables_reload:
  assumes "tables_inv s" "obp_ok s" "0 < c_keepalive_interval (s_cfg s)"
  shows "tables_inv (do_reload file s)"
proof (cases "config_reload_toggles file (s_cfg s)")
  case (Inr c)
  then have w: "without_toggles c = without_toggles (s_cfg s)"
    using without_toggles_apply by (auto simp: config_reload_toggles_def split: sum.splits)
  let ?u = "s\<lparr>s_cfg := c\<rparr>"
  have "tables_inv (cccc_mux_reconcile ?u)"
    by (intro table_rules tables_cfg assms(1)) (rule same_shape(3) [OF w])
  moreover have "calm ?u (cccc_mux_reconcile ?u)"
    using assms(3) same_shape(1) [OF w] by (intro calm_rules calm_refl) simp
  then have "obp_ok (cccc_mux_reconcile ?u)" using assms(2) by (simp add: calm_def obp_ok_def)
  ultimately show ?thesis by (simp add: do_reload_def Inr tables_reconcile_peers)
qed (simp add: do_reload_def assms)

lemma tables_tick:
  assumes "tables_inv s" "obp_ok s" "0 < c_keepalive_interval (s_cfg s)"
  shows "tables_inv (tick_cb file s)"
proof -
  define u where "u = translator_tick s"
  have u: "tables_inv u" unfolding u_def translator_tick_def by (rule tables_foldl [OF assms(1)]) (rule table_rules)
  have "calm s u" unfolding u_def by (intro calm_rules calm_refl assms)
  then have o: "obp_ok u" "s_cfg u = s_cfg s" using assms(2) by (auto simp: calm_def obp_ok_def)
  have "tables_inv (do_reload file (u\<lparr>s_reload_requested := False\<rparr>))"
    by (rule tables_reload) (use u o assms(3) in \<open>simp_all add: table_rules obp_ok_def\<close>)
  then show ?thesis using u by (simp add: tick_cb_def u_def [symmetric] Let_def table_rules)
qed

lemma tables_step:
  assumes "bridge_step s t" "tables_inv s" "obp_ok s" "0 < c_keepalive_interval (s_cfg s)"
  shows "tables_inv t"
  using assms(1)
proof cases
  case (Timer u f)
  let ?s = "fired (t_id u) s"
  have f: "tables_inv ?s" using assms(2) by (rule table_rules)
  have "calm s ?s" by (intro calm_rules calm_refl assms)
  then have "obp_ok ?s" "s_cfg ?s = s_cfg s" using assms(3) by (auto simp: calm_def obp_ok_def)
  then show ?thesis using f assms(4) by (cases "t_cb u") (simp_all add: Timer(1) tables_tick table_rules)
next
  case (Readable fd cb inp)
  then show ?thesis using assms(2) by (cases cb) (auto simp: table_rules intro: tables_writable)
next
  case (Writable fd cb inp)
  then show ?thesis using assms(2) by (cases cb) (auto simp: table_rules intro: tables_writable)
qed (simp_all add: assms(2) table_rules on_sighup_def on_sigterm_def)

section \<open>The start\<close>

lemma tables_blank: "tables_inv (blank_sys c sock rnd)"
  by (simp add: tables_inv_def blank_sys_def ev_ok_new zero_pending_def) (simp add: ev_new_def)

lemma tables_start_peers:
  assumes "tables_inv s" "\<And>i. s_obp_fd s i < 0"
  shows "let t = obp_mux_start s in tables_inv t \<and> s_voice_fd t = s_voice_fd s \<and> s_trial_fd t = s_trial_fd s \<and>
    s_listen_fd t = s_listen_fd s"
proof -
  let ?f = "\<lambda>s i. if o_enabled (peer_cfg s i) then bind_peer i s else s"
  have "k \<le> n_openbridge (s_cfg s) \<Longrightarrow> let t = foldl ?f s [0..<k] in
      tables_inv t \<and> s_cfg t = s_cfg s \<and> (\<forall>i \<ge> k. s_obp_fd t i < 0) \<and> s_voice_fd t = s_voice_fd s \<and>
      s_trial_fd t = s_trial_fd s \<and> s_listen_fd t = s_listen_fd s" for k
  proof (induction k)
    case (Suc k)
    have b: "s_voice_fd (bind_peer i u) = s_voice_fd u" "s_trial_fd (bind_peer i u) = s_trial_fd u"
      "s_listen_fd (bind_peer i u) = s_listen_fd u" for i u
      by (simp_all add: bind_peer_def next_sock_def Let_def on_loop_def)
    show ?case using Suc by (auto simp: Let_def tables_bind frame b)
  qed (simp add: assms)
  from this [of "n_openbridge (s_cfg s)"] show ?thesis by (simp add: obp_mux_start_def Let_def)
qed

lemma tables_open:
  assumes "tables_inv s"
  shows "s_voice_fd s < 0 \<Longrightarrow> 0 \<le> fd \<Longrightarrow> tables_inv (on_loop (ev_add_fd fd On_voice_readable) (s\<lparr>s_nsock := k, s_voice_fd := fd\<rparr>))"
    "s_trial_fd s < 0 \<Longrightarrow> 0 \<le> fd \<Longrightarrow> tables_inv (on_loop (ev_add_fd fd On_trial_readable) (s\<lparr>s_nsock := k, s_trial_fd := fd\<rparr>))"
    "s_listen_fd s < 0 \<Longrightarrow> 0 \<le> fd \<Longrightarrow> tables_inv (on_loop (ev_add_fd fd On_listen_readable) (s\<lparr>s_nsock := k, s_listen_fd := fd\<rparr>))"
proof -
  have *: "tables_inv (on_loop (ev_add_fd fd cb) t)"
    if "0 \<le> fd" "shared_ok t fd cb" "\<And>fd' c. shared_ok s fd' c \<Longrightarrow> shared_ok t fd' c" "s_loop t = s_loop s" "s_pending t = s_pending s"
    for t cb
    by (rule tables_register) (use that assms in \<open>auto simp: tables_inv_def\<close>)
  show "s_voice_fd s < 0 \<Longrightarrow> 0 \<le> fd \<Longrightarrow> tables_inv (on_loop (ev_add_fd fd On_voice_readable) (s\<lparr>s_nsock := k, s_voice_fd := fd\<rparr>))"
    by (rule *) (auto elim!: shared_ok.elims)
  show "s_trial_fd s < 0 \<Longrightarrow> 0 \<le> fd \<Longrightarrow> tables_inv (on_loop (ev_add_fd fd On_trial_readable) (s\<lparr>s_nsock := k, s_trial_fd := fd\<rparr>))"
    by (rule *) (auto elim!: shared_ok.elims)
  show "s_listen_fd s < 0 \<Longrightarrow> 0 \<le> fd \<Longrightarrow> tables_inv (on_loop (ev_add_fd fd On_listen_readable) (s\<lparr>s_nsock := k, s_listen_fd := fd\<rparr>))"
    by (rule *) (auto elim!: shared_ok.elims)
qed

lemma tables_start:
  assumes "main_start c sock rnd now wall = Running s"
  shows "tables_inv s"
proof -
  define a where "a = (blank_sys c sock rnd)\<lparr>s_now := now, s_wall := wall\<rparr>"
  define b where "b = obp_mux_start a"
  obtain t where t: "cccc_mux_start b = (True, t)"
    and s: "s = on_loop (\<lambda>l. l\<lparr>ev_running := True\<rparr>) (snd (timer_after TICK_INTERVAL_S Tick_cb t))"
    using assms(1) by (auto simp: main_start_def Let_def a_def b_def split: prod.splits if_splits)
  have "tables_inv a" "\<And>i. s_obp_fd a i < 0" "s_voice_fd a < 0" "s_trial_fd a < 0" "s_listen_fd a < 0"
    using tables_cong [OF _ _ _ _ _ _ _ tables_blank, of a c sock rnd] by (simp_all add: a_def) (simp_all add: blank_sys_def)
  then have b: "tables_inv b" "s_voice_fd b < 0" "s_trial_fd b < 0" "s_listen_fd b < 0"
    using tables_start_peers [of a] by (simp_all add: b_def Let_def)
  let ?fd = "\<lambda>k. s_sock b (s_nsock b + k)"
  define p where "p = on_loop (ev_add_fd (?fd 0) On_voice_readable) (b\<lparr>s_nsock := Suc (s_nsock b), s_voice_fd := ?fd 0\<rparr>)"
  define q where "q = on_loop (ev_add_fd (?fd 1) On_trial_readable) (p\<lparr>s_nsock := Suc (s_nsock p), s_trial_fd := ?fd 1\<rparr>)"
  define r where "r = on_loop (ev_add_fd (?fd 2) On_listen_readable) (q\<lparr>s_nsock := Suc (s_nsock q), s_listen_fd := ?fd 2\<rparr>)"
  have tr: "t = foldl start_link r [0..<n_link (s_cfg r)]" and fd: "0 \<le> ?fd 0" "0 \<le> ?fd 1" "0 \<le> ?fd 2"
    using t
    by (auto simp: cccc_mux_start_def next_sock_def Let_def on_loop_def p_def q_def r_def numeral_2_eq_2 split: if_splits)
  have "tables_inv p" unfolding p_def by (rule tables_open(1) [OF b(1,2) fd(1)])
  then have "tables_inv q" unfolding q_def by (rule tables_open(2)) (use b(3) fd in \<open>simp_all add: p_def on_loop_def\<close>)
  then have "tables_inv r" unfolding r_def by (rule tables_open(3)) (use b(4) fd in \<open>simp_all add: p_def q_def on_loop_def\<close>)
  then have "tables_inv t"
    unfolding tr by (rule tables_foldl) (simp add: start_link_def Let_def table_rules)
  then show ?thesis by (simp add: s table_rules)
qed

lemma reachable_tables:
  assumes "reachable c s" "0 < c_keepalive_interval c"
  shows "tables_inv s"
  using assms(1)
proof induction
  case (Start sock rnd now wall s)
  then show ?case by (rule tables_start)
next
  case (Step s t)
  have m: "main_inv c s" by (rule reachable_main_inv [OF Step.hyps(1) assms(2)])
  then have "0 < c_keepalive_interval (s_cfg s)" using same_shape(1) [of "s_cfg s" c] assms(2) by (simp add: main_inv_def)
  then show ?case using tables_step [OF Step.hyps(2) Step.IH] m by (simp add: main_inv_def)
qed

section \<open>Counting\<close>

fun owned_fd :: "sys \<Rightarrow> fd_cb \<Rightarrow> int" where
  "owned_fd s (On_obp_readable i) = s_obp_fd s i"
| "owned_fd s (On_link_tcp_readable i) = lk_fd (s_links s i)"
| "owned_fd s (On_connect_writable i) = lk_fd (s_links s i)"
| "owned_fd s (On_pending_readable k) = p_fd (s_pending s k)"
| "owned_fd s On_listen_readable = s_listen_fd s"
| "owned_fd s On_voice_readable = s_voice_fd s"
| "owned_fd s On_trial_readable = s_trial_fd s"

definition owners :: "sys \<Rightarrow> fd_cb set" where
  "owners s = {On_listen_readable, On_voice_readable, On_trial_readable} \<union> On_obp_readable ` {..<n_openbridge (s_cfg s)} \<union>
     On_link_tcp_readable ` {..<n_link (s_cfg s)} \<union> On_pending_readable ` {..<MAX_PENDING}"

lemma card_owners: "finite (owners s)" "card (owners s) \<le> 3 + n_openbridge (s_cfg s) + n_link (s_cfg s) + MAX_PENDING"
proof -
  have c: "card (f ` {..<n}) \<le> n" for f :: "nat \<Rightarrow> fd_cb" and n using card_image_le [of "{..<n}" f] by simp
  have "card (owners s) \<le> card {On_listen_readable, On_voice_readable, On_trial_readable} +
      card (On_obp_readable ` {..<n_openbridge (s_cfg s)}) + card (On_link_tcp_readable ` {..<n_link (s_cfg s)}) +
      card (On_pending_readable ` {..<MAX_PENDING})"
    unfolding owners_def by (intro order_trans [OF card_Un_le] add_mono order.refl)
  also have "card {On_listen_readable, On_voice_readable, On_trial_readable} = 3" by simp
  finally show "card (owners s) \<le> 3 + n_openbridge (s_cfg s) + n_link (s_cfg s) + MAX_PENDING"
    using c [of On_obp_readable "n_openbridge (s_cfg s)"] c [of On_link_tcp_readable "n_link (s_cfg s)"]
      c [of On_pending_readable MAX_PENDING] by linarith
qed (simp add: owners_def)

lemma card_table: "tab_ok es \<Longrightarrow> length es = card (dom (map_of es))"
  using distinct_card [of "map fst es"] by (simp add: tab_ok_def dom_map_of_conv_image_fst)

lemma reader_count:
  assumes "tables_inv s" "base_ok s" "\<And>i. link_ok s i"
  shows "length (ev_fds (s_loop s)) \<le> Suc (card (owners s))"
proof -
  let ?D = "{fd. readers s fd \<noteq> None \<and> 0 \<le> fd}"
  have own: "cb \<in> owners s \<and> owned_fd s cb = fd" if "readers s fd = Some cb" "0 \<le> fd" for fd cb
  proof -
    have "shared_ok s fd cb" "rd_ok s fd cb" using assms(1,2) that by (simp_all add: tables_inv_def base_ok_def entries_ok_def)
    then show ?thesis
      using assms(3) tables_slot(2) [OF assms(1)] by (cases cb) (auto simp: owners_def link_ok_def Let_def)
  qed
  have "inj_on (\<lambda>fd. the (readers s fd)) ?D"
    by (rule inj_on_inverseI [where g = "owned_fd s"]) (use own in auto)
  moreover have "(\<lambda>fd. the (readers s fd)) ` ?D \<subseteq> owners s" using own by auto
  ultimately have c: "card ?D \<le> card (owners s)" using card_owners(1) by (intro card_inj_on_le)
  have f: "finite ?D" by (rule finite_subset [OF _ finite_dom_map_of [of "ev_fds (s_loop s)"]]) auto
  have "dom (readers s) \<subseteq> insert (- 1) ?D"
  proof
    fix fd assume "fd \<in> dom (readers s)"
    then show "fd \<in> insert (- 1) ?D" using assms(1) by (force simp: tables_inv_def)
  qed
  then have "card (dom (readers s)) \<le> card (insert (- 1) ?D)" using f by (intro card_mono) simp_all
  also have "\<dots> \<le> Suc (card ?D)" using f by (simp add: card_insert_if)
  finally show ?thesis using c assms(1) card_table [of "ev_fds (s_loop s)"] by (simp add: tables_inv_def ev_ok_def)
qed

lemma writer_count:
  assumes "tables_inv s" "base_ok s" "\<And>i. link_ok s i"
  shows "length (ev_wfds (s_loop s)) \<le> n_link (s_cfg s)"
proof -
  have own: "cb \<in> On_connect_writable ` {..<n_link (s_cfg s)} \<and> owned_fd s cb = fd" if "writers s fd = Some cb" for fd cb
  proof -
    have "0 \<le> fd" using assms(1) that by (simp add: tables_inv_def)
    then have "wr_ok s fd cb" using assms(2) that by (simp add: base_ok_def entries_ok_def)
    then show ?thesis using assms(3) by (cases cb) (auto simp: link_ok_def Let_def)
  qed
  have "inj_on (\<lambda>fd. the (writers s fd)) (dom (writers s))"
    by (rule inj_on_inverseI [where g = "owned_fd s"]) (use own in auto)
  moreover have "(\<lambda>fd. the (writers s fd)) ` dom (writers s) \<subseteq> On_connect_writable ` {..<n_link (s_cfg s)}" using own by auto
  ultimately have "card (dom (writers s)) \<le> card (On_connect_writable ` {..<n_link (s_cfg s)})" by (intro card_inj_on_le) simp_all
  also have "\<dots> \<le> n_link (s_cfg s)" using card_image_le [of "{..<n_link (s_cfg s)}" On_connect_writable] by simp
  finally show ?thesis using assms(1) card_table [of "ev_wfds (s_loop s)"] by (simp add: tables_inv_def ev_ok_def)
qed

text \<open>
  C18: the descriptor tables are large enough.  In every reachable state at most 196 descriptors are
  registered for reading and 128 for writing, of 256 each, so no registration is ever dropped: a
  descriptor that is added calls the callback it was added for.
\<close>

theorem tables_never_fill:
  assumes "valid_config c" "reachable c s"
  shows "length (ev_fds (s_loop s)) \<le> 196 \<and> length (ev_wfds (s_loop s)) \<le> 128 \<and>
    readers (on_loop (ev_add_fd fd cb) s) fd = Some cb \<and> writers (on_loop (ev_add_fd_write fd cb) s) fd = Some cb"
proof -
  note r = reachable_parts [OF assms(1,2)]
  have t: "tables_inv s" by (rule reachable_tables [OF assms(2) valid_interval [OF assms(1)]])
  have "n_link c \<le> 128" "n_openbridge c \<le> 32"
    using assms(1) by (simp_all add: valid_config_def config_fits_def CFG_MAX_LINKS_def CFG_MAX_OPENBRIDGE_def)
  then have n: "n_link (s_cfg s) \<le> 128" "n_openbridge (s_cfg s) \<le> 32" using same_shape [OF r(7)] by simp_all
  have "length (ev_fds (s_loop s)) \<le> 196"
    using reader_count [OF t r(1,2)] card_owners(2) [of s] n by (simp add: MAX_PENDING_def)
  moreover have "length (ev_wfds (s_loop s)) \<le> 128" using writer_count [OF t r(1,2)] n by simp
  ultimately show ?thesis by (simp add: on_loop_def ev_add_fd_def ev_add_fd_write_def map_of_register MAX_FDS_def)
qed

lemma tables_never_fill_witness:
  "\<exists>s. reachable demo_config s \<and> lk_state (s_links s 0) = LST_UP \<and> length (ev_fds (s_loop s)) \<le> 196"
proof -
  obtain s where s: "reachable demo_config s" "lk_state (s_links s 0) = LST_UP" by (rule demo_up_run)
  then show ?thesis using tables_never_fill [OF demo_config_valid s(1)] by blast
qed

end
