(* ===== verification/Spec2Isabelle.thy ===== *)
theory Spec2Isabelle
  imports Prelude Linear_Code Dmr_Bits Dmr_Hamming Dmr_Golay Dmr_Rs129 Dmr_Bptc Dmr_Ambe Cccc_Ambe
    Crypto C_Text Log Cccc_Signal Eventloop Config_Types State Obp_Link Cccc_Send Translate Calls Bursts Traffic
    Cccc_Link Link_Inv Link_Steps Link_Life Toml Config Config_Use Net Lines Handshake Link_Props Main_Loop Across
    Calm Main_Props Call_Records Passes Heartbeat Main_Run Tables
begin

text \<open>
  A verification development for cc2obp, a bridge that carries DMR voice calls between CC-CC links
  (TCP control lines, RTP voice over UDP) and OpenBridge peers (signed DMRD datagrams over UDP).

  \<^bold>\<open>The program.\<close>  One thread runs an event loop (\<open>eventloop.c\<close>) whose callbacks are the readers and
  writers of descriptors and the timers.  \<open>cccc/cccc_link.c\<close> keeps the CC-CC links: connecting,
  handshake, keepalives, control lines, and the shared voice, trial and listening sockets.
  \<open>openbridge/obp_link.c\<close> keeps the peers' sockets and checks and signs their datagrams
  (\<open>crypto.c\<close>).  \<open>translate.c\<close> sits between them: it owns the call of each link and turns the traffic
  of one side into that of the other, with the DMR coding of \<open>dmr/*.c\<close> and the payload packing of
  \<open>cccc/cccc_ambe.c\<close>.  \<open>config.c\<close> and \<open>toml.c\<close> read the configuration, \<open>net.c\<close> wraps the socket
  calls, \<open>log.c\<close> the log, and \<open>main.c\<close> starts, ticks, reloads and stops everything.

  \<^bold>\<open>The model.\<close>
    \<^item> \<open>Prelude\<close>, \<open>C_Text\<close>: integer types as words, byte and bit lists, the text functions of the C
      library that the program uses (\<open>printf\<close> conversions, \<open>strtoul\<close>, \<open>atoi\<close>, \<open>sscanf\<close>, \<open>strstr\<close>).
    \<^item> \<open>Dmr_Bits\<close>, \<open>Dmr_Hamming\<close>, \<open>Dmr_Golay\<close>, \<open>Dmr_Rs129\<close>, \<open>Dmr_Bptc\<close>, \<open>Dmr_Ambe\<close>, \<open>Cccc_Ambe\<close>, \<open>Crypto\<close>: the
      functions and tables of \<open>dmr/*.c\<close>, \<open>cccc/cccc_ambe.c\<close> and \<open>crypto.c\<close>, executable, at the width
      of the source.  \<open>Linear_Code\<close> is the contract of a parity function, instantiated by the
      Hamming and Golay encoders.
    \<^item> \<open>Eventloop\<close>: the tables, the timers and one pass of \<open>ev_run\<close>, over any state.
    \<^item> \<open>Config_Types\<close>, \<open>Toml\<close>, \<open>Config\<close>: \<open>config.h\<close>, the whole of \<open>toml.c\<close> on the list of a file's
      characters, and the loader and the reload of \<open>config.c\<close> with their errors as values.
    \<^item> \<open>State\<close>: one record for everything the handlers share (\<open>obp_mux\<close>, \<open>cccc_mux\<close>, \<open>translator\<close>, the
      loop, the globals of \<open>main.c\<close>), the inputs from the system and the record of what is sent.
    \<^item> \<open>Cccc_Signal\<close>, \<open>Cccc_Send\<close>, \<open>Obp_Link\<close>, \<open>Translate\<close>, \<open>Cccc_Link\<close>, \<open>Main_Loop\<close>: one definition per
      function of \<open>cccc_link.c\<close>, \<open>obp_link.c\<close>, \<open>translate.c\<close> and \<open>main.c\<close>, in the order of the source.
      \<open>Main_Loop\<close> also has the dispatch of callbacks and the step relation \<open>bridge_step\<close>, and
      \<open>Main_Run\<close> the loop of \<open>ev_run\<close> on a list of results of poll, with the signals and clock readings
      that come with them, and \<open>main\<close> as a whole.
    \<^item> \<open>Net\<close>, \<open>Log\<close>: \<open>net.c\<close> as programs over system calls in the state monad, \<open>log.c\<close> as the lines that
      are written.

  \<^bold>\<open>What is proved.\<close>
    \<^item> Coding: the codes have the structure and the distances they are chosen for, encoders and
      decoders are inverse, optimised tables agree with the field they stand for; the hash functions
      return for every input and fold their block function over the padded message.
    \<^item> \<open>Calls\<close>: each callback of the translator is a transition of an abstract machine of a link's call
      (idle, from CC-CC, from OpenBridge); no call is taken over, a closed gate admits no call and no
      voice, silent calls end.  \<open>Bursts\<close> and \<open>Traffic\<close>: what a burst, and a whole call, look like to the
      other side.
    \<^item> \<open>Link_Inv\<close>, \<open>Link_Steps\<close>, \<open>Link_Life\<close>: the invariant that ties links, timers, registered
      descriptors, pending connections and SSRC numbers together, kept by every handler.
      \<open>Main_Props\<close>: it holds in every reachable state of the program, with what a reload and the stop
      achieve there.  \<open>Call_Records\<close>: the record of a running call in every reachable state, and so what
      its end says.  \<open>Calm\<close> and \<open>Passes\<close>: a pass of the event loop is made of steps and returns.
      \<open>Heartbeat\<close> and \<open>Main_Run\<close>: the tick stays armed, so poll never waits for more than a second,
      and SIGTERM ends the program and closes everything.  \<open>Tables\<close>: the descriptor tables never fill up.
    \<^item> \<open>Lines\<close>, \<open>Handshake\<close>, \<open>Link_Props\<close>: control lines survive any cutting into reads; what Question
      and Answer decide; two bridges bring their link up; a silent peer is given up in time.
    \<^item> \<open>Across\<close>: two bridges composed over a network that delays messages and cuts lines into reads.  A
      call passes from OpenBridge over a CC-CC link to OpenBridge, and from CC-CC over OpenBridge to
      CC-CC, with its talker and its vocoder frames unchanged.  The definitions there (\<open>arrive\<close>,
      \<open>obp_arrive\<close>, \<open>carried\<close>) are the network; both bridges are the handlers of the program.
    \<^item> \<open>Config_Use\<close>: what loads is valid, routing under it is unambiguous, a reload changes toggles
      only.  \<open>Net\<close>: no helper loses a descriptor.
    \<^item> Faults that the model brought out are stated as theorems of their own: a line after a Question
      closes the new connection, two bridges send a keepalive to and fro for ever, a reload can
      enable two peers on one port, an escaped quote hides the rest of a value, a LID of three
      digits is not read back.

  Interfaces are locales, each interpreted on the program's own definitions: \<open>linear_parity\<close> and
  \<open>linear_code\<close>, \<open>vocoder_frame\<close>, \<open>stream_hash\<close> (both SHA contexts), \<open>fd_registry\<close> (the descriptor
  tables), \<open>packet_auth\<close> (the signature of a datagram) and \<open>line_buffer\<close> (both line buffers).

  \<^bold>\<open>Inputs and bounds.\<close>  There is no fuel.  Loops that could run on are partial functions into
  options: the padding of the hashes, the firing of timers and the drawing of an SSRC.  That they
  return is proved: the hashes always; the firing because no callback arms a timer that is due at
  once; the drawing if the random source does not stay within as many numbers as there may be links
  (\<open>fair_rand\<close>).  The sizes of the source appear as constants (\<open>MAX_FDS\<close>, \<open>MAX_PENDING\<close>,
  \<open>RXBUF_CAP\<close>, \<open>CFG_MAX_LINKS\<close> and the buffer lengths).  Time is a rational number: the clock of a
  handler stands still, and its rounding as a double is not modelled.  Two counters of \<open>translate.c\<close>,
  \<open>obp_seq_ctr\<close> and \<open>obp_seq_pos\<close>, are natural numbers: they are an \<open>int\<close> in the source, which would
  overflow only after 2 to the 31 frames, and only their low byte and their rest modulo 6 are used.  The
  results of \<open>socket\<close> calls, of reads and of \<open>poll\<close> are inputs, and so are the random numbers, whether
  \<open>getrandom\<close> or its fallback makes them; the socket results of \<open>State\<close> are those of the helpers of
  \<open>Net\<close>.  A signal that arrives during \<open>poll\<close> sets its flag before the callbacks of that pass run;
  nothing but the tick reads the flags.  C memory is not modelled: a buffer is the list of its valid bytes, and text that
  would not fit is cut where the source cuts it.

  \<^bold>\<open>Not modelled.\<close>  Log messages at the places where they are written (they change no state; the one
  rate-limited by state is), the wording of error messages and of the usage text, socket options,
  memory allocation, \<open>ev_free\<close> and the other releases at exit, the signal masks, and the standalone
  programs under \<open>tests\<close> and \<open>tools\<close>.
\<close>

end
